(* ===== verification/Prelude.thy ===== *)
theory Prelude
  imports Complex_Main "HOL-Library.AList"
begin

text \<open>
  The shared base of the development: the parts of Python's standard library that the code
  under \<open>src/app\<close> relies on, as HOL functions, and the generic lemmas about them.

  Strings are \<^typ>\<open>string\<close>, a list of characters with code points 0 to 255. HTTP header
  values are exactly such strings (the server decodes them as Latin-1); for other text the
  model covers the code points below 256. A Python \<open>dict\<close> whose order matters is an
  association list, updated by \<^const>\<open>AList.update\<close>, which replaces in place or appends
  at the end, as Python does. Python's integers are \<^typ>\<open>int\<close>; its floats are
  \<^typ>\<open>real\<close> (rounding is not modelled).
\<close>

named_theorems py_defs \<open>definitions of the Python helpers, for evaluation\<close>
named_theorems py_eval \<open>equations that evaluate the Python helpers on closed strings\<close>
named_theorems frame_simps \<open>what an operation leaves unchanged\<close>

subsection \<open>Characters and strings\<close>

text \<open>\<open>str.isspace\<close> on the code points below 256.\<close>

definition py_isspace :: "char \<Rightarrow> bool" where
  [py_defs]: "py_isspace c = (let n = (of_char c :: nat) in
     (9 \<le> n \<and> n \<le> 13) \<or> (28 \<le> n \<and> n \<le> 32) \<or> n = 133 \<or> n = 160)"

definition py_isascii :: "char \<Rightarrow> bool" where
  [py_defs]: "py_isascii c = ((of_char c :: nat) < 128)"

text \<open>\<open>str.lower\<close> on the code points below 256.\<close>

definition py_lower_char :: "char \<Rightarrow> char" where
  [py_defs]: "py_lower_char c = (let n = (of_char c :: nat) in
     if (65 \<le> n \<and> n \<le> 90) \<or> (192 \<le> n \<and> n \<le> 222 \<and> n \<noteq> 215) then char_of (n + 32) else c)"

definition py_lower :: "string \<Rightarrow> string" where
  [py_defs]: "py_lower s = map py_lower_char s"

text \<open>\<open>str.upper\<close> on the ASCII letters; other characters have no use here and stay.\<close>

definition py_upper :: "string \<Rightarrow> string" where
  [py_defs]: "py_upper s = map (\<lambda>c. let n = (of_char c :: nat) in if 97 \<le> n \<and> n \<le> 122 then char_of (n - 32) else c) s"

definition py_lstrip :: "string \<Rightarrow> string" where
  [py_defs]: "py_lstrip s = dropWhile py_isspace s"

definition py_rstrip :: "string \<Rightarrow> string" where
  [py_defs]: "py_rstrip s = rev (dropWhile py_isspace (rev s))"

definition py_strip :: "string \<Rightarrow> string" where
  [py_defs]: "py_strip s = py_rstrip (py_lstrip s)"

text \<open>\<open>s.rstrip(c)\<close> for a single character \<open>c\<close>.\<close>

definition py_rstrip_char :: "char \<Rightarrow> string \<Rightarrow> string" where
  [py_defs]: "py_rstrip_char d s = rev (dropWhile (\<lambda>c. c = d) (rev s))"

definition py_startswith :: "string \<Rightarrow> string \<Rightarrow> bool" where
  [py_defs]: "py_startswith s p = (take (length p) s = p)"

definition py_replace_char :: "char \<Rightarrow> char \<Rightarrow> string \<Rightarrow> string" where
  [py_defs]: "py_replace_char a b s = map (\<lambda>c. if c = a then b else c) s"

text \<open>\<open>s.split(d)\<close> for a single character \<open>d\<close>: never empty.\<close>

fun py_split :: "char \<Rightarrow> string \<Rightarrow> string list" where
  "py_split d [] = [[]]"
| "py_split d (c # cs) =
     (if c = d then [] # py_split d cs
      else (case py_split d cs of [] \<Rightarrow> [[c]] | w # ws \<Rightarrow> (c # w) # ws))"

text \<open>\<open>sep.join(xs)\<close>\<close>

definition join_with :: "string \<Rightarrow> string list \<Rightarrow> string" where
  "join_with sep xs = (case xs of [] \<Rightarrow> [] | y # ys \<Rightarrow> y @ concat (map (\<lambda>z. sep @ z) ys))"

text \<open>\<open>s.split(d, 1)\<close> as a pair, for a string that contains \<open>d\<close>.\<close>

definition py_split1 :: "char \<Rightarrow> string \<Rightarrow> string \<times> string" where
  [py_defs]: "py_split1 d s = (takeWhile (\<lambda>c. c \<noteq> d) s, tl (dropWhile (\<lambda>c. c \<noteq> d) s))"

text \<open>\<open>xs[-n:]\<close>, with Python's reading of \<open>-0\<close> and of a negative \<open>n\<close>.\<close>

definition py_neg_slice :: "int \<Rightarrow> 'a list \<Rightarrow> 'a list" where
  [py_defs]: "py_neg_slice n xs = (if n \<le> 0 then drop (nat (- n)) xs else drop (length xs - nat n) xs)"

text \<open>\<open>[text[i : i + k] for i in range(0, len(text), k)]\<close>, for a positive \<open>k\<close>.\<close>

function py_chunks :: "nat \<Rightarrow> 'a list \<Rightarrow> 'a list list" where
  "py_chunks k xs = (if xs = [] \<or> k = 0 then [] else take k xs # py_chunks k (drop k xs))"
  by pat_completeness auto
termination
  by (relation "measure (\<lambda>(k, xs). length xs)") auto

declare py_chunks.simps [simp del]

lemma py_chunks_Nil [simp]: "py_chunks k [] = []"
  by (simp add: py_chunks.simps)

lemma py_chunks_concat: "0 < k \<Longrightarrow> concat (py_chunks k xs) = xs"
proof (induction k xs rule: py_chunks.induct)
  case (1 k xs)
  then show ?case by (cases "xs = []") (simp_all add: py_chunks.simps [of k xs])
qed

lemma py_chunks_sizes: "c \<in> set (py_chunks k xs) \<Longrightarrow> 0 < length c \<and> length c \<le> k"
proof (induction k xs rule: py_chunks.induct)
  case (1 k xs)
  then show ?case
    by (cases "xs = [] \<or> k = 0") (auto simp: py_chunks.simps [of k xs])
qed

lemma py_chunks_nonempty: "[] \<notin> set (py_chunks k xs)"
  using py_chunks_sizes [of "[]" k xs] by auto

lemma py_chunks_eq_Nil: "0 < k \<Longrightarrow> py_chunks k xs = [] \<longleftrightarrow> xs = []"
  by (simp add: py_chunks.simps [of k xs])

subsection \<open>Facts about the string helpers\<close>

lemma py_neg_slice_pos: "0 < n \<Longrightarrow> py_neg_slice n xs = drop (length xs - nat n) xs"
  by (simp add: py_neg_slice_def)

lemma length_py_neg_slice: "0 < n \<Longrightarrow> length (py_neg_slice n xs) = min (length xs) (nat n)"
  by (simp add: py_neg_slice_pos)

lemma py_split_nonempty [simp]: "py_split d s \<noteq> []"
  by (induction s) (auto split: list.splits)

lemma py_split_no_sep: "d \<notin> set s \<Longrightarrow> py_split d s = [s]"
  by (induction s) auto

lemma py_split_append: "d \<notin> set s \<Longrightarrow> py_split d (s @ d # t) = s # py_split d t"
  by (induction s) auto

lemma py_split_join:
  assumes "\<forall>x \<in> set xs. d \<notin> set x" "xs \<noteq> []"
  shows "py_split d (join_with [d] xs) = xs"
proof -
  have "py_split d (x @ concat (map (\<lambda>z. [d] @ z) ys)) = x # ys" if "d \<notin> set x" "\<forall>y \<in> set ys. d \<notin> set y" for x ys
    using that by (induction ys arbitrary: x) (simp_all add: py_split_no_sep py_split_append)
  note * = this
  obtain x ys where xs: "xs = x # ys" using assms(2) by (cases xs) auto
  have "join_with [d] xs = x @ concat (map (\<lambda>z. [d] @ z) ys)" by (simp only: xs join_with_def list.case)
  with * [of x ys] assms(1) show ?thesis by (simp only: xs) simp
qed

lemma py_split1_append: "d \<notin> set s \<Longrightarrow> py_split1 d (s @ d # t) = (s, t)"
  by (induction s) (auto simp: py_split1_def)

lemma set_py_lstrip: "set (py_lstrip s) \<subseteq> set s"
  unfolding py_lstrip_def by (meson set_dropWhileD subsetI)

lemma set_py_rstrip: "set (py_rstrip s) \<subseteq> set s"
  unfolding py_rstrip_def by (metis set_dropWhileD set_rev subsetI)

lemma set_py_strip: "set (py_strip s) \<subseteq> set s"
  unfolding py_strip_def using set_py_lstrip set_py_rstrip by blast

lemma py_strip_Nil [simp]: "py_strip [] = []"
  by (simp add: py_strip_def py_lstrip_def py_rstrip_def)

text \<open>A string that neither starts nor ends with white space is its own \<open>strip()\<close>.\<close>

definition trimmed :: "string \<Rightarrow> bool" where
  "trimmed s \<longleftrightarrow> (s \<noteq> [] \<longrightarrow> \<not> py_isspace (hd s) \<and> \<not> py_isspace (last s))"

lemma py_lstrip_id: "s \<noteq> [] \<Longrightarrow> \<not> py_isspace (hd s) \<Longrightarrow> py_lstrip s = s"
  by (cases s) (simp_all add: py_lstrip_def)

lemma py_rstrip_id: "s \<noteq> [] \<Longrightarrow> \<not> py_isspace (last s) \<Longrightarrow> py_rstrip s = s"
  by (cases s rule: rev_cases) (simp_all add: py_rstrip_def)

lemma py_strip_trimmed: "trimmed s \<Longrightarrow> py_strip s = s"
  by (cases "s = []") (simp_all add: trimmed_def, simp add: py_strip_def py_lstrip_id py_rstrip_id)

lemma py_strip_eq_Nil: "py_strip s = [] \<longleftrightarrow> (\<forall>c \<in> set s. py_isspace c)"
proof -
  have "py_strip s = [] \<longleftrightarrow> (\<forall>c \<in> set (py_lstrip s). py_isspace c)"
    by (simp add: py_strip_def py_rstrip_def dropWhile_eq_Nil_conv)
  also have "\<dots> \<longleftrightarrow> (\<forall>c \<in> set s. py_isspace c)"
    unfolding py_lstrip_def by (induction s) auto
  finally show ?thesis .
qed

lemma py_strip_idem [simp]: "py_strip (py_strip s) = py_strip s"
proof (rule py_strip_trimmed)
  let ?l = "py_lstrip s"
  show "trimmed (py_strip s)"
  proof (cases "py_strip s = []")
    case False
    then have l: "?l \<noteq> []"
      by (auto simp: py_strip_def py_rstrip_def)
    have h: "\<not> py_isspace (hd ?l)"
      using l unfolding py_lstrip_def by (rule hd_dropWhile)
    have e: "\<not> py_isspace (last (py_rstrip ?l))"
    proof -
      have "dropWhile py_isspace (rev ?l) \<noteq> []"
        using False by (auto simp: py_strip_def py_rstrip_def)
      from hd_dropWhile [OF this] show ?thesis
        by (simp add: py_rstrip_def last_rev)
    qed
    have "hd (py_rstrip ?l) = hd ?l"
    proof -
      have "?l = py_rstrip ?l @ rev (takeWhile py_isspace (rev ?l))"
        unfolding py_rstrip_def by (metis rev_append rev_rev_ident takeWhile_dropWhile_id)
      moreover have "py_rstrip ?l \<noteq> []" using False by (simp add: py_strip_def)
      ultimately show ?thesis by (metis hd_append2)
    qed
    with h e show ?thesis by (simp add: trimmed_def py_strip_def)
  qed (simp add: trimmed_def)
qed

subsection \<open>Dictionaries in insertion order\<close>

lemma update_absent: "k \<notin> fst ` set m \<Longrightarrow> AList.update k v m = m @ [(k, v)]"
  by (induction m) auto

text \<open>Filling a dictionary with distinct new keys appends the entries.\<close>

lemma foldl_update_fresh:
  assumes "distinct (map fst (m @ kvs))"
  shows "foldl (\<lambda>acc (k, v). AList.update k v acc) m kvs = m @ kvs"
  using assms
proof (induction kvs arbitrary: m)
  case (Cons kv kvs)
  obtain k v where kv: "kv = (k, v)" by fastforce
  from Cons.prems have "k \<notin> fst ` set m" by (auto simp: kv)
  with Cons show ?case by (simp add: kv update_absent)
qed simp

subsection \<open>Decimal integers\<close>

text \<open>\<open>str(n)\<close> for an integer.\<close>

definition digit_char :: "nat \<Rightarrow> char" where
  "digit_char d = char_of (48 + d)"

fun py_str_nat :: "nat \<Rightarrow> string" where
  "py_str_nat n = (if n < 10 then [digit_char n] else py_str_nat (n div 10) @ [digit_char (n mod 10)])"

declare py_str_nat.simps [simp del]

definition py_str_int :: "int \<Rightarrow> string" where
  "py_str_int i = (if i < 0 then CHR ''-'' # py_str_nat (nat (- i)) else py_str_nat (nat i))"

text \<open>
  \<open>int(s)\<close> for a stripped string: an optional sign, then decimal digits with single
  underscores between them; \<^const>\<open>None\<close> is \<open>ValueError\<close>. Since Python 3.11 a literal
  of more than 4300 digits is a \<open>ValueError\<close> too.
\<close>

definition is_digit :: "char \<Rightarrow> bool" where
  "is_digit c = (let n = (of_char c :: nat) in 48 \<le> n \<and> n \<le> 57)"

definition digit_val :: "char \<Rightarrow> nat" where
  "digit_val c = (of_char c :: nat) - 48"

fun py_digits :: "string \<Rightarrow> nat list option" where
  "py_digits [] = None"
| "py_digits [c] = (if is_digit c then Some [digit_val c] else None)"
| "py_digits (c # d # cs) =
     (if \<not> is_digit c then None
      else map_option (Cons (digit_val c)) (py_digits (if d = CHR ''_'' then cs else d # cs)))"

definition digits_value :: "nat list \<Rightarrow> nat" where
  "digits_value ds = foldl (\<lambda>acc d. 10 * acc + d) 0 ds"

definition py_int_unsigned :: "string \<Rightarrow> nat option" where
  "py_int_unsigned s = (case py_digits s of None \<Rightarrow> None
     | Some ds \<Rightarrow> if length ds \<le> 4300 then Some (digits_value ds) else None)"

definition py_int :: "string \<Rightarrow> int option" where
  "py_int s = (case s of
       [] \<Rightarrow> None
     | c # cs \<Rightarrow>
         if c = CHR ''-'' then map_option (\<lambda>n. - int n) (py_int_unsigned cs)
         else if c = CHR ''+'' then map_option int (py_int_unsigned cs)
         else map_option int (py_int_unsigned s))"

lemma of_char_digit_char: "d < 10 \<Longrightarrow> (of_char (digit_char d) :: nat) = 48 + d"
  by (simp add: digit_char_def)

lemma digit_char_props [simp]:
  assumes "d < 10"
  shows "is_digit (digit_char d)" and "digit_val (digit_char d) = d"
    and "digit_char d \<noteq> CHR ''_''" and "digit_char d \<noteq> CHR ''-''" and "digit_char d \<noteq> CHR ''+''"
    and "digit_char d \<noteq> CHR '':''" and "digit_char d \<noteq> CHR '',''" and "\<not> py_isspace (digit_char d)"
proof -
  have e: "(of_char (digit_char d) :: nat) = 48 + d" using assms by (rule of_char_digit_char)
  show "is_digit (digit_char d)" "digit_val (digit_char d) = d" "\<not> py_isspace (digit_char d)"
    using assms by (auto simp: is_digit_def digit_val_def py_isspace_def e)
  have "digit_char d \<noteq> c" if "(of_char c :: nat) < 48 \<or> 57 < (of_char c :: nat)" for c
    using that e assms by auto
  then show "digit_char d \<noteq> CHR ''_''" "digit_char d \<noteq> CHR ''-''" "digit_char d \<noteq> CHR ''+''"
    "digit_char d \<noteq> CHR '':''" "digit_char d \<noteq> CHR '',''" by simp_all
qed

lemma py_str_nat_chars: "c \<in> set (py_str_nat n) \<Longrightarrow> \<exists>d < 10. c = digit_char d"
proof (induction n rule: py_str_nat.induct)
  case (1 n)
  show ?case
  proof (cases "n < 10")
    case True
    with "1.prems" show ?thesis by (auto simp: py_str_nat.simps [of n])
  next
    case False
    with "1.prems" consider "c \<in> set (py_str_nat (n div 10))" | "c = digit_char (n mod 10)"
      by (auto simp: py_str_nat.simps [of n])
    then show ?thesis
    proof cases
      case 2
      then show ?thesis by (intro exI [of _ "n mod 10"]) simp
    qed (rule "1.IH" [OF False])
  qed
qed

lemma py_str_nat_ne [simp]: "py_str_nat n \<noteq> []"
  by (subst py_str_nat.simps) simp

lemma py_digits_snoc:
  "py_digits s = Some ds \<Longrightarrow> d < 10 \<Longrightarrow> py_digits (s @ [digit_char d]) = Some (ds @ [d])"
proof (induction s arbitrary: ds rule: py_digits.induct)
  case (3 c d' cs)
  then show ?case by (cases "d' = CHR ''_''") (auto split: if_splits)
qed (auto split: if_splits)

lemma py_digits_str_nat: "\<exists>ds. py_digits (py_str_nat n) = Some ds \<and> digits_value ds = n \<and> length ds = length (py_str_nat n)"
proof (induction n rule: py_str_nat.induct)
  case (1 n)
  show ?case
  proof (cases "n < 10")
    case True
    then show ?thesis by (simp add: py_str_nat.simps [of n] digits_value_def)
  next
    case False
    with 1 obtain ds where ds: "py_digits (py_str_nat (n div 10)) = Some ds"
      "digits_value ds = n div 10" "length ds = length (py_str_nat (n div 10))" by blast
    have "py_digits (py_str_nat n) = Some (ds @ [n mod 10])"
      using False py_digits_snoc [OF ds(1), of "n mod 10"] by (simp add: py_str_nat.simps [of n])
    moreover have "digits_value (ds @ [n mod 10]) = n"
      using ds(2) by (simp add: digits_value_def)
    ultimately show ?thesis using False ds(3) by (simp add: py_str_nat.simps [of n])
  qed
qed

lemma py_str_nat_inj: "py_str_nat m = py_str_nat n \<Longrightarrow> m = n"
  using py_digits_str_nat [of m] py_digits_str_nat [of n] by (metis option.inject)

lemma py_str_int_inj: "py_str_int i = py_str_int j \<Longrightarrow> i = j"
proof -
  have no_minus: "py_str_nat a \<noteq> CHR ''-'' # x" for a x
  proof
    assume "py_str_nat a = CHR ''-'' # x"
    then have "CHR ''-'' \<in> set (py_str_nat a)" by simp
    then obtain d where "d < 10" "CHR ''-'' = digit_char d" using py_str_nat_chars by blast
    then show False using digit_char_props(4) by metis
  qed
  show "py_str_int i = py_str_int j \<Longrightarrow> i = j"
    using no_minus no_minus [symmetric]
    by (auto simp: py_str_int_def split: if_splits dest!: py_str_nat_inj)
qed

lemma py_str_int_chars: "c \<in> set (py_str_int i) \<Longrightarrow> c = CHR ''-'' \<or> (\<exists>d < 10. c = digit_char d)"
  by (auto simp: py_str_int_def dest: py_str_nat_chars split: if_splits)

lemma py_str_int_no_colon [simp]: "CHR '':'' \<notin> set (py_str_int i)"
  using py_str_int_chars [of "CHR '':''" i] digit_char_props(6) by fastforce

lemma py_str_int_no_comma [simp]: "CHR '','' \<notin> set (py_str_int i)"
  using py_str_int_chars [of "CHR '',''" i] digit_char_props(7) by fastforce

lemma py_str_int_ne [simp]: "py_str_int i \<noteq> []"
  by (simp add: py_str_int_def)

text \<open>\<open>int(str(n)) == n\<close>, for a number of at most 4300 digits.\<close>

lemma py_int_str_int:
  assumes "length (py_str_int i) \<le> 4300"
  shows "py_int (py_str_int i) = Some i"
proof (cases "i < 0")
  case True
  with assms py_digits_str_nat [of "nat (- i)"] show ?thesis
    by (auto simp: py_int_def py_str_int_def py_int_unsigned_def)
next
  case False
  then have e: "py_str_int i = py_str_nat (nat i)" by (simp add: py_str_int_def)
  obtain c cs where s: "py_str_nat (nat i) = c # cs" by (cases "py_str_nat (nat i)") auto
  then obtain d where "d < 10" "c = digit_char d" using py_str_nat_chars [of c "nat i"] by auto
  with False assms py_digits_str_nat [of "nat i"] show ?thesis
    by (auto simp: e py_int_def py_int_unsigned_def s)
qed

lemma py_str_int_trimmed: "trimmed (py_str_int i)"
proof -
  have "\<not> py_isspace c" if "c \<in> set (py_str_int i)" for c
    using py_str_int_chars [OF that] by (auto simp: py_isspace_def [of "CHR ''-''"])
  then show ?thesis by (simp add: trimmed_def)
qed

text \<open>The elements of an optional value.\<close>

definition option_list :: "'a option \<Rightarrow> 'a list" where
  "option_list x = (case x of None \<Rightarrow> [] | Some y \<Rightarrow> [y])"

lemma option_list_simps [simp]: "option_list None = []" "option_list (Some y) = [y]"
  by (simp_all add: option_list_def)

text \<open>Changing one summand.\<close>

lemma sum_list_map_update:
  fixes f :: "'a \<Rightarrow> nat"
  assumes "i < length xs" "f x < f (xs ! i)"
  shows "sum_list (map f (xs[i := x])) < sum_list (map f xs)"
proof -
  have "sum_list (map f xs) = sum_list (map f (take i xs @ xs ! i # drop (Suc i) xs))"
    using id_take_nth_drop [OF assms(1)] by simp
  then show ?thesis using assms by (simp add: upd_conv_take_nth_drop)
qed

end
