(* ===== verification/Errors.thy ===== *)
theory Errors
  imports Prelude
begin

text \<open>
  The exceptions of the program: the class hierarchy of
  \<open>app/domain/exceptions/errors.py\<close>, and the \<open>RetrySignal\<close> of
  \<open>app/common/utils/retry.py\<close>, which the code attaches to an exception as an attribute.
  A call that may raise returns \<^typ>\<open>'e + 'a\<close>, with \<^const>\<open>Inl\<close> for the exception.
\<close>

subsection \<open>Classes\<close>

text \<open>
  \<open>BuiltinError\<close> stands for every class outside the hierarchy, by its name
  (\<open>TypeError\<close>, \<open>ZeroDivisionError\<close>, the classes of the client libraries).
\<close>

datatype exn_class =
    DomainError
  | InfraError
  | ExternalServiceError
  | ValidationError
  | LLMTimeoutError
  | LLMBadResponseError
  | TTSTimeoutError
  | TTSBadResponseError
  | SessionStoreError
  | UnauthorizedError
  | ForbiddenError
  | RateLimitExceededError
  | BuiltinError string

text \<open>The direct base class, where it is one of the program's.\<close>

fun base_class :: "exn_class \<Rightarrow> exn_class option" where
  "base_class DomainError = None"
| "base_class InfraError = Some DomainError"
| "base_class ExternalServiceError = Some InfraError"
| "base_class ValidationError = Some DomainError"
| "base_class LLMTimeoutError = Some ExternalServiceError"
| "base_class LLMBadResponseError = Some ExternalServiceError"
| "base_class TTSTimeoutError = Some ExternalServiceError"
| "base_class TTSBadResponseError = Some ExternalServiceError"
| "base_class SessionStoreError = Some InfraError"
| "base_class UnauthorizedError = Some DomainError"
| "base_class ForbiddenError = Some DomainError"
| "base_class RateLimitExceededError = Some DomainError"
| "base_class (BuiltinError _) = None"

fun class_depth :: "exn_class \<Rightarrow> nat" where
  "class_depth DomainError = 0"
| "class_depth (BuiltinError _) = 0"
| "class_depth InfraError = 1"
| "class_depth ExternalServiceError = 2"
| "class_depth _ = 3"

lemma base_class_depth: "base_class c = Some d \<Longrightarrow> class_depth d < class_depth c"
  by (cases c) auto

text \<open>\<open>issubclass(c, d)\<close>, by walking up the bases.\<close>

function is_subclass :: "exn_class \<Rightarrow> exn_class \<Rightarrow> bool" where
  "is_subclass c d = (c = d \<or> (case base_class c of None \<Rightarrow> False | Some b \<Rightarrow> is_subclass b d))"
  by pat_completeness auto
termination
  by (relation "measure (\<lambda>(c, d). class_depth c)") (auto simp: base_class_depth)

declare is_subclass.simps [simp del]

lemma is_subclass_table [simp]:
  "is_subclass DomainError d \<longleftrightarrow> d = DomainError"
  "is_subclass InfraError d \<longleftrightarrow> d \<in> {InfraError, DomainError}"
  "is_subclass ExternalServiceError d \<longleftrightarrow> d \<in> {ExternalServiceError, InfraError, DomainError}"
  "is_subclass ValidationError d \<longleftrightarrow> d \<in> {ValidationError, DomainError}"
  "is_subclass LLMTimeoutError d \<longleftrightarrow> d \<in> {LLMTimeoutError, ExternalServiceError, InfraError, DomainError}"
  "is_subclass LLMBadResponseError d \<longleftrightarrow> d \<in> {LLMBadResponseError, ExternalServiceError, InfraError, DomainError}"
  "is_subclass TTSTimeoutError d \<longleftrightarrow> d \<in> {TTSTimeoutError, ExternalServiceError, InfraError, DomainError}"
  "is_subclass TTSBadResponseError d \<longleftrightarrow> d \<in> {TTSBadResponseError, ExternalServiceError, InfraError, DomainError}"
  "is_subclass SessionStoreError d \<longleftrightarrow> d \<in> {SessionStoreError, InfraError, DomainError}"
  "is_subclass UnauthorizedError d \<longleftrightarrow> d \<in> {UnauthorizedError, DomainError}"
  "is_subclass ForbiddenError d \<longleftrightarrow> d \<in> {ForbiddenError, DomainError}"
  "is_subclass RateLimitExceededError d \<longleftrightarrow> d \<in> {RateLimitExceededError, DomainError}"
  "is_subclass (BuiltinError n) d \<longleftrightarrow> d = BuiltinError n"
  by (auto simp: is_subclass.simps)

text \<open>\<open>cls.__name__\<close>, for the log fields.\<close>

fun class_name :: "exn_class \<Rightarrow> string" where
  "class_name DomainError = ''DomainError''"
| "class_name InfraError = ''InfraError''"
| "class_name ExternalServiceError = ''ExternalServiceError''"
| "class_name ValidationError = ''ValidationError''"
| "class_name LLMTimeoutError = ''LLMTimeoutError''"
| "class_name LLMBadResponseError = ''LLMBadResponseError''"
| "class_name TTSTimeoutError = ''TTSTimeoutError''"
| "class_name TTSBadResponseError = ''TTSBadResponseError''"
| "class_name SessionStoreError = ''SessionStoreError''"
| "class_name UnauthorizedError = ''UnauthorizedError''"
| "class_name ForbiddenError = ''ForbiddenError''"
| "class_name RateLimitExceededError = ''RateLimitExceededError''"
| "class_name (BuiltinError n) = n"

subsection \<open>The retry signal\<close>

datatype timeout_kind = ConnectTimeout | ReadTimeout | WriteTimeout | PoolTimeout | TotalTimeout

record retry_signal =
  sig_provider :: string
  sig_operation :: string
  sig_idempotent :: bool
  sig_error_code :: string
  sig_exception_type :: string
  sig_http_status :: "int option"
  sig_timeout_type :: "timeout_kind option"
  sig_retryable_override :: "bool option"

subsection \<open>Exception values\<close>

text \<open>
  An exception: its class, \<open>str(exc)\<close>, its \<open>error_code\<close> attribute (absent outside the
  hierarchy) and its \<open>_retry_signal\<close> attribute (absent until attached).
\<close>

record exn =
  exn_cls :: exn_class
  exn_msg :: string
  exn_code :: "string option"
  exn_signal :: "retry_signal option"

definition isinstance :: "exn \<Rightarrow> exn_class \<Rightarrow> bool" where
  "isinstance e c = is_subclass (exn_cls e) c"

text \<open>
  The error code that the constructor of each class sets. \<open>DomainError\<close>,
  \<open>InfraError\<close> and \<open>ExternalServiceError\<close> take it as an argument with this default; no
  caller in the program passes another.
\<close>

fun class_error_code :: "exn_class \<Rightarrow> string option" where
  "class_error_code DomainError = Some ''DOMAIN_ERROR''"
| "class_error_code InfraError = Some ''INFRA_ERROR''"
| "class_error_code ExternalServiceError = Some ''EXTERNAL_SERVICE_ERROR''"
| "class_error_code ValidationError = Some ''INVALID_ARGUMENT''"
| "class_error_code LLMTimeoutError = Some ''LLM_TIMEOUT''"
| "class_error_code LLMBadResponseError = Some ''LLM_BAD_RESPONSE''"
| "class_error_code TTSTimeoutError = Some ''TTS_TIMEOUT''"
| "class_error_code TTSBadResponseError = Some ''TTS_BAD_RESPONSE''"
| "class_error_code SessionStoreError = Some ''SESSION_STORE_ERROR''"
| "class_error_code UnauthorizedError = Some ''UNAUTHORIZED''"
| "class_error_code ForbiddenError = Some ''FORBIDDEN''"
| "class_error_code RateLimitExceededError = Some ''RATE_LIMIT_EXCEEDED''"
| "class_error_code (BuiltinError _) = None"

definition mk_exn :: "exn_class \<Rightarrow> string \<Rightarrow> exn" where
  "mk_exn c m = \<lparr>exn_cls = c, exn_msg = m, exn_code = class_error_code c, exn_signal = None\<rparr>"

lemma mk_exn_sel [simp]:
  "exn_cls (mk_exn c m) = c" "exn_msg (mk_exn c m) = m"
  "exn_code (mk_exn c m) = class_error_code c" "exn_signal (mk_exn c m) = None"
  by (simp_all add: mk_exn_def)

text \<open>\<open>getattr(exc, "error_code", default)\<close>.\<close>

definition error_code_or :: "string \<Rightarrow> exn \<Rightarrow> string" where
  "error_code_or d e = (case exn_code e of None \<Rightarrow> d | Some c \<Rightarrow> c)"

text \<open>
  An exception as the program's constructors build it: its \<open>error_code\<close> is the one of its
  class. Attaching a retry signal keeps this.
\<close>

definition wf_exn :: "exn \<Rightarrow> bool" where
  "wf_exn e \<longleftrightarrow> exn_code e = class_error_code (exn_cls e)"

lemma wf_mk_exn [simp]: "wf_exn (mk_exn c m)"
  by (simp add: wf_exn_def)

definition is_domain :: "exn \<Rightarrow> bool" where
  "is_domain e = isinstance e DomainError"

lemma is_domain_iff: "is_domain e \<longleftrightarrow> (\<forall>n. exn_cls e \<noteq> BuiltinError n)"
  by (cases "exn_cls e") (auto simp: is_domain_def isinstance_def)

lemma is_subclass_refl [simp]: "is_subclass c c"
  by (simp add: is_subclass.simps)

lemma is_subclass_trans: "is_subclass a b \<Longrightarrow> is_subclass b c \<Longrightarrow> is_subclass a c"
  by (cases a) auto

end
