(* ===== verification/Messages.thy ===== *)
theory Messages
  imports Errors
begin

text \<open>
  Chat messages (\<open>app/domain/entities/message.py\<close>), the request schemas of
  \<open>app/api/schemas\<close> and the prompt history
  (\<open>app/application/services/history_builder.py\<close>).
\<close>

subsection \<open>Messages\<close>

record chat_message =
  role :: string
  content :: string

text \<open>The validation of \<open>ChatMessage(role=..., content=...)\<close>: the pattern on the role.\<close>

definition valid_role :: "string \<Rightarrow> bool" where
  "valid_role r \<longleftrightarrow> r = ''system'' \<or> r = ''user'' \<or> r = ''assistant''"

definition ChatMessage :: "string \<Rightarrow> string \<Rightarrow> exn + chat_message" where
  "ChatMessage r c = (if valid_role r then Inr \<lparr>role = r, content = c\<rparr>
     else Inl (mk_exn (BuiltinError ''ValidationError'') ''ChatMessage''))"

text \<open>The two literal roles the program itself writes; both pass the validation.\<close>

definition user_msg :: "string \<Rightarrow> chat_message" where
  "user_msg c = \<lparr>role = ''user'', content = c\<rparr>"

definition assistant_msg :: "string \<Rightarrow> chat_message" where
  "assistant_msg c = \<lparr>role = ''assistant'', content = c\<rparr>"

lemma msg_valid: "ChatMessage ''user'' c = Inr (user_msg c)"
  "ChatMessage ''assistant'' c = Inr (assistant_msg c)"
  by (simp_all add: ChatMessage_def user_msg_def assistant_msg_def valid_role_def)

lemma msg_sel [simp]:
  "role (user_msg c) = ''user''" "content (user_msg c) = c"
  "role (assistant_msg c) = ''assistant''" "content (assistant_msg c) = c"
  by (simp_all add: user_msg_def assistant_msg_def)

lemma msg_inj [simp]: "user_msg a = user_msg b \<longleftrightarrow> a = b"
  "assistant_msg a = assistant_msg b \<longleftrightarrow> a = b" "user_msg a \<noteq> assistant_msg b"
  "assistant_msg b \<noteq> user_msg a"
  by (simp_all add: user_msg_def assistant_msg_def)

subsection \<open>The prompt history\<close>

definition build_prompt_history :: "chat_message list \<Rightarrow> string \<Rightarrow> int \<Rightarrow> chat_message list" where
  "build_prompt_history history user_message max_turns =
     (let max_messages = max_turns * 2;
          recent = (if max_messages > 0 then py_neg_slice max_messages history else [])
      in recent @ [user_msg user_message])"

lemma build_prompt_history_eq:
  "build_prompt_history h m t = drop (length h - nat (t * 2)) h @ [user_msg m]"
  by (auto simp: build_prompt_history_def py_neg_slice_pos)

lemma last_build_prompt [simp]: "last (build_prompt_history h m t) = user_msg m"
  by (simp add: build_prompt_history_eq)

subsection \<open>Request bodies\<close>

record chat_request =
  req_session_id :: string
  req_message :: string
  req_response_mode :: string
  req_voice_id :: "string option"
  req_speaker :: "string option"
  req_language :: "string option"
  req_reference_audio_url :: "string option"

text \<open>The field constraints of \<open>ChatRequest\<close> and \<open>ChatStreamRequest\<close>.\<close>

definition valid_chat_request :: "chat_request \<Rightarrow> bool" where
  "valid_chat_request r \<longleftrightarrow>
     1 \<le> length (req_session_id r) \<and> length (req_session_id r) \<le> 128 \<and>
     1 \<le> length (req_message r) \<and>
     (req_response_mode r = ''text'' \<or> req_response_mode r = ''text_audio'')"

record stream_request =
  sreq_session_id :: string
  sreq_message :: string
  sreq_response_mode :: string

definition valid_stream_request :: "stream_request \<Rightarrow> bool" where
  "valid_stream_request r \<longleftrightarrow>
     1 \<le> length (sreq_session_id r) \<and> length (sreq_session_id r) \<le> 128 \<and>
     1 \<le> length (sreq_message r) \<and> sreq_response_mode r = ''text''"

end
