(* ===== verification/Observability.thy ===== *)
theory Observability
  imports Messages
begin

text \<open>
  The runtime the asynchronous code runs on, and what it reports: metrics
  (\<open>app/common/metrics/metrics.py\<close>) and structured logs
  (\<open>app/common/logging/logger.py\<close>).

  \<open>'n io\<close> is the part of the world a provider call acts on: the monotonic clock, the
  random draws and the scheduling delays still to come, the state \<open>net\<close> of the remote
  servers (of any type \<open>'n\<close>), and the metrics and logs emitted so far, oldest first.
\<close>

subsection \<open>Values of log fields\<close>

datatype fval = VStr string | VInt int | VReal real | VNone

definition opt_str :: "string option \<Rightarrow> fval" where
  "opt_str x = (case x of None \<Rightarrow> VNone | Some s \<Rightarrow> VStr s)"

type_synonym fields = "(string \<times> fval) list"

text \<open>\<open>round(x, 2)\<close>: to the nearest hundredth, ties to the even one.\<close>

definition py_round2 :: "real \<Rightarrow> real" where
  "py_round2 x = (let y = x * 100; n = \<lfloor>y\<rfloor>; r = y - of_int n
     in of_int (if r < 1/2 \<or> (r = 1/2 \<and> even n) then n else n + 1) / 100)"

record log_entry =
  log_level :: string
  log_message :: string
  log_fields :: fields
  log_exc_info :: bool

datatype metric =
    Inc string "string list"
  | Observe string "string list" real
  | GaugeInc string
  | GaugeDec string

record 'n io =
  clock :: real
  draws :: "real list"
  lags :: "real list"
  net :: 'n
  metrics :: "metric list"
  logs :: "log_entry list"

subsection \<open>Logging\<close>

definition SENSITIVE_KEYS :: "string list" where
  "SENSITIVE_KEYS = [''user_text'', ''message'', ''prompt'', ''token'', ''audio'',
     ''audio_base64'', ''authorization'', ''auth_header'']"

fun sanitize_fields :: "fields \<Rightarrow> fields" where
  "sanitize_fields [] = []"
| "sanitize_fields ((key, v) # rest) =
     (if key \<in> set SENSITIVE_KEYS then sanitize_fields rest else (key, v) # sanitize_fields rest)"

lemma sanitize_fields_filter: "sanitize_fields fs = filter (\<lambda>(k, v). k \<notin> set SENSITIVE_KEYS) fs"
  by (induction fs rule: sanitize_fields.induct) auto

text \<open>
  \<open>log_event\<close> takes \<open>exc_info\<close> out of the keyword fields, sanitizes the rest and hands the
  record to the logger. Here the record is appended to \<open>logs\<close>.
\<close>

definition log_event_exc :: "string \<Rightarrow> string \<Rightarrow> fields \<Rightarrow> bool \<Rightarrow> 'n io \<Rightarrow> 'n io" where
  "log_event_exc level message fs exc w = w\<lparr>logs := logs w @
     [\<lparr>log_level = level, log_message = message, log_fields = sanitize_fields fs,
       log_exc_info = exc\<rparr>]\<rparr>"

abbreviation log_event :: "string \<Rightarrow> string \<Rightarrow> fields \<Rightarrow> 'n io \<Rightarrow> 'n io" where
  "log_event level message fs \<equiv> log_event_exc level message fs False"

text \<open>The keys of an event that \<open>JsonFormatter.format\<close> copies from the event fields.\<close>

definition FORMATTED_KEYS :: "string list" where
  "FORMATTED_KEYS = [''tenant_id'', ''session_id'', ''provider'', ''path'', ''latency_ms'',
     ''result'', ''status'', ''retry_attempt'', ''retry_delay_ms'', ''retry_reason'',
     ''stream_status'', ''disconnect_reason'', ''error_code'', ''error_type'',
     ''error_message'', ''status_code'']"

definition field_get :: "fields \<Rightarrow> string \<Rightarrow> fval" where
  "field_get fs k = (case map_of fs k of None \<Rightarrow> VNone | Some v \<Rightarrow> v)"

text \<open>
  The payload of \<open>JsonFormatter.format\<close>, before \<open>json.dumps\<close>: the time stamp, the logger's
  name and the formatted exception are the framework's, so they are arguments.
\<close>

definition format_payload ::
  "string \<Rightarrow> string \<Rightarrow> string \<Rightarrow> string \<Rightarrow> string \<Rightarrow> log_entry \<Rightarrow> fields" where
  "format_payload timestamp logger request_id trace_id exc_text e =
     [(''timestamp'', VStr timestamp), (''level'', VStr (log_level e)), (''logger'', VStr logger),
      (''message'', VStr (log_message e)), (''request_id'', VStr request_id),
      (''trace_id'', VStr trace_id)] @
     map (\<lambda>k. (k, field_get (log_fields e) k)) FORMATTED_KEYS @
     (if log_exc_info e then [(''exception'', VStr exc_text)] else [])"

text \<open>
  \<open>configure_logging\<close>: the level of the root logger and its handlers with their formatters. An
  unknown level name makes \<open>setLevel\<close> raise before anything is changed.
\<close>

datatype formatter = JsonFormatter | OtherFormatter string

record root_logger =
  rl_level :: int
  rl_handlers :: "formatter option list"

definition level_number :: "string \<Rightarrow> int option" where
  "level_number = map_of [(''CRITICAL'', 50), (''FATAL'', 50), (''ERROR'', 40), (''WARNING'', 30), (''WARN'', 30),
     (''INFO'', 20), (''DEBUG'', 10), (''NOTSET'', 0)]"

definition unknown_level :: exn where
  "unknown_level = mk_exn (BuiltinError ''ValueError'') ''Unknown level''"

definition configure_logging :: "string \<Rightarrow> root_logger \<Rightarrow> (exn + unit) \<times> root_logger" where
  "configure_logging level lg = (case level_number (py_upper level) of
       None \<Rightarrow> (Inl unknown_level, lg)
     | Some n \<Rightarrow> (let lg1 = lg\<lparr>rl_level := n\<rparr> in
         if rl_handlers lg1 \<noteq> [] then (Inr (), lg1\<lparr>rl_handlers := map (\<lambda>_. Some JsonFormatter) (rl_handlers lg1)\<rparr>)
         else (Inr (), lg1\<lparr>rl_handlers := [Some JsonFormatter]\<rparr>)))"

text \<open>The lines that the root logger writes for a record, one for each handler.\<close>

definition written_lines :: "root_logger \<Rightarrow> log_entry \<Rightarrow> formatter option list" where
  "written_lines lg e = (case level_number (log_level e) of
       None \<Rightarrow> [] | Some n \<Rightarrow> if rl_level lg \<le> n then rl_handlers lg else [])"

lemma configure_logging_Inr:
  assumes "configure_logging level lg = (Inr (), lg1)"
  obtains n where "level_number (py_upper level) = Some n" "rl_level lg1 = n"
    "rl_handlers lg1 = replicate (max 1 (length (rl_handlers lg))) (Some JsonFormatter)"
proof -
  have "map (\<lambda>_. Some JsonFormatter) hs = replicate (max 1 (length hs)) (Some JsonFormatter)" if "hs \<noteq> []" for hs :: "formatter option list"
    using that by (simp add: map_replicate_const max_def Suc_le_eq)
  then show thesis using assms that by (auto simp: configure_logging_def Let_def split: option.splits if_splits)
qed

text \<open>Configuring again, as a second application in the process does, adds no second line.\<close>

lemma configure_logging_again:
  assumes "configure_logging level lg = (Inr (), lg1)" "configure_logging level2 lg1 = (Inr (), lg2)"
  shows "rl_handlers lg2 = rl_handlers lg1"
  using configure_logging_Inr [OF assms(1)] configure_logging_Inr [OF assms(2)] by (metis length_replicate max.left_idem)

subsection \<open>Metrics\<close>

definition emit :: "metric list \<Rightarrow> 'n io \<Rightarrow> 'n io" where
  "emit ms w = w\<lparr>metrics := metrics w @ ms\<rparr>"

definition observe_chat_request :: "string \<Rightarrow> string \<Rightarrow> real \<Rightarrow> 'n io \<Rightarrow> 'n io" where
  "observe_chat_request mode result d = emit [Inc ''chat_request_total'' [mode, result],
     Observe ''chat_request_latency_seconds'' [mode, result] d]"

definition observe_provider_latency :: "string \<Rightarrow> string \<Rightarrow> string \<Rightarrow> real \<Rightarrow> 'n io \<Rightarrow> 'n io" where
  "observe_provider_latency provider operation result d =
     emit [Observe ''provider_latency_seconds'' [provider, operation, result] d]"

definition observe_readiness_probe :: "string \<Rightarrow> string \<Rightarrow> real \<Rightarrow> 'n io \<Rightarrow> 'n io" where
  "observe_readiness_probe dependency result d =
     emit [Observe ''readiness_probe_latency_seconds'' [dependency, result] d]"

definition stream_connection_opened :: "'n io \<Rightarrow> 'n io" where
  "stream_connection_opened = emit [GaugeInc ''chat_stream_active_connections'']"

definition stream_connection_closed :: "'n io \<Rightarrow> 'n io" where
  "stream_connection_closed = emit [GaugeDec ''chat_stream_active_connections'']"

definition observe_stream_request :: "string \<Rightarrow> real \<Rightarrow> 'n io \<Rightarrow> 'n io" where
  "observe_stream_request result d = emit [Inc ''chat_stream_request_total'' [result],
     Observe ''chat_stream_duration_seconds'' [result] d]"

definition observe_stream_disconnect :: "string \<Rightarrow> 'n io \<Rightarrow> 'n io" where
  "observe_stream_disconnect reason = emit [Inc ''chat_stream_disconnect_total'' [reason]]"

definition observe_stream_error :: "string \<Rightarrow> 'n io \<Rightarrow> 'n io" where
  "observe_stream_error error_code = emit [Inc ''chat_stream_error_total'' [error_code]]"

definition observe_auth_result :: "string \<Rightarrow> 'n io \<Rightarrow> 'n io" where
  "observe_auth_result result = emit [Inc ''auth_request_total'' [result]]"

definition observe_rate_limit :: "string \<Rightarrow> string \<Rightarrow> 'n io \<Rightarrow> 'n io" where
  "observe_rate_limit tenant result = emit [Inc ''rate_limit_total'' [tenant, result]]"

text \<open>\<open>metrics_response\<close>: the media type, a constant of the library, and the text it makes of the metrics.\<close>

definition metrics_response :: "string \<Rightarrow> (metric list \<Rightarrow> string) \<Rightarrow> 'n io \<Rightarrow> string \<times> string" where
  "metrics_response content_type_latest generate_latest w = (content_type_latest, generate_latest (metrics w))"

lemmas observe_defs = observe_chat_request_def observe_provider_latency_def
  observe_readiness_probe_def stream_connection_opened_def stream_connection_closed_def
  observe_stream_request_def observe_stream_disconnect_def observe_stream_error_def
  observe_auth_result_def observe_rate_limit_def

text \<open>The value of a gauge after a list of metric operations.\<close>

fun gauge :: "string \<Rightarrow> metric list \<Rightarrow> int" where
  "gauge g [] = 0"
| "gauge g (GaugeInc h # ms) = (if h = g then 1 else 0) + gauge g ms"
| "gauge g (GaugeDec h # ms) = (if h = g then - 1 else 0) + gauge g ms"
| "gauge g (_ # ms) = gauge g ms"

text \<open>The value of a labelled counter after a list of metric operations.\<close>

fun counter :: "string \<Rightarrow> string list \<Rightarrow> metric list \<Rightarrow> nat" where
  "counter c ls [] = 0"
| "counter c ls (Inc d ks # ms) = (if d = c \<and> ks = ls then 1 else 0) + counter c ls ms"
| "counter c ls (_ # ms) = counter c ls ms"

lemma gauge_append [simp]: "gauge g (ms @ ns) = gauge g ms + gauge g ns"
  by (induction g ms rule: gauge.induct) auto

lemma counter_append [simp]: "counter c ls (ms @ ns) = counter c ls ms + counter c ls ns"
  by (induction c ls ms rule: counter.induct) auto

lemma emit_frame [frame_simps]:
  "clock (emit ms w) = clock w" "draws (emit ms w) = draws w" "lags (emit ms w) = lags w"
  "net (emit ms w) = net w" "logs (emit ms w) = logs w" "metrics (emit ms w) = metrics w @ ms"
  by (simp_all add: emit_def)

lemma log_event_frame [frame_simps]:
  "clock (log_event_exc l m fs x w) = clock w" "draws (log_event_exc l m fs x w) = draws w"
  "lags (log_event_exc l m fs x w) = lags w" "net (log_event_exc l m fs x w) = net w"
  "metrics (log_event_exc l m fs x w) = metrics w"
  by (simp_all add: log_event_exc_def)

subsection \<open>Time and randomness\<close>

text \<open>
  \<open>asyncio.sleep(d)\<close>: the clock advances by \<open>d\<close>, where it is positive, plus the delay
  with which the event loop resumes the task.
\<close>

definition asleep :: "real \<Rightarrow> 'n io \<Rightarrow> 'n io" where
  "asleep d w = (case lags w of
       [] \<Rightarrow> w\<lparr>clock := clock w + max 0 d\<rparr>
     | l # ls \<Rightarrow> w\<lparr>clock := clock w + max 0 d + max 0 l, lags := ls\<rparr>)"

text \<open>\<open>random.uniform(a, b)\<close>, which is \<open>a + (b - a) * random()\<close>.\<close>

definition random_uniform :: "real \<Rightarrow> real \<Rightarrow> 'n io \<Rightarrow> real \<times> 'n io" where
  "random_uniform a b w = (case draws w of
       [] \<Rightarrow> (a, w)
     | u # us \<Rightarrow> (a + (b - a) * u, w\<lparr>draws := us\<rparr>))"

text \<open>The documented range of \<open>random.random()\<close>.\<close>

definition draws_ok :: "'n io \<Rightarrow> bool" where
  "draws_ok w \<longleftrightarrow> (\<forall>u \<in> set (draws w). 0 \<le> u \<and> u < 1)"

lemma asleep_frame [frame_simps]:
  "draws (asleep d w) = draws w" "net (asleep d w) = net w"
  "metrics (asleep d w) = metrics w" "logs (asleep d w) = logs w"
  by (simp_all add: asleep_def split: list.splits)

lemma asleep_clock: "clock w + max 0 d \<le> clock (asleep d w)"
  by (simp add: asleep_def split: list.splits)

lemma asleep_no_lag: "lags w = [] \<Longrightarrow> asleep d w = w\<lparr>clock := clock w + max 0 d\<rparr>"
  by (simp add: asleep_def)

lemma random_uniform_frame [frame_simps]:
  "clock (snd (random_uniform a b w)) = clock w" "lags (snd (random_uniform a b w)) = lags w"
  "net (snd (random_uniform a b w)) = net w" "metrics (snd (random_uniform a b w)) = metrics w"
  "logs (snd (random_uniform a b w)) = logs w"
  by (simp_all add: random_uniform_def split: list.splits)

lemma random_uniform_bounds:
  assumes "draws_ok w" "a \<le> b"
  shows "a \<le> fst (random_uniform a b w)" "fst (random_uniform a b w) \<le> b"
proof -
  have "a + (b - a) * u \<le> b" "a \<le> a + (b - a) * u" if "0 \<le> u" "u < 1" for u
    using mult_left_le [of u "b - a"] that \<open>a \<le> b\<close> by simp_all
  with assms show "a \<le> fst (random_uniform a b w)" "fst (random_uniform a b w) \<le> b"
    by (auto simp: random_uniform_def draws_ok_def split: list.splits)
qed

lemma random_uniform_draws_ok: "draws_ok w \<Longrightarrow> draws_ok (snd (random_uniform a b w))"
  by (auto simp: random_uniform_def draws_ok_def split: list.splits)

lemma asleep_draws_ok [frame_simps]: "draws_ok (asleep d w) = draws_ok w"
  "draws_ok (emit ms w) = draws_ok w" "draws_ok (log_event_exc l m fs x w) = draws_ok w"
  by (simp_all add: draws_ok_def frame_simps)

end
