(* ===== verification/Retry.thy ===== *)
theory Retry
  imports Observability
begin

text \<open>
  Retry with exponential backoff (\<open>app/common/utils/retry.py\<close>): the taxonomy that says
  which errors may be retried, one attempt of the loop as \<open>retry_attempt\<close>, and the loop.
  The retried operation is a function on \<^typ>\<open>'n io\<close>, so it may read the clock, move the
  remote servers' state and emit metrics and logs.
\<close>

subsection \<open>Policy and taxonomy\<close>

record retry_policy =
  max_attempts :: int
  base_delay_sec :: real
  max_delay_sec :: real
  jitter_enabled :: bool
  jitter_ratio :: real
  total_timeout_sec :: real

definition attach_retry_signal :: "exn \<Rightarrow> retry_signal \<Rightarrow> exn" where
  "attach_retry_signal exc sig = exc\<lparr>exn_signal := Some sig\<rparr>"

definition extract_retry_signal :: "exn \<Rightarrow> retry_signal option" where
  "extract_retry_signal exc = exn_signal exc"

lemma attach_retry_signal_sel [simp]:
  "exn_cls (attach_retry_signal e s) = exn_cls e" "exn_msg (attach_retry_signal e s) = exn_msg e"
  "exn_code (attach_retry_signal e s) = exn_code e"
  "exn_signal (attach_retry_signal e s) = Some s"
  "wf_exn (attach_retry_signal e s) = wf_exn e"
  by (simp_all add: attach_retry_signal_def wf_exn_def)

definition should_retry_by_taxonomy :: "exn \<Rightarrow> bool" where
  "should_retry_by_taxonomy exc = (case extract_retry_signal exc of
       None \<Rightarrow> False
     | Some s \<Rightarrow> (case sig_retryable_override s of
         Some b \<Rightarrow> b
       | None \<Rightarrow>
           if sig_http_status s = Some 429 then True
           else if sig_http_status s \<in> {Some 500, Some 502, Some 503, Some 504} then sig_idempotent s
           else if (case sig_http_status s of None \<Rightarrow> False | Some st \<Rightarrow> 400 \<le> st \<and> st < 500) then False
           else if sig_timeout_type s = Some ConnectTimeout then True
           else if sig_timeout_type s \<in> {Some ReadTimeout, Some WriteTimeout, Some PoolTimeout, Some TotalTimeout}
             then sig_idempotent s
           else if sig_exception_type s \<in> {''connect_error'', ''network_error'', ''connection_reset''}
             then sig_idempotent s
           else if sig_exception_type s \<in> {''invalid_json'', ''invalid_body'', ''semantic_error''} then False
           else if sig_error_code s \<in> {''LLM_TIMEOUT'', ''TTS_TIMEOUT''} then sig_idempotent s
           else False))"

subsection \<open>The loop\<close>

type_synonym ('n, 'a) action = "'n io \<Rightarrow> (exn + 'a) \<times> 'n io"
type_synonym 'n retry_hook = "nat \<Rightarrow> exn \<Rightarrow> real \<Rightarrow> 'n io \<Rightarrow> 'n io"

text \<open>The capped exponential delay, before jitter.\<close>

definition backoff :: "retry_policy \<Rightarrow> nat \<Rightarrow> real" where
  "backoff policy exponent = min (max_delay_sec policy) (base_delay_sec policy * 2 ^ exponent)"

text \<open>
  The delay before the next attempt. \<open>base * 2**exponent\<close> multiplies a float by an int;
  Python raises \<open>OverflowError\<close> when the int does not fit a float, from \<open>2**1024\<close> on.
\<close>

definition retry_delay :: "retry_policy \<Rightarrow> nat \<Rightarrow> ('n, real) action" where
  "retry_delay policy attempt w =
     (let exponent = attempt - 1 in
      if 1024 \<le> exponent
      then (Inl (mk_exn (BuiltinError ''OverflowError'') ''int too large to convert to float''), w)
      else let delay = backoff policy exponent in
        if jitter_enabled policy
        then let jitter_upper = max 0 (delay * max 0 (jitter_ratio policy));
                 drawn = random_uniform 0 jitter_upper w
             in (Inr (delay + fst drawn), snd drawn)
        else (Inr delay, w))"

definition notify :: "'n retry_hook option \<Rightarrow> 'n retry_hook" where
  "notify on_retry attempt exc delay w =
     (case on_retry of None \<Rightarrow> w | Some f \<Rightarrow> f attempt exc delay w)"

datatype ('n, 'a) attempt_outcome = Finished "exn + 'a" "'n io" | Again "'n io"

text \<open>One pass of the \<open>for\<close> loop: \<open>Finished\<close> is \<open>return\<close> or \<open>raise\<close>.\<close>

definition retry_attempt ::
  "('n, 'a) action \<Rightarrow> retry_policy \<Rightarrow> (exn \<Rightarrow> bool) \<Rightarrow> 'n retry_hook option \<Rightarrow> real \<Rightarrow> nat \<Rightarrow> nat \<Rightarrow>
     'n io \<Rightarrow> ('n, 'a) attempt_outcome" where
  "retry_attempt operation policy should_retry on_retry started m attempt w =
     (case operation w of
        (Inr v, w1) \<Rightarrow> Finished (Inr v) w1
      | (Inl exc, w1) \<Rightarrow>
          if attempt \<ge> m \<or> \<not> should_retry exc then Finished (Inl exc) w1
          else (case retry_delay policy attempt w1 of
              (Inl overflow, w2) \<Rightarrow> Finished (Inl overflow) w2
            | (Inr delay, w2) \<Rightarrow>
                let elapsed = clock w2 - started in
                if elapsed + delay > total_timeout_sec policy then Finished (Inl exc) w2
                else Again (asleep delay (notify on_retry attempt exc delay w2))))"

lemma retry_attempt_Again_lt:
  "retry_attempt op p sr cb s m k w = Again w' \<Longrightarrow> k < m"
  by (auto simp: retry_attempt_def Let_def split: prod.splits sum.splits if_splits)

function retry_loop ::
  "('n, 'a) action \<Rightarrow> retry_policy \<Rightarrow> (exn \<Rightarrow> bool) \<Rightarrow> 'n retry_hook option \<Rightarrow> real \<Rightarrow> nat \<Rightarrow> nat \<Rightarrow>
     ('n, 'a) action" where
  "retry_loop operation policy should_retry on_retry started m attempt w =
     (case retry_attempt operation policy should_retry on_retry started m attempt w of
        Finished r w' \<Rightarrow> (r, w')
      | Again w' \<Rightarrow> retry_loop operation policy should_retry on_retry started m (Suc attempt) w')"
  by pat_completeness auto
termination
proof (relation "measure (\<lambda>(op, p, sr, cb, s, m, k, w). m - k)", goal_cases)
  case (2 op p sr cb s m k w w')
  then show ?case using retry_attempt_Again_lt [OF 2] by simp
qed simp

declare retry_loop.simps [simp del]

definition run_with_retry ::
  "('n, 'a) action \<Rightarrow> retry_policy \<Rightarrow> (exn \<Rightarrow> bool) \<Rightarrow> 'n retry_hook option \<Rightarrow> ('n, 'a) action" where
  "run_with_retry operation policy should_retry on_retry w =
     (let started = clock w; m = nat (max 1 (max_attempts policy))
      in retry_loop operation policy should_retry on_retry started m 1 w)"

subsection \<open>One attempt\<close>

lemma retry_attempt_AgainE:
  assumes "retry_attempt op p sr cb s m k w = Again w'"
  obtains e w1 d w2 where "op w = (Inl e, w1)" "k < m" "sr e"
    "retry_delay p k w1 = (Inr d, w2)" "clock w2 - s + d \<le> total_timeout_sec p"
    "w' = asleep d (notify cb k e d w2)"
  using assms
  by (auto simp: retry_attempt_def Let_def not_le split: prod.splits sum.splits if_splits)

lemma retry_attempt_FinishedE:
  assumes "retry_attempt op p sr cb s m k w = Finished r w'"
  obtains (returned) v where "op w = (Inr v, w')" "r = Inr v"
  | (raised) e where "op w = (Inl e, w')" "r = Inl e" "k \<ge> m \<or> \<not> sr e"
  | (overflow) e w1 o' where "op w = (Inl e, w1)" "sr e" "k < m"
      "retry_delay p k w1 = (Inl o', w')" "r = Inl o'"
  | (budget) e w1 d where "op w = (Inl e, w1)" "sr e" "k < m"
      "retry_delay p k w1 = (Inr d, w')" "clock w' - s + d > total_timeout_sec p" "r = Inl e"
  using assms
  by (fastforce simp: retry_attempt_def Let_def split: prod.splits sum.splits if_splits)

lemma retry_delay_frame [frame_simps]:
  "clock (snd (retry_delay p k w)) = clock w" "lags (snd (retry_delay p k w)) = lags w"
  "net (snd (retry_delay p k w)) = net w" "metrics (snd (retry_delay p k w)) = metrics w"
  "logs (snd (retry_delay p k w)) = logs w"
  by (simp_all add: retry_delay_def Let_def frame_simps)

text \<open>The same facts in the shape the case rules produce.\<close>

lemma retry_delay_frameD:
  assumes "retry_delay p k w = (r, w')"
  shows "clock w' = clock w" "lags w' = lags w" "net w' = net w" "metrics w' = metrics w"
    "logs w' = logs w"
  using retry_delay_frame [of p k w] assms by simp_all

lemma retry_delay_error: "retry_delay p k w = (Inl e, w') \<Longrightarrow>
  e = mk_exn (BuiltinError ''OverflowError'') ''int too large to convert to float'' \<and> 1024 < k"
  by (auto simp: retry_delay_def Let_def split: if_splits prod.splits)

lemma retry_delay_draws_ok: "draws_ok w \<Longrightarrow> retry_delay p k w = (r, w') \<Longrightarrow> draws_ok w'"
  by (auto simp: retry_delay_def Let_def random_uniform_draws_ok split: if_splits)

text \<open>Without jitter the delay is the capped exponential, exactly.\<close>

lemma retry_delay_no_jitter:
  "\<not> jitter_enabled p \<Longrightarrow> k \<le> 1024 \<Longrightarrow> retry_delay p k w = (Inr (backoff p (k - 1)), w)"
  by (simp add: retry_delay_def Let_def)

lemma retry_delay_Inr:
  assumes "retry_delay p k w = (Inr d, w')"
  obtains u where "d = backoff p (k - 1) + u"
    "u = 0 \<or> u = fst (random_uniform 0 (max 0 (backoff p (k - 1) * max 0 (jitter_ratio p))) w)"
  using assms by (auto simp: retry_delay_def Let_def split: if_splits)

lemma retry_delay_jitter:
  assumes "retry_delay p k w = (Inr d, w')" and "draws_ok w"
  shows "backoff p (k - 1) \<le> d"
    and "d \<le> backoff p (k - 1) + max 0 (backoff p (k - 1) * max 0 (jitter_ratio p))"
  using random_uniform_bounds [OF \<open>draws_ok w\<close>, of 0 "max 0 (backoff p (k - 1) * max 0 (jitter_ratio p))"]
  by (auto intro: retry_delay_Inr [OF assms(1)])

lemma backoff_bounds:
  "backoff p e \<le> max_delay_sec p"
  "0 \<le> base_delay_sec p \<Longrightarrow> 0 \<le> max_delay_sec p \<Longrightarrow> 0 \<le> backoff p e"
  by (simp_all add: backoff_def)

lemma backoff_mono:
  assumes "0 \<le> base_delay_sec p" "e \<le> f"
  shows "backoff p e \<le> backoff p f"
  using assms by (simp add: backoff_def mult_left_mono power_increasing min.coboundedI2)

lemma retry_delay_upper:
  assumes "retry_delay p k w = (Inr d, w')" and "draws_ok w" and "0 \<le> max_delay_sec p"
  shows "d \<le> max_delay_sec p * (1 + max 0 (jitter_ratio p))"
proof -
  let ?q = "max 0 (jitter_ratio p)"
  have "backoff p (k - 1) * ?q \<le> max_delay_sec p * ?q"
    by (intro mult_right_mono backoff_bounds) simp
  moreover have "0 \<le> max_delay_sec p * ?q" using assms(3) by simp
  ultimately have "max 0 (backoff p (k - 1) * ?q) \<le> max_delay_sec p * ?q" by simp
  then have "d \<le> max_delay_sec p + max_delay_sec p * ?q"
    using retry_delay_jitter(2) [OF assms(1,2)] backoff_bounds(1) [of p "k - 1"] by linarith
  then show ?thesis by (simp add: distrib_left)
qed

subsection \<open>The loop\<close>

lemma notify_Some [simp]: "notify (Some f) k e d w = f k e d w"
  by (simp add: notify_def)

lemma notify_None [simp]: "notify None k e d w = w"
  by (simp add: notify_def)

text \<open>
  Induction over the passes of the loop: a property of the final result follows from the
  passes that end the loop and from the passes that go round.
\<close>

lemma retry_loop_induct [consumes 1, case_names finished again]:
  assumes "retry_loop op p sr cb s m k w = (r, w')"
    and "\<And>k w r w'. retry_attempt op p sr cb s m k w = Finished r w' \<Longrightarrow> P k w r w'"
    and "\<And>k w w1 r w'. retry_attempt op p sr cb s m k w = Again w1 \<Longrightarrow>
           retry_loop op p sr cb s m (Suc k) w1 = (r, w') \<Longrightarrow> P (Suc k) w1 r w' \<Longrightarrow> P k w r w'"
  shows "P k w r w'"
  using assms(1)
proof (induction "m - k" arbitrary: k w rule: less_induct)
  case less
  show ?case
  proof (cases "retry_attempt op p sr cb s m k w")
    case (Finished r1 w1)
    with less.prems have "r1 = r" "w1 = w'" by (simp_all add: retry_loop.simps [of op p sr cb s m k w])
    with Finished show ?thesis by (simp add: assms(2))
  next
    case (Again w1)
    with less.prems have loop: "retry_loop op p sr cb s m (Suc k) w1 = (r, w')"
      by (simp add: retry_loop.simps [of op p sr cb s m k w])
    have "m - Suc k < m - k" using retry_attempt_Again_lt [OF Again] by simp
    from assms(3) [OF Again loop less.hyps [OF this loop]] show ?thesis .
  qed
qed

text \<open>
  What the loop returns or raises comes from the operation, unless the exponential
  overflowed, which needs more than 1024 attempts.
\<close>

lemma retry_loop_result:
  assumes "retry_loop op p sr cb s m k w = (r, w')"
  shows "(\<exists>w0 w1. op w0 = (r, w1)) \<or>
    (m > 1024 \<and> r = Inl (mk_exn (BuiltinError ''OverflowError'') ''int too large to convert to float''))"
  using assms
proof (induction rule: retry_loop_induct)
  case (finished k w r w')
  then show ?case
    by (cases rule: retry_attempt_FinishedE) (use retry_delay_error in fastforce)+
qed

text \<open>A property of the world that the operation, the hook, the draw and the sleep keep.\<close>

lemma retry_loop_keeps:
  assumes "retry_loop op p sr cb s m k w = (r, w')" and "Q w"
    and "\<And>w r w'. Q w \<Longrightarrow> op w = (r, w') \<Longrightarrow> Q w'"
    and "\<And>k w r w'. Q w \<Longrightarrow> retry_delay p k w = (r, w') \<Longrightarrow> Q w'"
    and "\<And>k e d w. Q w \<Longrightarrow> Q (asleep d (notify cb k e d w))"
  shows "Q w'"
  using assms(1,2)
proof (induction rule: retry_loop_induct)
  case (finished k w r w')
  then show ?case
    by (cases rule: retry_attempt_FinishedE) (use assms(3,4) in blast)+
next
  case (again k w w1 r w')
  from again.hyps(1) \<open>Q w\<close> have "Q w1"
    by (cases rule: retry_attempt_AgainE) (use assms(3,4,5) in blast)
  then show ?case by (rule again.IH)
qed

text \<open>An error that may not be retried ends the run after one call.\<close>

lemma run_with_retry_no_retry:
  "op w = (Inl e, w1) \<Longrightarrow> \<not> sr e \<Longrightarrow> run_with_retry op p sr cb w = (Inl e, w1)"
  by (simp add: run_with_retry_def retry_loop.simps retry_attempt_def)

lemma run_with_retry_success:
  "op w = (Inr v, w1) \<Longrightarrow> run_with_retry op p sr cb w = (Inr v, w1)"
  by (simp add: run_with_retry_def retry_loop.simps retry_attempt_def)

lemma run_with_retry_result:
  assumes "run_with_retry op p sr cb w = (r, w')"
  shows "(\<exists>w0 w1. op w0 = (r, w1)) \<or>
    (max_attempts p > 1024 \<and> r = Inl (mk_exn (BuiltinError ''OverflowError'') ''int too large to convert to float''))"
  using retry_loop_result [OF assms [unfolded run_with_retry_def Let_def]] by auto

subsection \<open>How long a run may take\<close>

text \<open>
  The budget bounds when an attempt may start, not when it ends: with calls that take at
  most \<open>c\<close> and an event loop without delays, a run ends at most \<open>c\<close> after the budget.
\<close>

lemma retry_loop_duration:
  assumes "retry_loop op p sr cb s m k w = (r, w')"
    and "draws_ok w" "lags w = []" "clock w \<le> s + max 0 (total_timeout_sec p)"
    and op: "\<And>w r w'. op w = (r, w') \<Longrightarrow> clock w' \<le> clock w + c \<and> lags w' = lags w \<and> draws w' = draws w"
    and cb: "\<And>k e d w. clock (notify cb k e d w) = clock w \<and> lags (notify cb k e d w) = lags w
      \<and> draws (notify cb k e d w) = draws w"
    and p: "0 \<le> base_delay_sec p" "0 \<le> max_delay_sec p"
  shows "clock w' \<le> s + max 0 (total_timeout_sec p) + c"
  using assms(1-4)
proof (induction rule: retry_loop_induct)
  case (finished k w r w')
  from finished.hyps show ?case
    by (cases rule: retry_attempt_FinishedE)
      (use finished.prems op retry_delay_frameD(1) in fastforce)+
next
  case (again k w w1 r w')
  from again.hyps(1) obtain e w2 d w3 where st: "op w = (Inl e, w2)" "retry_delay p k w2 = (Inr d, w3)"
    "clock w3 - s + d \<le> total_timeout_sec p" "w1 = asleep d (notify cb k e d w3)"
    by (cases rule: retry_attempt_AgainE)
  have ok: "draws_ok w2" "lags w3 = []"
    using op [OF st(1)] again.prems retry_delay_frameD(2) [OF st(2)] by (simp_all add: draws_ok_def)
  have "0 \<le> d"
    using retry_delay_jitter(1) [OF st(2) ok(1)] backoff_bounds(2) [OF p, of "k - 1"] by simp
  then have "clock w1 \<le> s + max 0 (total_timeout_sec p)"
    using st(3) ok(2) cb by (simp add: st(4) asleep_no_lag)
  moreover have "draws_ok w1" "lags w1 = []"
    using retry_delay_draws_ok [OF ok(1) st(2)] ok(2) cb
    by (simp_all add: st(4) draws_ok_def asleep_no_lag)
  ultimately show ?case using again.IH by blast
qed

text \<open>
  Transient failures are masked: an operation whose first \<open>j\<close> calls fail with retryable
  errors and whose next call succeeds returns that success, when there are attempts left and
  the budget covers the failed calls and the delays.
\<close>

lemma retry_loop_masks:
  assumes op: "\<And>w. fst (op w) = out (net w) \<and> net (snd (op w)) = nxt (net w)
      \<and> clock (snd (op w)) \<le> clock w + c \<and> lags (snd (op w)) = lags w"
    and cb: "\<And>k e d w. clock (notify cb k e d w) = clock w \<and> lags (notify cb k e d w) = lags w
      \<and> net (notify cb k e d w) = net w"
    and p: "0 \<le> base_delay_sec p" "0 \<le> max_delay_sec p" "\<not> jitter_enabled p" and c: "0 \<le> c"
  shows "lags w = [] \<Longrightarrow> k + j \<le> m \<Longrightarrow> k + j \<le> 1024 \<Longrightarrow>
    clock w - s + of_nat j * (c + max_delay_sec p) \<le> total_timeout_sec p \<Longrightarrow>
    (\<forall>i < j. \<exists>e. out ((nxt ^^ i) (net w)) = Inl e \<and> sr e) \<Longrightarrow> out ((nxt ^^ j) (net w)) = Inr v \<Longrightarrow>
    fst (retry_loop op p sr cb s m k w) = Inr v"
proof (induction j arbitrary: k w)
  case 0
  then have "fst (op w) = Inr v" using op by simp
  then show ?case by (cases "op w") (simp add: retry_loop.simps [of op p sr cb s m k w] retry_attempt_def)
next
  case (Suc j)
  let ?d = "backoff p (k - 1)"
  obtain e where e: "out (net w) = Inl e" "sr e" using Suc.prems(5) by force
  obtain w1 where w1: "op w = (Inl e, w1)" using op [of w] e(1) by (metis prod.collapse)
  have w1': "net w1 = nxt (net w)" "clock w1 \<le> clock w + c" "lags w1 = []"
    using op [of w] w1 Suc.prems(1) by simp_all
  define w2 where "w2 = asleep ?d (notify cb k e ?d w1)"
  have d: "0 \<le> ?d" "?d \<le> max_delay_sec p" using backoff_bounds p by blast+
  have delay: "retry_delay p k w1 = (Inr ?d, w1)"
    using p(3) Suc.prems(3) by (intro retry_delay_no_jitter) auto
  have t: "clock w - s + (c + max_delay_sec p) + of_nat j * (c + max_delay_sec p) \<le> total_timeout_sec p"
    using Suc.prems(4) by (simp add: algebra_simps)
  have "0 \<le> of_nat j * (c + max_delay_sec p)" using c p(2) by simp
  then have budget: "clock w1 - s + ?d \<le> total_timeout_sec p" using t d(2) w1'(2) by linarith
  have att: "retry_attempt op p sr cb s m k w = Again w2"
    using Suc.prems(2) e(2) budget by (simp add: retry_attempt_def w1 delay w2_def not_le)
  have w2: "clock w2 = clock w1 + ?d" "lags w2 = []" "net w2 = nxt (net w)"
    using cb w1' d(1) by (simp_all add: w2_def asleep_no_lag)
  have later: "\<exists>e'. out ((nxt ^^ i) (net w2)) = Inl e' \<and> sr e'" if "i < j" for i
  proof -
    from that have "Suc i < Suc j" by simp
    with Suc.prems(5) have "\<exists>e'. out ((nxt ^^ Suc i) (net w)) = Inl e' \<and> sr e'" by blast
    then show ?thesis by (simp only: w2(3) funpow_Suc_right o_apply)
  qed
  have "fst (retry_loop op p sr cb s m (Suc k) w2) = Inr v"
  proof (rule Suc.IH)
    show "clock w2 - s + of_nat j * (c + max_delay_sec p) \<le> total_timeout_sec p"
      using t d(2) w1'(2) w2(1) by linarith
    show "out ((nxt ^^ j) (net w2)) = Inr v"
      using Suc.prems(6) by (simp only: w2(3) funpow_Suc_right o_apply)
  qed (use Suc.prems(2,3) w2(2) later in simp_all)
  then show ?case by (simp add: retry_loop.simps [of op p sr cb s m k w] att)
qed

subsection \<open>The interface of a provider call\<close>

text \<open>
  What the adapters promise of the call they retry: each call sends one request, the hook
  sends none, and a call that raises raises one of the errors \<open>valid\<close>. The number of
  requests sent so far is the second component of the servers' state.
\<close>

locale provider_call =
  fixes operation :: "('n \<times> nat, 'a) action"
    and hook :: "('n \<times> nat) retry_hook"
    and valid :: "exn \<Rightarrow> bool"
  assumes one_request: "operation w = (r, w') \<Longrightarrow> snd (net w') = Suc (snd (net w))"
    and hook_net: "net (hook k e d w) = net w"
    and raises: "operation w = (Inl e, w') \<Longrightarrow> valid e"
begin

lemma loop_requests:
  assumes "retry_loop operation p sr (Some hook) s m k w = (r, w')"
  shows "snd (net w) < snd (net w') \<and> (k \<le> m \<longrightarrow> snd (net w') + k \<le> snd (net w) + m + 1)"
  using assms
proof (induction rule: retry_loop_induct)
  case (finished k w r w')
  then show ?case
    by (cases rule: retry_attempt_FinishedE)
      (auto dest!: one_request retry_delay_frameD(3))
next
  case (again k w w1 r w')
  from again.hyps(1) obtain e w2 d w3 where st: "operation w = (Inl e, w2)" "k < m"
    "retry_delay p k w2 = (Inr d, w3)" "w1 = asleep d (notify (Some hook) k e d w3)"
    by (cases rule: retry_attempt_AgainE)
  then have "snd (net w1) = Suc (snd (net w))"
    using one_request [OF st(1)] retry_delay_frameD(3) [OF st(3)] by (simp add: frame_simps hook_net)
  with again.IH st(2) show ?case by auto
qed

text \<open>At least one request, at most \<open>max(1, max_attempts)\<close>.\<close>

lemma requests_bound:
  assumes "run_with_retry operation p sr (Some hook) w = (r, w')"
  shows "snd (net w) < snd (net w')"
    and "snd (net w') \<le> snd (net w) + nat (max 1 (max_attempts p))"
proof -
  let ?m = "nat (max 1 (max_attempts p))"
  have "1 \<le> ?m" by simp
  then show "snd (net w) < snd (net w')" "snd (net w') \<le> snd (net w) + ?m"
    using loop_requests [OF assms [unfolded run_with_retry_def Let_def]] by auto
qed

lemma single_request:
  assumes "operation w = (Inl e, w1)" "\<not> sr e"
  shows "snd (net (snd (run_with_retry operation p sr (Some hook) w))) = Suc (snd (net w))"
  using run_with_retry_no_retry [of operation w e w1 sr p "Some hook"] assms one_request [OF assms(1)] by simp

lemma run_raises:
  assumes "run_with_retry operation p sr cb w = (Inl e, w')"
  shows "valid e \<or> e = mk_exn (BuiltinError ''OverflowError'') ''int too large to convert to float''"
  using run_with_retry_result [OF assms] raises by auto

end

end
