(* ===== verification/Http_Json.thy ===== *)
theory Http_Json
  imports Retry
begin

text \<open>
  JSON values, and the outcome of an HTTP call as the adapters see it. The HTTP client
  library and the servers behind it are not part of the program: a call is a parameter
  \<open>post url body\<close> (or \<open>get url\<close>) that maps the servers' state to an outcome, the time
  the call took, and the servers' next state.
\<close>

subsection \<open>JSON\<close>

text \<open>
  A float is carried by its literal text: the code only forwards floats. A \<open>JDict\<close> lists
  the entries of a Python \<open>dict\<close>, so its keys are distinct.
\<close>

datatype json =
    JNull
  | JBool bool
  | JInt int
  | JFloat string
  | JStr string
  | JList "json list"
  | JDict "(string \<times> json) list"

definition attribute_error :: "string \<Rightarrow> exn" where
  "attribute_error m = mk_exn (BuiltinError ''AttributeError'') m"

text \<open>\<open>body.get(k)\<close>: only a \<open>dict\<close> has the method.\<close>

fun json_get :: "json \<Rightarrow> string \<Rightarrow> exn + json" where
  "json_get (JDict kvs) k = Inr (case map_of kvs k of None \<Rightarrow> JNull | Some v \<Rightarrow> v)"
| "json_get _ k = Inl (attribute_error ''no attribute get'')"

text \<open>The field of a body that a schema validates, and a required one that must be a string.\<close>

definition dict_field :: "string \<Rightarrow> json \<Rightarrow> json option" where
  "dict_field k d = (case d of JDict kvs \<Rightarrow> map_of kvs k | _ \<Rightarrow> None)"

definition str_field :: "string \<Rightarrow> json \<Rightarrow> bool" where
  "str_field k d = (case dict_field k d of Some (JStr _) \<Rightarrow> True | _ \<Rightarrow> False)"

definition json_opt_str :: "string option \<Rightarrow> json" where
  "json_opt_str x = (case x of None \<Rightarrow> JNull | Some s \<Rightarrow> JStr s)"

subsection \<open>JSON text\<close>

definition hex_digit :: "nat \<Rightarrow> char" where
  "hex_digit n = (if n < 10 then char_of (48 + n) else char_of (87 + n))"

text \<open>The escapes of \<open>json.dumps(..., ensure_ascii=False)\<close>.\<close>

definition json_escape_char :: "char \<Rightarrow> string" where
  "json_escape_char c = (let n = (of_char c :: nat); bs = (char_of (92 :: nat) :: char) in
     if n = 34 then [bs, c]
     else if n = 92 then [bs, c]
     else if n = 10 then [bs, CHR ''n'']
     else if n = 13 then [bs, CHR ''r'']
     else if n = 9 then [bs, CHR ''t'']
     else if n = 8 then [bs, CHR ''b'']
     else if n = 12 then [bs, CHR ''f'']
     else if n < 32 then [bs, CHR ''u'', CHR ''0'', CHR ''0'', hex_digit (n div 16), hex_digit (n mod 16)]
     else [c])"

definition json_string :: "string \<Rightarrow> string" where
  "json_string s = CHR 0x22 # concat (map json_escape_char s) @ [CHR 0x22]"

fun json_dumps :: "json \<Rightarrow> string" where
  "json_dumps JNull = ''null''"
| "json_dumps (JBool b) = (if b then ''true'' else ''false'')"
| "json_dumps (JInt i) = py_str_int i"
| "json_dumps (JFloat t) = t"
| "json_dumps (JStr s) = json_string s"
| "json_dumps (JList xs) = CHR ''['' # join_with '', '' (map json_dumps xs) @ '']''"
| "json_dumps (JDict kvs) = CHR ''{'' # join_with '', ''
     (map (\<lambda>(k, v). json_string k @ '': '' @ json_dumps v) kvs) @ ''}''"

subsection \<open>HTTP outcomes\<close>

text \<open>
  The exceptions of the client library, in the order in which the adapters' handlers tell
  them apart: \<open>HttpOtherTimeout\<close> is a \<open>TimeoutException\<close> that is neither a connect nor a
  read timeout, \<open>HttpOtherError\<close> an \<open>HTTPError\<close> that is none of those before it,
  \<open>HttpRaised\<close> an exception outside the library's \<open>HTTPError\<close> (its class and message).
  A response has a status and, where its text parses as JSON, a body.
\<close>

datatype http_outcome =
    HttpConnectTimeout
  | HttpReadTimeout
  | HttpOtherTimeout
  | HttpNetworkError
  | HttpOtherError
  | HttpRaised string string
  | HttpResponse int "json option"

type_synonym 'n http_post = "string \<Rightarrow> json \<Rightarrow> 'n \<Rightarrow> http_outcome \<times> real \<times> 'n"
type_synonym 'n http_get = "string \<Rightarrow> 'n \<Rightarrow> http_outcome \<times> real \<times> 'n"

text \<open>A call moves the servers' state and takes its time.\<close>

definition http_call :: "('n \<Rightarrow> http_outcome \<times> real \<times> 'n) \<Rightarrow> 'n io \<Rightarrow> http_outcome \<times> 'n io" where
  "http_call call w = (let (outcome, took, n) = call (net w)
     in (outcome, w\<lparr>net := n, clock := clock w + max 0 took\<rparr>))"

lemma http_call_frame [frame_simps]:
  "draws (snd (http_call call w)) = draws w" "lags (snd (http_call call w)) = lags w"
  "metrics (snd (http_call call w)) = metrics w" "logs (snd (http_call call w)) = logs w"
  by (simp_all add: http_call_def split: prod.splits)

lemma http_call_sel:
  "fst (http_call call w) = fst (call (net w))" "net (snd (http_call call w)) = snd (snd (call (net w)))"
  "clock (snd (http_call call w)) = clock w + max 0 (fst (snd (call (net w))))"
  by (simp_all add: http_call_def split: prod.splits)

text \<open>
  The same servers, with the requests sent to them counted in the second component of
  their state.
\<close>

definition counted :: "'n http_post \<Rightarrow> ('n \<times> nat) http_post" where
  "counted post url body = (\<lambda>(n, c). let (outcome, took, n') = post url body n
     in (outcome, took, (n', Suc c)))"

lemma counted_sel:
  "fst (counted post url body s) = fst (post url body (fst s))"
  "snd (snd (snd (counted post url body s))) = Suc (snd s)"
  by (simp_all add: counted_def split: prod.splits)

subsection \<open>What the two adapters share\<close>

definition signal :: "string \<Rightarrow> string \<Rightarrow> bool \<Rightarrow> string \<Rightarrow> string \<Rightarrow> retry_signal" where
  "signal provider operation idempotent code exception_type =
     \<lparr>sig_provider = provider, sig_operation = operation, sig_idempotent = idempotent,
      sig_error_code = code, sig_exception_type = exception_type, sig_http_status = None,
      sig_timeout_type = None, sig_retryable_override = None\<rparr>"

text \<open>\<open>err = cls(msg); attach_retry_signal(err, RetrySignal(..., error_code=err.error_code, ...))\<close>\<close>

definition signalled ::
  "exn_class \<Rightarrow> string \<Rightarrow> string \<Rightarrow> string \<Rightarrow> bool \<Rightarrow> string \<Rightarrow> timeout_kind option \<Rightarrow> int option \<Rightarrow> exn" where
  "signalled cls msg provider operation idempotent exception_type tmo status =
     (let err = mk_exn cls msg in
      attach_retry_signal err ((signal provider operation idempotent (error_code_or '''' err) exception_type)
        \<lparr>sig_timeout_type := tmo, sig_http_status := status\<rparr>))"

lemma signalled_sel [simp]:
  "exn_cls (signalled c m p o' i x t s) = c" "exn_msg (signalled c m p o' i x t s) = m"
  "wf_exn (signalled c m p o' i x t s)"
  by (simp_all add: signalled_def Let_def)

lemma signalled_signal [simp]:
  "exn_signal (signalled c m p o' i x t s) = Some
     \<lparr>sig_provider = p, sig_operation = o', sig_idempotent = i,
      sig_error_code = error_code_or '''' (mk_exn c m), sig_exception_type = x, sig_http_status = s,
      sig_timeout_type = t, sig_retryable_override = None\<rparr>"
  by (simp add: signalled_def signal_def Let_def)

text \<open>The observation and the log line of one finished call.\<close>

definition call_done ::
  "string \<Rightarrow> string \<Rightarrow> string \<Rightarrow> string \<Rightarrow> string \<Rightarrow> string \<Rightarrow> string \<Rightarrow> real \<Rightarrow> 'n io \<Rightarrow> 'n io" where
  "call_done provider operation path level message result status duration w =
     log_event level message
       [(''provider'', VStr provider), (''path'', VStr path),
        (''latency_ms'', VReal (py_round2 (duration * 1000))), (''result'', VStr result),
        (''status'', VStr status)]
       (observe_provider_latency provider operation result duration w)"

lemma call_done_frame [frame_simps]:
  "clock (call_done p o' pa l m r s d w) = clock w" "draws (call_done p o' pa l m r s d w) = draws w"
  "lags (call_done p o' pa l m r s d w) = lags w" "net (call_done p o' pa l m r s d w) = net w"
  "metrics (call_done p o' pa l m r s d w) =
     metrics w @ [Observe ''provider_latency_seconds'' [p, o', r] d]"
  by (simp_all add: call_done_def observe_provider_latency_def frame_simps)

definition retry_logger :: "string \<Rightarrow> string \<Rightarrow> 'n retry_hook" where
  "retry_logger provider path attempt exc delay w =
     log_event ''WARNING'' ''retry scheduled''
       [(''provider'', VStr provider), (''path'', VStr path),
        (''status'', opt_str (map_option sig_error_code (exn_signal exc))), (''result'', VStr ''retry''),
        (''retry_attempt'', VInt (int attempt)), (''retry_delay_ms'', VReal (py_round2 (delay * 1000))),
        (''retry_reason'', VStr (exn_msg exc))] w"

lemma retry_logger_frame [frame_simps]:
  "clock (retry_logger p pa k e d w) = clock w" "draws (retry_logger p pa k e d w) = draws w"
  "lags (retry_logger p pa k e d w) = lags w" "net (retry_logger p pa k e d w) = net w"
  "metrics (retry_logger p pa k e d w) = metrics w"
  by (simp_all add: retry_logger_def frame_simps)

text \<open>The health probe of both HTTP clients: any exception is \<open>False\<close>.\<close>

definition http_ping :: "string \<Rightarrow> 'n http_get \<Rightarrow> string \<Rightarrow> 'n io \<Rightarrow> bool \<times> 'n io" where
  "http_ping provider get base_url w =
     (let started = clock w;
          (outcome, w1) = http_call (get (base_url @ ''/health'')) w;
          duration = clock w1 - started;
          ok = (case outcome of HttpResponse status _ \<Rightarrow> status < 500 | _ \<Rightarrow> False)
      in (ok, observe_provider_latency provider ''ping'' (if ok then ''success'' else ''failure'') duration w1))"

subsection \<open>The taxonomy on the adapters' errors\<close>

lemma retry_timeout:
  "should_retry_by_taxonomy (signalled c m p o' i ''timeout'' (Some t) None) \<longleftrightarrow> t = ConnectTimeout \<or> i"
  by (cases t) (simp_all add: should_retry_by_taxonomy_def extract_retry_signal_def)

lemma retry_network:
  "should_retry_by_taxonomy (signalled c m p o' i ''network_error'' None None) \<longleftrightarrow> i"
  by (simp add: should_retry_by_taxonomy_def extract_retry_signal_def)

lemma retry_never:
  "\<not> should_retry_by_taxonomy (signalled c m p o' i ''invalid_json'' None None)"
  "\<not> should_retry_by_taxonomy (signalled c m p o' i ''invalid_body'' None None)"
  "\<not> should_retry_by_taxonomy (mk_exn c m)"
  by (simp_all add: should_retry_by_taxonomy_def extract_retry_signal_def)

lemma retry_transport:
  "\<not> should_retry_by_taxonomy (signalled LLMBadResponseError m p o' i ''transport_error'' None None)"
  "\<not> should_retry_by_taxonomy (signalled TTSBadResponseError m p o' i ''transport_error'' None None)"
  by (simp_all add: should_retry_by_taxonomy_def extract_retry_signal_def error_code_or_def)

lemma retry_status:
  assumes "400 \<le> st" and "c = LLMBadResponseError \<or> c = TTSBadResponseError"
  shows "should_retry_by_taxonomy (signalled c m p o' i ''http_status'' None (Some st)) \<longleftrightarrow>
    st = 429 \<or> (i \<and> st \<in> {500, 502, 503, 504})"
  using assms by (auto simp: should_retry_by_taxonomy_def extract_retry_signal_def error_code_or_def)

lemmas taxonomy = retry_timeout retry_network retry_never retry_transport retry_status

text \<open>
  Which outcomes the taxonomy retries: throttling and connect timeouts always, the other
  transient ones only for an idempotent call.
\<close>

definition retryable_outcome :: "bool \<Rightarrow> http_outcome \<Rightarrow> bool" where
  "retryable_outcome idempotent outcome = (case outcome of
       HttpConnectTimeout \<Rightarrow> True
     | HttpReadTimeout \<Rightarrow> idempotent
     | HttpOtherTimeout \<Rightarrow> idempotent
     | HttpNetworkError \<Rightarrow> idempotent
     | HttpResponse status _ \<Rightarrow> status = 429 \<or> (idempotent \<and> status \<in> {500, 502, 503, 504})
     | _ \<Rightarrow> False)"

end
