(* ===== verification/LLM_Client.thy ===== *)
theory LLM_Client
  imports Http_Json
begin

text \<open>
  The LLM port (\<open>app/ports/outbound/llm_client.py\<close>) and its two implementations: the
  stub (\<open>vllm_client_stub.py\<close>) and the HTTP client (\<open>vllm_http_client.py\<close>).
\<close>

subsection \<open>The port\<close>

text \<open>
  \<open>generate_stream\<close> is optional, as the service looks it up with \<open>getattr\<close>. It gives the
  chunks in order and, where the generator raises after them, the exception.
\<close>

record 'n llm_port =
  llm_generate :: "chat_message list \<Rightarrow> ('n, string) action"
  llm_generate_stream :: "(chat_message list \<Rightarrow> 'n io \<Rightarrow> (string list \<times> exn option) \<times> 'n io) option"
  llm_ping :: "'n io \<Rightarrow> bool \<times> 'n io"
  llm_close :: "('n, unit) action"

text \<open>Both clients stream by slicing the full text, after \<open>generate\<close> returned it.\<close>

definition stream_of_generate ::
  "nat \<Rightarrow> (chat_message list \<Rightarrow> ('n, string) action) \<Rightarrow> chat_message list \<Rightarrow> 'n io \<Rightarrow>
     (string list \<times> exn option) \<times> 'n io" where
  "stream_of_generate chunk_size gen messages w = (case gen messages w of
       (Inl e, w') \<Rightarrow> (([], Some e), w')
     | (Inr text, w') \<Rightarrow> ((py_chunks chunk_size text, None), w'))"

subsection \<open>The stub\<close>

definition last_user_content :: "chat_message list \<Rightarrow> string" where
  "last_user_content messages =
     (case filter (\<lambda>m. role m = ''user'') (rev messages) of [] \<Rightarrow> '''' | m # _ \<Rightarrow> content m)"

definition stub_generate :: "chat_message list \<Rightarrow> ('n, string) action" where
  "stub_generate messages w = (Inr (''stub-vllm-reply: '' @ last_user_content messages), w)"

definition stub_generate_stream ::
  "chat_message list \<Rightarrow> 'n io \<Rightarrow> (string list \<times> exn option) \<times> 'n io" where
  "stub_generate_stream = stream_of_generate 8 stub_generate"

definition VLLMStubClient :: "'n llm_port" where
  "VLLMStubClient = \<lparr>llm_generate = stub_generate, llm_generate_stream = Some stub_generate_stream,
     llm_ping = (\<lambda>w. (True, w)), llm_close = (\<lambda>w. (Inr (), w))\<rparr>"

subsection \<open>The HTTP client\<close>

record vllm_config =
  vllm_base_url :: string
  vllm_model :: string
  vllm_temperature :: string
  vllm_max_tokens :: int
  vllm_retry_policy :: retry_policy

definition VLLMHTTPClient_init ::
  "string \<Rightarrow> string \<Rightarrow> string \<Rightarrow> int \<Rightarrow> int \<Rightarrow> real \<Rightarrow> real \<Rightarrow> bool \<Rightarrow> real \<Rightarrow> real \<Rightarrow> vllm_config" where
  "VLLMHTTPClient_init base_url model temperature max_toks retry_count base max_delay jitter ratio total_timeout =
     \<lparr>vllm_base_url = py_rstrip_char CHR ''/'' base_url, vllm_model = model,
      vllm_temperature = temperature, vllm_max_tokens = max_toks,
      vllm_retry_policy = \<lparr>max_attempts = max 1 (retry_count + 1), base_delay_sec = base,
        max_delay_sec = max_delay, jitter_enabled = jitter, jitter_ratio = ratio,
        total_timeout_sec = total_timeout\<rparr>\<rparr>"

definition vllm_build_request_payload :: "vllm_config \<Rightarrow> chat_message list \<Rightarrow> json" where
  "vllm_build_request_payload cfg messages = JDict
     [(''model'', JStr (vllm_model cfg)),
      (''messages'', JList (map (\<lambda>m. JDict [(''role'', JStr (role m)), (''content'', JStr (content m))]) messages)),
      (''temperature'', JFloat (vllm_temperature cfg)),
      (''max_tokens'', JInt (vllm_max_tokens cfg))]"

text \<open>
  \<open>_parse_response_content\<close>, with its last two steps as functions of their own: the content
  of a message object, and of a choice. Only an empty content carries a retry signal.
\<close>

definition empty_content_error :: exn where
  "empty_content_error = signalled LLMBadResponseError ''llm response content is empty''
     ''llm'' ''generate'' True ''invalid_body'' None None"

definition message_content :: "(string \<times> json) list \<Rightarrow> exn + string" where
  "message_content message = (case json_get (JDict message) ''content'' of
       Inr (JStr txt) \<Rightarrow> if py_strip txt = [] then Inl empty_content_error else Inr txt
     | _ \<Rightarrow> Inl empty_content_error)"

definition choice_content :: "json \<Rightarrow> exn + string" where
  "choice_content first = (case first of
       JDict kvs \<Rightarrow> (case json_get (JDict kvs) ''message'' of
           Inr (JDict message) \<Rightarrow> message_content message
         | _ \<Rightarrow> Inl (mk_exn LLMBadResponseError ''llm response has no message object''))
     | _ \<Rightarrow> Inl (mk_exn LLMBadResponseError ''llm choice item is invalid''))"

definition vllm_parse_response_content :: "json \<Rightarrow> exn + string" where
  "vllm_parse_response_content body = (case json_get body ''choices'' of
       Inl e \<Rightarrow> Inl e
     | Inr (JList (first # _)) \<Rightarrow> choice_content first
     | Inr _ \<Rightarrow> Inl (mk_exn LLMBadResponseError ''llm response has no choices''))"

abbreviation "llm_path \<equiv> ''/v1/chat/completions''"
abbreviation "llm_done \<equiv> call_done ''llm'' ''generate'' llm_path"
abbreviation "llm_error cls msg \<equiv> signalled cls msg ''llm'' ''generate'' True"

text \<open>The inner \<open>_request\<close> of \<open>generate\<close>.\<close>

definition vllm_request :: "'n http_post \<Rightarrow> vllm_config \<Rightarrow> json \<Rightarrow> ('n, string) action" where
  "vllm_request post cfg payload w =
     (let started = clock w;
          (outcome, w1) = http_call (post (vllm_base_url cfg @ llm_path) payload) w;
          duration = clock w1 - started
      in case outcome of
        HttpConnectTimeout \<Rightarrow>
          (Inl (llm_error LLMTimeoutError ''llm provider connect timeout'' ''timeout'' (Some ConnectTimeout) None),
           llm_done ''ERROR'' ''llm connect timeout'' ''failure'' ''connect_timeout'' duration w1)
      | HttpReadTimeout \<Rightarrow>
          (Inl (llm_error LLMTimeoutError ''llm provider read timeout'' ''timeout'' (Some ReadTimeout) None),
           llm_done ''ERROR'' ''llm read timeout'' ''failure'' ''read_timeout'' duration w1)
      | HttpOtherTimeout \<Rightarrow>
          (Inl (llm_error LLMTimeoutError ''llm provider total timeout'' ''timeout'' (Some TotalTimeout) None),
           llm_done ''ERROR'' ''llm timeout'' ''failure'' ''total_timeout'' duration w1)
      | HttpNetworkError \<Rightarrow>
          (Inl (llm_error LLMBadResponseError ''llm transient network error'' ''network_error'' None None),
           llm_done ''ERROR'' ''llm transient network error'' ''failure'' ''network_error'' duration w1)
      | HttpOtherError \<Rightarrow>
          (Inl (llm_error LLMBadResponseError ''llm transport error'' ''transport_error'' None None),
           llm_done ''ERROR'' ''llm call transport error'' ''failure'' ''error'' duration w1)
      | HttpRaised cls msg \<Rightarrow> (Inl (mk_exn (BuiltinError cls) msg), w1)
      | HttpResponse status body \<Rightarrow>
          if status \<ge> 400 then
            (Inl (llm_error LLMBadResponseError (''llm status='' @ py_str_int status) ''http_status'' None (Some status)),
             llm_done ''ERROR'' ''llm call bad status'' ''failure'' (py_str_int status) duration w1)
          else (case body of
              None \<Rightarrow>
                (Inl (llm_error LLMBadResponseError ''llm response is not valid json'' ''invalid_json'' None None),
                 llm_done ''ERROR'' ''llm invalid json'' ''failure'' ''invalid_json'' duration w1)
            | Some b \<Rightarrow> (case vllm_parse_response_content b of
                  Inl e \<Rightarrow> (Inl e, w1)
                | Inr txt \<Rightarrow>
                    (Inr txt, llm_done ''INFO'' ''llm call success'' ''success'' ''ok'' duration w1))))"

definition vllm_generate :: "'n http_post \<Rightarrow> vllm_config \<Rightarrow> chat_message list \<Rightarrow> ('n, string) action" where
  "vllm_generate post cfg messages w =
     (let payload = vllm_build_request_payload cfg messages in
      case run_with_retry (vllm_request post cfg payload) (vllm_retry_policy cfg)
             should_retry_by_taxonomy (Some (retry_logger ''llm'' llm_path)) w of
        (Inr txt, w') \<Rightarrow> (Inr txt, w')
      | (Inl e, w') \<Rightarrow>
          if isinstance e LLMTimeoutError \<or> isinstance e LLMBadResponseError then (Inl e, w')
          else (Inl (mk_exn LLMBadResponseError ''llm generation failed''), w'))"

definition vllm_generate_stream ::
  "'n http_post \<Rightarrow> vllm_config \<Rightarrow> chat_message list \<Rightarrow> 'n io \<Rightarrow> (string list \<times> exn option) \<times> 'n io" where
  "vllm_generate_stream post cfg = stream_of_generate 12 (vllm_generate post cfg)"

definition vllm_ping :: "'n http_get \<Rightarrow> vllm_config \<Rightarrow> 'n io \<Rightarrow> bool \<times> 'n io" where
  "vllm_ping get cfg = http_ping ''llm'' get (vllm_base_url cfg)"

definition VLLMHTTPClient ::
  "'n http_post \<Rightarrow> 'n http_get \<Rightarrow> ('n, unit) action \<Rightarrow> vllm_config \<Rightarrow> 'n llm_port" where
  "VLLMHTTPClient post get aclose cfg = \<lparr>llm_generate = vllm_generate post cfg,
     llm_generate_stream = Some (vllm_generate_stream post cfg),
     llm_ping = vllm_ping get cfg, llm_close = aclose\<rparr>"

subsection \<open>One request\<close>

lemma json_get_Inr: "json_get j k = Inr v \<Longrightarrow> \<exists>kvs. j = JDict kvs \<and> v = (case map_of kvs k of None \<Rightarrow> JNull | Some x \<Rightarrow> x)"
  by (cases j) auto

lemma json_get_Inl: "json_get j k = Inl e \<Longrightarrow> e = attribute_error ''no attribute get''"
  by (cases j) auto

lemma message_content_Inr:
  "message_content m = Inr c \<Longrightarrow> map_of m ''content'' = Some (JStr c) \<and> py_strip c \<noteq> []"
  by (auto simp: message_content_def split: json.splits option.splits if_splits)

lemma message_content_Inl: "message_content m = Inl e \<Longrightarrow> e = empty_content_error"
  by (auto simp: message_content_def split: json.splits option.splits if_splits)

lemma choice_content_Inr:
  assumes "choice_content first = Inr c"
  obtains kvs m where "first = JDict kvs" "map_of kvs ''message'' = Some (JDict m)" "message_content m = Inr c"
  using assms by (auto simp: choice_content_def split: json.splits option.splits)

lemma choice_content_Inl:
  "choice_content first = Inl e \<Longrightarrow> e \<in> {empty_content_error,
     mk_exn LLMBadResponseError ''llm response has no message object'',
     mk_exn LLMBadResponseError ''llm choice item is invalid''}"
  by (auto simp: choice_content_def split: json.splits option.splits dest: message_content_Inl)

lemma vllm_parse_Inr:
  assumes "vllm_parse_response_content body = Inr c"
  obtains kvs first rest where "body = JDict kvs" "map_of kvs ''choices'' = Some (JList (first # rest))"
    "choice_content first = Inr c"
  using assms
  by (cases body) (auto simp: vllm_parse_response_content_def split: json.splits list.splits option.splits)

lemma vllm_parse_Inl:
  assumes "vllm_parse_response_content body = Inl e"
  shows "e \<in> {attribute_error ''no attribute get'', empty_content_error,
     mk_exn LLMBadResponseError ''llm response has no choices'',
     mk_exn LLMBadResponseError ''llm response has no message object'',
     mk_exn LLMBadResponseError ''llm choice item is invalid''}"
proof (cases "json_get body ''choices''")
  case (Inl e')
  then show ?thesis using assms json_get_Inl [OF Inl] by (simp add: vllm_parse_response_content_def)
next
  case (Inr v)
  then show ?thesis using assms
    by (auto simp: vllm_parse_response_content_def split: json.splits list.splits dest!: choice_content_Inl)
qed

text \<open>No error of the parser is ever retried.\<close>

lemma vllm_parse_no_retry:
  assumes "vllm_parse_response_content b = Inl e"
  shows "\<not> should_retry_by_taxonomy e" and "wf_exn e"
  using vllm_parse_Inl [OF assms] by (auto simp: taxonomy attribute_error_def empty_content_error_def)

subsection \<open>One call\<close>

text \<open>What a call returns or raises depends on the outcome of the request only.\<close>

definition vllm_outcome :: "http_outcome \<Rightarrow> exn + string" where
  "vllm_outcome outcome = (case outcome of
       HttpConnectTimeout \<Rightarrow> Inl (llm_error LLMTimeoutError ''llm provider connect timeout'' ''timeout'' (Some ConnectTimeout) None)
     | HttpReadTimeout \<Rightarrow> Inl (llm_error LLMTimeoutError ''llm provider read timeout'' ''timeout'' (Some ReadTimeout) None)
     | HttpOtherTimeout \<Rightarrow> Inl (llm_error LLMTimeoutError ''llm provider total timeout'' ''timeout'' (Some TotalTimeout) None)
     | HttpNetworkError \<Rightarrow> Inl (llm_error LLMBadResponseError ''llm transient network error'' ''network_error'' None None)
     | HttpOtherError \<Rightarrow> Inl (llm_error LLMBadResponseError ''llm transport error'' ''transport_error'' None None)
     | HttpRaised cls msg \<Rightarrow> Inl (mk_exn (BuiltinError cls) msg)
     | HttpResponse status body \<Rightarrow>
         if status \<ge> 400 then Inl (llm_error LLMBadResponseError (''llm status='' @ py_str_int status) ''http_status'' None (Some status))
         else (case body of
             None \<Rightarrow> Inl (llm_error LLMBadResponseError ''llm response is not valid json'' ''invalid_json'' None None)
           | Some b \<Rightarrow> vllm_parse_response_content b))"

lemma vllm_request_outcome:
  "fst (vllm_request post cfg pl w) = vllm_outcome (fst (post (vllm_base_url cfg @ llm_path) pl (net w)))"
  by (simp add: vllm_request_def vllm_outcome_def Let_def http_call_def split: prod.splits http_outcome.splits option.splits sum.splits)

lemma vllm_request_frame:
  "draws (snd (vllm_request post cfg pl w)) = draws w" "lags (snd (vllm_request post cfg pl w)) = lags w"
  "net (snd (vllm_request post cfg pl w)) = snd (snd (post (vllm_base_url cfg @ llm_path) pl (net w)))"
  "clock (snd (vllm_request post cfg pl w)) =
     clock w + max 0 (fst (snd (post (vllm_base_url cfg @ llm_path) pl (net w))))"
  by (simp_all add: vllm_request_def Let_def http_call_def frame_simps
      split: prod.splits http_outcome.splits option.splits sum.splits)

lemma vllm_outcome_retry:
  assumes "vllm_outcome r = Inl e"
  shows "should_retry_by_taxonomy e \<longleftrightarrow> retryable_outcome True r"
  using assms
  by (auto simp: vllm_outcome_def retryable_outcome_def taxonomy vllm_parse_no_retry(1)
      split: http_outcome.splits option.splits if_splits)

lemma vllm_outcome_wf: "vllm_outcome r = Inl e \<Longrightarrow> wf_exn e"
  by (auto simp: vllm_outcome_def vllm_parse_no_retry(2) split: http_outcome.splits option.splits if_splits)

text \<open>A call of the client keeps the interface of a provider call.\<close>

interpretation vllm: provider_call "vllm_request (counted post) cfg payload" "retry_logger ''llm'' llm_path" wf_exn
  for post :: "'n http_post" and cfg payload
proof unfold_locales
  fix w w' :: "('n \<times> nat) io" and r
  assume "vllm_request (counted post) cfg payload w = (r, w')"
  then show "snd (net w') = Suc (snd (net w))"
    using vllm_request_frame(3) [of "counted post" cfg payload w] by (simp add: counted_sel)
next
  fix w w' :: "('n \<times> nat) io" and e
  assume "vllm_request (counted post) cfg payload w = (Inl e, w')"
  then show "wf_exn e"
    using vllm_request_outcome [of "counted post" cfg payload w] by (auto intro: vllm_outcome_wf)
qed (simp add: frame_simps)

text \<open>The wrapper around the retries changes neither the world nor the values returned.\<close>

lemma vllm_generate_snd: "snd (vllm_generate post cfg ms w) =
   snd (run_with_retry (vllm_request post cfg (vllm_build_request_payload cfg ms)) (vllm_retry_policy cfg)
     should_retry_by_taxonomy (Some (retry_logger ''llm'' llm_path)) w)"
  by (simp add: vllm_generate_def Let_def split: prod.splits sum.splits)

lemma vllm_generate_Inr: "vllm_generate post cfg ms w = (Inr c, w') \<longleftrightarrow>
   run_with_retry (vllm_request post cfg (vllm_build_request_payload cfg ms)) (vllm_retry_policy cfg)
     should_retry_by_taxonomy (Some (retry_logger ''llm'' llm_path)) w = (Inr c, w')"
  by (auto simp: vllm_generate_def Let_def split: prod.splits sum.splits if_splits)

text \<open>A call observes latencies only: it moves no gauge and no counter.\<close>

definition counts :: "'n io \<Rightarrow> (string \<Rightarrow> int) \<times> (string \<Rightarrow> string list \<Rightarrow> nat)" where
  "counts w = ((\<lambda>g. gauge g (metrics w)), (\<lambda>c ls. counter c ls (metrics w)))"

lemma counts_frame [simp]:
  "counts (log_event_exc l m fs x w) = counts w" "counts (asleep d w) = counts w"
  "counts (w\<lparr>clock := t\<rparr>) = counts w" "counts (w\<lparr>net := n\<rparr>) = counts w"
  "counts (call_done p o' pa l m r s d w) = counts w"
  by (simp_all add: counts_def frame_simps)

lemma counts_cong: "metrics w' = metrics w \<Longrightarrow> counts w' = counts w"
  by (simp add: counts_def)

lemma vllm_request_counts: "counts (snd (vllm_request post cfg pl w)) = counts w"
proof -
  have "counts (snd (http_call call w)) = counts w" for call by (rule counts_cong) (simp add: frame_simps)
  then have "counts w1 = counts w" if "http_call (post (vllm_base_url cfg @ llm_path) pl) w = (r, w1)" for r w1
    using that by (metis snd_conv)
  then show ?thesis
    by (simp add: vllm_request_def Let_def split: prod.splits http_outcome.splits option.splits sum.splits)
qed

lemma vllm_generate_counts: "counts (snd (vllm_generate post cfg ms w)) = counts w"
proof -
  let ?op = "vllm_request post cfg (vllm_build_request_payload cfg ms)"
  obtain r w' where run: "run_with_retry ?op
      (vllm_retry_policy cfg) should_retry_by_taxonomy (Some (retry_logger ''llm'' llm_path)) w = (r, w')"
    by fastforce
  have "counts w' = counts w"
  proof (rule retry_loop_keeps [OF run [unfolded run_with_retry_def Let_def], of "\<lambda>v. counts v = counts w"])
    show "counts w' = counts w" if "counts v = counts w" "?op v = (r, w')" for v r w'
      using vllm_request_counts [of post cfg _ v] that by (metis snd_conv)
    show "counts w' = counts w" if "counts v = counts w" "retry_delay (vllm_retry_policy cfg) k v = (r, w')" for k v r w'
      using counts_cong [OF retry_delay_frameD(4) [OF that(2)]] that(1) by simp
  qed (simp_all add: retry_logger_def)
  then show ?thesis by (simp add: vllm_generate_snd run)
qed

subsection \<open>Properties\<close>

abbreviation llm_reply :: "'n http_post \<Rightarrow> vllm_config \<Rightarrow> chat_message list \<Rightarrow> 'n \<Rightarrow> http_outcome \<times> real \<times> 'n" where
  "llm_reply post cfg ms \<equiv> post (vllm_base_url cfg @ llm_path) (vllm_build_request_payload cfg ms)"

lemma vllm_request_step:
  "fst (vllm_request post cfg (vllm_build_request_payload cfg ms) w) = vllm_outcome (fst (llm_reply post cfg ms (net w)))"
  "net (snd (vllm_request post cfg (vllm_build_request_payload cfg ms) w)) = snd (snd (llm_reply post cfg ms (net w)))"
  by (simp_all add: vllm_request_outcome vllm_request_frame)

lemma isinstance_leaf:
  "isinstance e LLMTimeoutError \<longleftrightarrow> exn_cls e = LLMTimeoutError"
  "isinstance e LLMBadResponseError \<longleftrightarrow> exn_cls e = LLMBadResponseError"
  by (cases "exn_cls e"; simp add: isinstance_def is_subclass.simps)+

text \<open>
  \<open>generate\<close> sends at least one request to the model server and at most
  \<open>1 + retry_count\<close> (one where the count is negative), whatever the server answers, the clock
  does and the jitter draws.
\<close>

theorem vllm_generate_requests:
  "(let cfg = VLLMHTTPClient_init url model temp toks retry_count base mx jit ratio budget;
        sent = snd (net (snd (vllm_generate (counted post) cfg ms w))) - snd (net w)
    in 1 \<le> sent \<and> sent \<le> nat (max 1 (retry_count + 1)))"
proof -
  let ?cfg = "VLLMHTTPClient_init url model temp toks retry_count base mx jit ratio budget"
  obtain r w' where run: "run_with_retry (vllm_request (counted post) ?cfg (vllm_build_request_payload ?cfg ms))
      (vllm_retry_policy ?cfg) should_retry_by_taxonomy (Some (retry_logger ''llm'' llm_path)) w = (r, w')"
    by fastforce
  have "max_attempts (vllm_retry_policy ?cfg) = max 1 (retry_count + 1)"
    by (simp add: VLLMHTTPClient_init_def)
  with vllm.requests_bound [OF run] show ?thesis
    by (simp add: Let_def vllm_generate_snd run) linarith
qed

lemma vllm_generate_raises:
  "case fst (vllm_generate post cfg ms w) of Inr reply \<Rightarrow> py_strip reply \<noteq> []
   | Inl e \<Rightarrow> exn_cls e \<in> {LLMTimeoutError, LLMBadResponseError} \<and> wf_exn e"
proof -
  let ?op = "vllm_request post cfg (vllm_build_request_payload cfg ms)"
  obtain r w' where run: "run_with_retry ?op
      (vllm_retry_policy cfg) should_retry_by_taxonomy (Some (retry_logger ''llm'' llm_path)) w = (r, w')"
    by fastforce
  have from_call: "(\<exists>o'. r = vllm_outcome o') \<or> (\<exists>m. r = Inl (mk_exn (BuiltinError ''OverflowError'') m))"
    using run_with_retry_result [OF run] vllm_request_step(1) by (metis fst_conv)
  show ?thesis
  proof (cases r)
    case (Inl e)
    then have "wf_exn e" using from_call vllm_outcome_wf by (metis Inl_inject wf_mk_exn)
    then show ?thesis
      by (auto simp: vllm_generate_def Let_def run Inl isinstance_leaf)
  next
    case (Inr c)
    then obtain o' where "vllm_outcome o' = Inr c" using from_call by auto
    then have "py_strip c \<noteq> []"
      by (auto simp: vllm_outcome_def split: http_outcome.splits if_splits option.splits
          elim!: vllm_parse_Inr choice_content_Inr dest!: message_content_Inr)
    then show ?thesis by (simp add: vllm_generate_def Let_def run Inr)
  qed
qed

text \<open>
  Whatever the server does, \<open>generate\<close> returns a text that is not blank or raises
  \<open>LLMTimeoutError\<close> or \<open>LLMBadResponseError\<close> with the error code of its class; no other
  exception leaves the client.
\<close>

theorem vllm_generate_closed:
  "case fst (vllm_generate post cfg ms w) of
     Inr reply \<Rightarrow> py_strip reply \<noteq> []
   | Inl e \<Rightarrow> (exn_cls e = LLMTimeoutError \<and> exn_code e = Some ''LLM_TIMEOUT'') \<or>
              (exn_cls e = LLMBadResponseError \<and> exn_code e = Some ''LLM_BAD_RESPONSE'')"
  using vllm_generate_raises [of post cfg ms w] by (auto simp: wf_exn_def split: sum.splits)

text \<open>
  \<open>generate\<close> is bounded and closed. Whatever the model server answers, the clock does and the
  jitter draws, it sends at least one request and at most \<open>1 + retry_count\<close> (one where the count
  is negative), and then returns a text that is not blank or raises \<open>LLMTimeoutError\<close> or
  \<open>LLMBadResponseError\<close> with the error code of its class; no other exception leaves the client.
\<close>

theorem vllm_generate_bounded:
  "let cfg = VLLMHTTPClient_init url model temp toks retry_count base mx jit ratio budget;
       (r, w') = vllm_generate (counted post) cfg ms w; sent = snd (net w') - snd (net w)
   in 1 \<le> sent \<and> sent \<le> nat (max 1 (retry_count + 1)) \<and>
      (case r of
         Inr reply \<Rightarrow> py_strip reply \<noteq> []
       | Inl e \<Rightarrow> (exn_cls e = LLMTimeoutError \<and> exn_code e = Some ''LLM_TIMEOUT'') \<or>
                  (exn_cls e = LLMBadResponseError \<and> exn_code e = Some ''LLM_BAD_RESPONSE''))"
  using vllm_generate_requests [of url model temp toks retry_count base mx jit ratio budget post ms w]
    vllm_generate_closed [of "counted post" "VLLMHTTPClient_init url model temp toks retry_count base mx jit ratio budget" ms w]
  by (simp add: Let_def split_beta)

text \<open>
  The parser accepts exactly the bodies that are an object whose \<open>choices\<close> is a list
  with a first item that is an object with an object \<open>message\<close> whose \<open>content\<close> is a string
  that is not blank, and returns that string unstripped.
\<close>

theorem vllm_parse_accepts:
  "vllm_parse_response_content body = Inr c \<longleftrightarrow>
     py_strip c \<noteq> [] \<and>
     (\<exists>top choice rest message. body = JDict top \<and> map_of top ''choices'' = Some (JList (JDict choice # rest)) \<and>
        map_of choice ''message'' = Some (JDict message) \<and> map_of message ''content'' = Some (JStr c))"
proof
  assume "vllm_parse_response_content body = Inr c"
  then show "py_strip c \<noteq> [] \<and>
     (\<exists>top choice rest message. body = JDict top \<and> map_of top ''choices'' = Some (JList (JDict choice # rest)) \<and>
        map_of choice ''message'' = Some (JDict message) \<and> map_of message ''content'' = Some (JStr c))"
    by (auto elim!: vllm_parse_Inr choice_content_Inr dest!: message_content_Inr)
qed (auto simp: vllm_parse_response_content_def choice_content_def message_content_def)

text \<open>
  C14: transient failures are masked. When the first \<open>j\<close> answers are ones the taxonomy
  retries, the next one is a good answer, \<open>j\<close> is within the retry count and the budget covers
  the failed calls and the delays, \<open>generate\<close> returns the text of the good answer.
\<close>

theorem vllm_generate_masks:
  assumes cfg: "cfg = VLLMHTTPClient_init url model temp toks retry_count base mx False ratio budget"
    and count: "int j \<le> retry_count" "j < 1024" and times: "0 \<le> base" "0 \<le> mx" "0 \<le> c"
    and took: "\<And>n. fst (snd (llm_reply post cfg ms n)) \<le> c"
    and transient: "\<And>i. i < j \<Longrightarrow>
      retryable_outcome True (fst (llm_reply post cfg ms (((\<lambda>n. snd (snd (llm_reply post cfg ms n))) ^^ i) (net w))))"
    and good: "fst (llm_reply post cfg ms (((\<lambda>n. snd (snd (llm_reply post cfg ms n))) ^^ j) (net w))) = HttpResponse 200 (Some body)"
      "vllm_parse_response_content body = Inr reply"
    and fits: "of_nat j * (c + mx) \<le> budget" and lag: "lags w = []"
  shows "fst (vllm_generate post cfg ms w) = Inr reply"
proof -
  let ?op = "vllm_request post cfg (vllm_build_request_payload cfg ms)"
  let ?nxt = "\<lambda>n. snd (snd (llm_reply post cfg ms n))"
  let ?out = "\<lambda>n. vllm_outcome (fst (llm_reply post cfg ms n))"
  let ?p = "vllm_retry_policy cfg"
  have p: "max_attempts ?p = max 1 (retry_count + 1)" "base_delay_sec ?p = base" "max_delay_sec ?p = mx"
    "\<not> jitter_enabled ?p" "total_timeout_sec ?p = budget"
    by (simp_all add: cfg VLLMHTTPClient_init_def)
  have step: "fst (?op w) = ?out (net w) \<and> net (snd (?op w)) = ?nxt (net w)
      \<and> clock (snd (?op w)) \<le> clock w + c \<and> lags (snd (?op w)) = lags w" for w
    using took [of "net w"] times(3) by (simp add: vllm_request_step vllm_request_frame)
  have hook: "clock (notify (Some (retry_logger ''llm'' llm_path)) k e d w) = clock w
      \<and> lags (notify (Some (retry_logger ''llm'' llm_path)) k e d w) = lags w
      \<and> net (notify (Some (retry_logger ''llm'' llm_path)) k e d w) = net w" for k e d and w :: "'a io"
    by (simp add: frame_simps)
  have bad: "\<forall>i < j. \<exists>e. ?out ((?nxt ^^ i) (net w)) = Inl e \<and> should_retry_by_taxonomy e"
  proof (intro allI impI)
    fix i assume "i < j"
    note tr = transient [OF this]
    then obtain e where "?out ((?nxt ^^ i) (net w)) = Inl e"
      by (auto simp: vllm_outcome_def retryable_outcome_def split: http_outcome.splits)
    with tr show "\<exists>e. ?out ((?nxt ^^ i) (net w)) = Inl e \<and> should_retry_by_taxonomy e"
      using vllm_outcome_retry by blast
  qed
  have "fst (run_with_retry ?op ?p should_retry_by_taxonomy (Some (retry_logger ''llm'' llm_path)) w) = Inr reply"
    unfolding run_with_retry_def Let_def
  proof (rule retry_loop_masks [where out = ?out and nxt = ?nxt and j = j and c = c, OF step hook _ _ p(4) times(3) lag])
    show "?out ((?nxt ^^ j) (net w)) = Inr reply" using good by (simp add: vllm_outcome_def)
    show "1 + j \<le> nat (max 1 (max_attempts ?p))" using count(1) p(1) by linarith
  qed (use p times count fits bad in \<open>simp_all\<close>)
  then obtain w' where "run_with_retry ?op ?p should_retry_by_taxonomy (Some (retry_logger ''llm'' llm_path)) w = (Inr reply, w')"
    by (metis prod.collapse)
  then show ?thesis using vllm_generate_Inr by (metis fst_conv)
qed

text \<open>A server that answers 503 to its first two requests and then replies.\<close>

definition demo_body :: json where
  "demo_body = JDict [(''choices'', JList [JDict [(''message'', JDict [(''content'', JStr ''hi'')])]])]"

definition demo_post :: "nat http_post" where
  "demo_post url payload n = (if n < 2 then HttpResponse 503 None else HttpResponse 200 (Some demo_body), 1, Suc n)"

definition demo_io :: "nat io" where
  "demo_io = \<lparr>clock = 0, draws = [], lags = [], net = 0, metrics = [], logs = []\<rparr>"

lemma demo_sel [simp]: "fst (demo_post u p n) = (if n < 2 then HttpResponse 503 None else HttpResponse 200 (Some demo_body))"
  "fst (snd (demo_post u p n)) = 1" "snd (snd (demo_post u p n)) = Suc n"
  by (simp_all add: demo_post_def)

lemma Suc_funpow: "(Suc ^^ i) n = n + i"
  by (induction i) simp_all

theorem vllm_generate_masks_witness:
  "fst (vllm_generate demo_post (VLLMHTTPClient_init ''u'' ''m'' ''0.7'' 16 2 0.1 1 False 0 10) [user_msg ''hello''] demo_io) = Inr ''hi''"
proof (rule vllm_generate_masks [where j = 2 and c = 1 and body = demo_body, OF refl])
  show "vllm_parse_response_content demo_body = Inr ''hi''"
    by (simp add: vllm_parse_accepts demo_body_def py_defs) 
qed (simp_all add: Suc_funpow retryable_outcome_def demo_io_def)

end
