(* ===== verification/TTS_Client.thy ===== *)
theory TTS_Client
  imports Http_Json
begin

text \<open>
  The TTS port (\<open>app/ports/outbound/tts_client.py\<close>) and its two implementations: the
  stub (\<open>gptsovits_client_stub.py\<close>) and the HTTP client (\<open>gptsovits_http_client.py\<close>).
\<close>

subsection \<open>The port\<close>

text \<open>The arguments of \<open>synthesize\<close>.\<close>

record tts_args =
  tts_text :: string
  tts_voice_id :: "string option"
  tts_speaker :: "string option"
  tts_language :: "string option"
  tts_reference_audio_url :: "string option"

record 'n tts_port =
  tts_synthesize :: "tts_args \<Rightarrow> ('n, string) action"
  tts_ping :: "'n io \<Rightarrow> bool \<times> 'n io"
  tts_close :: "('n, unit) action"

subsection \<open>The stub\<close>

text \<open>\<open>a or b\<close> for an optional string: an empty string is false.\<close>

definition or_str :: "string option \<Rightarrow> string option \<Rightarrow> string option" where
  "or_str a b = (case a of None \<Rightarrow> b | Some s \<Rightarrow> if s = [] then b else Some s)"

definition gsv_stub_synthesize :: "tts_args \<Rightarrow> ('n, string) action" where
  "gsv_stub_synthesize a w =
     (let safe = py_replace_char CHR '' '' CHR ''_'' (take 32 (tts_text a));
          voice = the (or_str (tts_voice_id a) (or_str (tts_speaker a) (Some ''default'')))
      in (Inr (''https://audio.local/'' @ voice @ ''/'' @ safe @ ''.wav''), w))"

definition GPTSoVITSStubClient :: "'n tts_port" where
  "GPTSoVITSStubClient = \<lparr>tts_synthesize = gsv_stub_synthesize, tts_ping = (\<lambda>w. (True, w)),
     tts_close = (\<lambda>w. (Inr (), w))\<rparr>"

subsection \<open>The HTTP client\<close>

record gsv_config =
  gsv_base_url :: string
  gsv_synthesis_idempotent :: bool
  gsv_retry_policy :: retry_policy

definition GPTSoVITSHTTPClient_init ::
  "string \<Rightarrow> int \<Rightarrow> real \<Rightarrow> real \<Rightarrow> bool \<Rightarrow> real \<Rightarrow> real \<Rightarrow> bool \<Rightarrow> gsv_config" where
  "GPTSoVITSHTTPClient_init base_url retry_count base max_delay jitter ratio total_timeout idempotent =
     \<lparr>gsv_base_url = py_rstrip_char CHR ''/'' base_url, gsv_synthesis_idempotent = idempotent,
      gsv_retry_policy = \<lparr>max_attempts = max 1 (retry_count + 1), base_delay_sec = base,
        max_delay_sec = max_delay, jitter_enabled = jitter, jitter_ratio = ratio,
        total_timeout_sec = total_timeout\<rparr>\<rparr>"

definition gsv_build_request_payload :: "tts_args \<Rightarrow> json" where
  "gsv_build_request_payload a = JDict
     [(''text'', JStr (tts_text a)),
      (''reference'', JDict
         [(''voice_id'', json_opt_str (tts_voice_id a)), (''speaker'', json_opt_str (tts_speaker a)),
          (''language'', json_opt_str (tts_language a)),
          (''audio_url'', json_opt_str (tts_reference_audio_url a))])]"

text \<open>\<open>isinstance(body.get(k), str) and body[k].strip()\<close>: the string, where it is not blank.\<close>

definition nonblank_field :: "(string \<times> json) list \<Rightarrow> string \<Rightarrow> string option" where
  "nonblank_field kvs k = (case map_of kvs k of
       Some (JStr s) \<Rightarrow> if py_strip s = [] then None else Some s
     | _ \<Rightarrow> None)"

definition no_audio_error :: "gsv_config \<Rightarrow> exn" where
  "no_audio_error cfg = signalled TTSBadResponseError ''tts response has no audio payload''
     ''tts'' ''synthesize'' (gsv_synthesis_idempotent cfg) ''invalid_body'' None None"

definition gsv_parse_audio_location :: "gsv_config \<Rightarrow> json \<Rightarrow> exn + string" where
  "gsv_parse_audio_location cfg body = (case body of
       JDict kvs \<Rightarrow> (case nonblank_field kvs ''audio_url'' of Some s \<Rightarrow> Inr s
         | None \<Rightarrow> (case nonblank_field kvs ''file_path'' of Some s \<Rightarrow> Inr s
         | None \<Rightarrow> (case nonblank_field kvs ''audio_base64'' of Some s \<Rightarrow> Inr (''base64:'' @ s)
         | None \<Rightarrow> (case nonblank_field kvs ''audio'' of Some s \<Rightarrow> Inr (''base64:'' @ s)
         | None \<Rightarrow> Inl (no_audio_error cfg)))))
     | _ \<Rightarrow> Inl (attribute_error ''no attribute get''))"

abbreviation "tts_path \<equiv> ''/synthesize''"
abbreviation "tts_done \<equiv> call_done ''tts'' ''synthesize'' tts_path"
abbreviation "tts_error cfg cls msg \<equiv> signalled cls msg ''tts'' ''synthesize'' (gsv_synthesis_idempotent cfg)"

text \<open>The inner \<open>_request\<close> of \<open>synthesize\<close>.\<close>

definition gsv_request :: "'n http_post \<Rightarrow> gsv_config \<Rightarrow> json \<Rightarrow> ('n, string) action" where
  "gsv_request post cfg payload w =
     (let started = clock w;
          (outcome, w1) = http_call (post (gsv_base_url cfg @ tts_path) payload) w;
          duration = clock w1 - started
      in case outcome of
        HttpConnectTimeout \<Rightarrow>
          (Inl (tts_error cfg TTSTimeoutError ''tts provider connect timeout'' ''timeout'' (Some ConnectTimeout) None),
           tts_done ''ERROR'' ''tts connect timeout'' ''failure'' ''connect_timeout'' duration w1)
      | HttpReadTimeout \<Rightarrow>
          (Inl (tts_error cfg TTSTimeoutError ''tts provider read timeout'' ''timeout'' (Some ReadTimeout) None),
           tts_done ''ERROR'' ''tts read timeout'' ''failure'' ''read_timeout'' duration w1)
      | HttpOtherTimeout \<Rightarrow>
          (Inl (tts_error cfg TTSTimeoutError ''tts provider total timeout'' ''timeout'' (Some TotalTimeout) None),
           tts_done ''ERROR'' ''tts timeout'' ''failure'' ''total_timeout'' duration w1)
      | HttpNetworkError \<Rightarrow>
          (Inl (tts_error cfg TTSBadResponseError ''tts transient network error'' ''network_error'' None None),
           tts_done ''ERROR'' ''tts transient network error'' ''failure'' ''network_error'' duration w1)
      | HttpOtherError \<Rightarrow>
          (Inl (tts_error cfg TTSBadResponseError ''tts transport error'' ''transport_error'' None None),
           tts_done ''ERROR'' ''tts call transport error'' ''failure'' ''error'' duration w1)
      | HttpRaised cls msg \<Rightarrow> (Inl (mk_exn (BuiltinError cls) msg), w1)
      | HttpResponse status body \<Rightarrow>
          if status \<ge> 400 then
            (Inl (tts_error cfg TTSBadResponseError (''tts status='' @ py_str_int status) ''http_status'' None (Some status)),
             tts_done ''ERROR'' ''tts call bad status'' ''failure'' (py_str_int status) duration w1)
          else (case body of
              None \<Rightarrow>
                (Inl (tts_error cfg TTSBadResponseError ''tts response is not valid json'' ''invalid_json'' None None),
                 tts_done ''ERROR'' ''tts invalid json'' ''failure'' ''invalid_json'' duration w1)
            | Some b \<Rightarrow> (case gsv_parse_audio_location cfg b of
                  Inl e \<Rightarrow> (Inl e, w1)
                | Inr location \<Rightarrow>
                    (Inr location, tts_done ''INFO'' ''tts call success'' ''success'' ''ok'' duration w1))))"

definition gsv_synthesize :: "'n http_post \<Rightarrow> gsv_config \<Rightarrow> tts_args \<Rightarrow> ('n, string) action" where
  "gsv_synthesize post cfg a w =
     (let payload = gsv_build_request_payload a in
      case run_with_retry (gsv_request post cfg payload) (gsv_retry_policy cfg)
             should_retry_by_taxonomy (Some (retry_logger ''tts'' tts_path)) w of
        (Inr location, w') \<Rightarrow> (Inr location, w')
      | (Inl e, w') \<Rightarrow>
          if isinstance e TTSTimeoutError \<or> isinstance e TTSBadResponseError then (Inl e, w')
          else (Inl (mk_exn TTSBadResponseError ''tts synthesis failed''), w'))"

definition gsv_ping :: "'n http_get \<Rightarrow> gsv_config \<Rightarrow> 'n io \<Rightarrow> bool \<times> 'n io" where
  "gsv_ping get cfg = http_ping ''tts'' get (gsv_base_url cfg)"

definition GPTSoVITSHTTPClient ::
  "'n http_post \<Rightarrow> 'n http_get \<Rightarrow> ('n, unit) action \<Rightarrow> gsv_config \<Rightarrow> 'n tts_port" where
  "GPTSoVITSHTTPClient post get aclose cfg = \<lparr>tts_synthesize = gsv_synthesize post cfg,
     tts_ping = gsv_ping get cfg, tts_close = aclose\<rparr>"

subsection \<open>One call\<close>

definition gsv_outcome :: "gsv_config \<Rightarrow> http_outcome \<Rightarrow> exn + string" where
  "gsv_outcome cfg outcome = (case outcome of
       HttpConnectTimeout \<Rightarrow> Inl (tts_error cfg TTSTimeoutError ''tts provider connect timeout'' ''timeout'' (Some ConnectTimeout) None)
     | HttpReadTimeout \<Rightarrow> Inl (tts_error cfg TTSTimeoutError ''tts provider read timeout'' ''timeout'' (Some ReadTimeout) None)
     | HttpOtherTimeout \<Rightarrow> Inl (tts_error cfg TTSTimeoutError ''tts provider total timeout'' ''timeout'' (Some TotalTimeout) None)
     | HttpNetworkError \<Rightarrow> Inl (tts_error cfg TTSBadResponseError ''tts transient network error'' ''network_error'' None None)
     | HttpOtherError \<Rightarrow> Inl (tts_error cfg TTSBadResponseError ''tts transport error'' ''transport_error'' None None)
     | HttpRaised cls msg \<Rightarrow> Inl (mk_exn (BuiltinError cls) msg)
     | HttpResponse status body \<Rightarrow>
         if status \<ge> 400 then Inl (tts_error cfg TTSBadResponseError (''tts status='' @ py_str_int status) ''http_status'' None (Some status))
         else (case body of
             None \<Rightarrow> Inl (tts_error cfg TTSBadResponseError ''tts response is not valid json'' ''invalid_json'' None None)
           | Some b \<Rightarrow> gsv_parse_audio_location cfg b))"

lemma gsv_request_outcome:
  "fst (gsv_request post cfg pl w) = gsv_outcome cfg (fst (post (gsv_base_url cfg @ tts_path) pl (net w)))"
  by (simp add: gsv_request_def gsv_outcome_def Let_def http_call_def split: prod.splits http_outcome.splits option.splits sum.splits)

lemma gsv_request_frame:
  "draws (snd (gsv_request post cfg pl w)) = draws w" "lags (snd (gsv_request post cfg pl w)) = lags w"
  "net (snd (gsv_request post cfg pl w)) = snd (snd (post (gsv_base_url cfg @ tts_path) pl (net w)))"
  "clock (snd (gsv_request post cfg pl w)) =
     clock w + max 0 (fst (snd (post (gsv_base_url cfg @ tts_path) pl (net w))))"
  by (simp_all add: gsv_request_def Let_def http_call_def frame_simps
      split: prod.splits http_outcome.splits option.splits sum.splits)

lemma gsv_parse_Inl: "gsv_parse_audio_location cfg b = Inl e \<Longrightarrow>
   e = attribute_error ''no attribute get'' \<or> e = no_audio_error cfg"
  by (auto simp: gsv_parse_audio_location_def split: json.splits option.splits)

lemma gsv_parse_no_retry:
  assumes "gsv_parse_audio_location cfg b = Inl e"
  shows "\<not> should_retry_by_taxonomy e" and "wf_exn e"
  using gsv_parse_Inl [OF assms] by (auto simp: taxonomy attribute_error_def no_audio_error_def)

lemma gsv_outcome_retry:
  assumes "gsv_outcome cfg r = Inl e"
  shows "should_retry_by_taxonomy e \<longleftrightarrow> retryable_outcome (gsv_synthesis_idempotent cfg) r"
  using assms
  by (auto simp: gsv_outcome_def retryable_outcome_def taxonomy gsv_parse_no_retry(1)
      split: http_outcome.splits option.splits if_splits)

lemma gsv_outcome_wf: "gsv_outcome cfg r = Inl e \<Longrightarrow> wf_exn e"
  by (auto simp: gsv_outcome_def gsv_parse_no_retry(2) split: http_outcome.splits option.splits if_splits)

interpretation gsv: provider_call "gsv_request (counted post) cfg payload" "retry_logger ''tts'' tts_path" wf_exn
  for post :: "'n http_post" and cfg payload
proof unfold_locales
  fix w w' :: "('n \<times> nat) io" and r
  assume "gsv_request (counted post) cfg payload w = (r, w')"
  then show "snd (net w') = Suc (snd (net w))"
    using gsv_request_frame(3) [of "counted post" cfg payload w] by (simp add: counted_sel)
next
  fix w w' :: "('n \<times> nat) io" and e
  assume "gsv_request (counted post) cfg payload w = (Inl e, w')"
  then show "wf_exn e"
    using gsv_request_outcome [of "counted post" cfg payload w] by (auto intro: gsv_outcome_wf)
qed (simp add: frame_simps)

lemma gsv_synthesize_snd: "snd (gsv_synthesize post cfg a w) =
   snd (run_with_retry (gsv_request post cfg (gsv_build_request_payload a)) (gsv_retry_policy cfg)
     should_retry_by_taxonomy (Some (retry_logger ''tts'' tts_path)) w)"
  by (simp add: gsv_synthesize_def Let_def split: prod.splits sum.splits)

lemma gsv_synthesize_Inr: "gsv_synthesize post cfg a w = (Inr c, w') \<longleftrightarrow>
   run_with_retry (gsv_request post cfg (gsv_build_request_payload a)) (gsv_retry_policy cfg)
     should_retry_by_taxonomy (Some (retry_logger ''tts'' tts_path)) w = (Inr c, w')"
  by (auto simp: gsv_synthesize_def Let_def split: prod.splits sum.splits if_splits)

subsection \<open>Properties\<close>

abbreviation tts_reply :: "'n http_post \<Rightarrow> gsv_config \<Rightarrow> tts_args \<Rightarrow> 'n \<Rightarrow> http_outcome \<times> real \<times> 'n" where
  "tts_reply post cfg args \<equiv> post (gsv_base_url cfg @ tts_path) (gsv_build_request_payload args)"

lemma gsv_request_step:
  "fst (gsv_request post cfg (gsv_build_request_payload args) w) = gsv_outcome cfg (fst (tts_reply post cfg args (net w)))"
  "net (snd (gsv_request post cfg (gsv_build_request_payload args) w)) = snd (snd (tts_reply post cfg args (net w)))"
  by (simp_all add: gsv_request_outcome gsv_request_frame)

lemma isinstance_tts_leaf:
  "isinstance e TTSTimeoutError \<longleftrightarrow> exn_cls e = TTSTimeoutError"
  "isinstance e TTSBadResponseError \<longleftrightarrow> exn_cls e = TTSBadResponseError"
  by (cases "exn_cls e"; simp add: isinstance_def is_subclass.simps)+

text \<open>
  C7: a synthesis that is not declared idempotent is never sent twice once the server may have
  acted on it: whatever the first answer is (a reply, a 5xx, a read timeout, a broken
  connection), other than a connect timeout or a 429, one request is sent, however many
  retries are configured.
\<close>

theorem gsv_synthesize_at_most_once:
  assumes "\<not> gsv_synthesis_idempotent cfg"
    and "fst (tts_reply post cfg args (fst (net w))) = answer"
    and "answer \<noteq> HttpConnectTimeout" "\<And>b. answer \<noteq> HttpResponse 429 b"
  shows "snd (net (snd (gsv_synthesize (counted post) cfg args w))) = Suc (snd (net w))"
proof -
  let ?op = "gsv_request (counted post) cfg (gsv_build_request_payload args)"
  have outcome: "fst (?op w) = gsv_outcome cfg answer"
    using assms(2) by (simp add: gsv_request_step counted_sel)
  show ?thesis
  proof (cases "gsv_outcome cfg answer")
    case (Inl e)
    then have "\<not> should_retry_by_taxonomy e"
      using gsv_outcome_retry [OF Inl] assms(1,3,4)
      by (auto simp: retryable_outcome_def split: http_outcome.splits)
    moreover obtain w1 where "?op w = (Inl e, w1)" using outcome Inl by (metis prod.collapse)
    ultimately show ?thesis unfolding gsv_synthesize_snd by (intro gsv.single_request)
  next
    case (Inr loc)
    then obtain w1 where op: "?op w = (Inr loc, w1)" using outcome by (metis prod.collapse)
    then have "snd (net w1) = Suc (snd (net w))" by (rule gsv.one_request)
    then show ?thesis by (simp add: gsv_synthesize_snd run_with_retry_success [where op = ?op, OF op])
  qed
qed

lemma gsv_synthesize_raises:
  "case fst (gsv_synthesize post cfg args w) of Inr location \<Rightarrow> location \<noteq> []
   | Inl e \<Rightarrow> exn_cls e \<in> {TTSTimeoutError, TTSBadResponseError} \<and> wf_exn e"
proof -
  let ?op = "gsv_request post cfg (gsv_build_request_payload args)"
  obtain r w' where run: "run_with_retry ?op
      (gsv_retry_policy cfg) should_retry_by_taxonomy (Some (retry_logger ''tts'' tts_path)) w = (r, w')"
    by fastforce
  have from_call: "(\<exists>o'. r = gsv_outcome cfg o') \<or> (\<exists>m. r = Inl (mk_exn (BuiltinError ''OverflowError'') m))"
    using run_with_retry_result [OF run] gsv_request_step(1) by (metis fst_conv)
  show ?thesis
  proof (cases r)
    case (Inl e)
    then have "wf_exn e" using from_call gsv_outcome_wf by (metis Inl_inject wf_mk_exn)
    then show ?thesis
      by (auto simp: gsv_synthesize_def Let_def run Inl isinstance_tts_leaf)
  next
    case (Inr loc)
    then obtain o' where o': "gsv_outcome cfg o' = Inr loc" using from_call by auto
    have field: "nonblank_field kvs k = Some s \<Longrightarrow> s \<noteq> []" for kvs k s
      by (auto simp: nonblank_field_def py_defs split: option.splits json.splits if_splits)
    have "loc \<noteq> []" using o'
      by (auto simp: gsv_outcome_def gsv_parse_audio_location_def dest: field
          split: http_outcome.splits if_splits option.splits json.splits)
    then show ?thesis by (simp add: gsv_synthesize_def Let_def run Inr)
  qed
qed

text \<open>
  Whatever the server does, \<open>synthesize\<close> returns a location or raises \<open>TTSTimeoutError\<close>
  or \<open>TTSBadResponseError\<close> with the error code of its class; no other exception leaves the
  client.
\<close>

theorem gsv_synthesize_closed:
  "case fst (gsv_synthesize post cfg args w) of
     Inr location \<Rightarrow> location \<noteq> []
   | Inl e \<Rightarrow> (exn_cls e = TTSTimeoutError \<and> exn_code e = Some ''TTS_TIMEOUT'') \<or>
              (exn_cls e = TTSBadResponseError \<and> exn_code e = Some ''TTS_BAD_RESPONSE'')"
  using gsv_synthesize_raises [of post cfg args w] by (auto simp: wf_exn_def split: sum.splits)

text \<open>
  C34: with requests that take at most \<open>c\<close> seconds and an event loop that resumes on time,
  \<open>synthesize\<close> ends at most \<open>c\<close> after the retry budget: the budget bounds when the last
  request may start, not when it ends.
\<close>

theorem gsv_synthesize_duration:
  assumes "\<And>n. fst (snd (tts_reply post cfg args n)) \<le> c" "0 \<le> c"
    and "0 \<le> base_delay_sec (gsv_retry_policy cfg)" "0 \<le> max_delay_sec (gsv_retry_policy cfg)"
    and "draws_ok w" "lags w = []"
  shows "clock (snd (gsv_synthesize post cfg args w))
    \<le> clock w + max 0 (total_timeout_sec (gsv_retry_policy cfg)) + c"
proof -
  let ?op = "gsv_request post cfg (gsv_build_request_payload args)"
  obtain r w' where run: "run_with_retry ?op
      (gsv_retry_policy cfg) should_retry_by_taxonomy (Some (retry_logger ''tts'' tts_path)) w = (r, w')"
    by fastforce
  have op: "clock w' \<le> clock w + c \<and> lags w' = lags w \<and> draws w' = draws w" if "?op w = (r, w')" for w r w'
    using gsv_request_frame [of post cfg "gsv_build_request_payload args" w] assms(1) [of "net w"] assms(2) that by simp
  have "clock w' \<le> clock w + max 0 (total_timeout_sec (gsv_retry_policy cfg)) + c"
    by (rule retry_loop_duration [OF run [unfolded run_with_retry_def Let_def] assms(5,6) _ op])
      (use assms(3,4) in \<open>simp_all add: frame_simps\<close>)
  then show ?thesis by (simp add: gsv_synthesize_snd run)
qed

text \<open>A server that times out on its first request, after two seconds, and then answers.\<close>

definition demo_tts_post :: "nat http_post" where
  "demo_tts_post url payload n = (if n = 0 then HttpReadTimeout
     else HttpResponse 200 (Some (JDict [(''audio_url'', JStr ''a.wav'')])), 2, Suc n)"

definition demo_tts_cfg :: "bool \<Rightarrow> gsv_config" where
  "demo_tts_cfg = GPTSoVITSHTTPClient_init ''u'' 3 0.2 2 True 0.2 15"

definition demo_tts_io :: "'n \<Rightarrow> 'n io" where
  "demo_tts_io n = \<lparr>clock = 0, draws = [], lags = [], net = n, metrics = [], logs = []\<rparr>"

definition demo_tts_args :: tts_args where
  "demo_tts_args = \<lparr>tts_text = ''hi'', tts_voice_id = None, tts_speaker = None, tts_language = None,
     tts_reference_audio_url = None\<rparr>"

theorem gsv_synthesize_at_most_once_witness:
  "snd (net (snd (gsv_synthesize (counted demo_tts_post) (demo_tts_cfg False) demo_tts_args (demo_tts_io (0, 7))))) = 8"
proof -
  have "snd (net (snd (gsv_synthesize (counted demo_tts_post) (demo_tts_cfg False) demo_tts_args (demo_tts_io (0, 7)))))
    = Suc (snd (net (demo_tts_io (0 :: nat, 7))))"
    by (rule gsv_synthesize_at_most_once [where answer = HttpReadTimeout])
      (simp_all add: demo_tts_cfg_def GPTSoVITSHTTPClient_init_def demo_tts_post_def demo_tts_io_def)
  then show ?thesis by (simp add: demo_tts_io_def)
qed

theorem gsv_synthesize_duration_witness:
  "clock (snd (gsv_synthesize demo_tts_post (demo_tts_cfg True) demo_tts_args (demo_tts_io 0))) \<le> 17"
proof -
  have "clock (snd (gsv_synthesize demo_tts_post (demo_tts_cfg True) demo_tts_args (demo_tts_io 0)))
    \<le> clock (demo_tts_io (0 :: nat)) + max 0 (total_timeout_sec (gsv_retry_policy (demo_tts_cfg True))) + 2"
    by (rule gsv_synthesize_duration)
      (simp_all add: demo_tts_cfg_def GPTSoVITSHTTPClient_init_def demo_tts_post_def demo_tts_io_def draws_ok_def)
  then show ?thesis by (simp add: demo_tts_cfg_def GPTSoVITSHTTPClient_init_def demo_tts_io_def)
qed

end
