(* ===== verification/Session_Store.thy ===== *)
theory Session_Store
  imports Messages
begin

text \<open>
  The session repository port (\<open>app/ports/outbound/session_repository.py\<close>), the contract
  its clients rely on as the locale \<open>session_repository\<close>, and the in-memory
  implementation (\<open>inmemory_session_repository.py\<close>).
\<close>

subsection \<open>The port and its contract\<close>

record 's session_port =
  repo_get_history :: "string \<Rightarrow> 's \<Rightarrow> (exn + chat_message list) \<times> 's"
  repo_append_messages :: "string \<Rightarrow> chat_message list \<Rightarrow> int option \<Rightarrow> 's \<Rightarrow> (exn + unit) \<times> 's"
  repo_set_history :: "string \<Rightarrow> chat_message list \<Rightarrow> 's \<Rightarrow> (exn + unit) \<times> 's"
  repo_ping :: "'s \<Rightarrow> bool \<times> 's"
  repo_close :: "'s \<Rightarrow> (exn + unit) \<times> 's"

text \<open>
  What \<open>append_messages\<close> promises of the history: the messages at its end, and where
  \<open>max_messages\<close> is given only the most recent ones kept.
\<close>

definition keep_recent :: "int \<Rightarrow> 'a list \<Rightarrow> 'a list" where
  "keep_recent n xs = drop (length xs - nat n) xs"

definition limited :: "int option \<Rightarrow> 'a list \<Rightarrow> 'a list" where
  "limited limit xs = (case limit of None \<Rightarrow> xs | Some n \<Rightarrow> keep_recent n xs)"

definition appended :: "int \<Rightarrow> chat_message list \<Rightarrow> chat_message list \<Rightarrow> chat_message list" where
  "appended n h ms = (if ms = [] then h else keep_recent n (h @ ms))"

lemma length_keep_recent: "length (keep_recent n xs) = min (length xs) (nat n)"
  by (simp add: keep_recent_def)

lemma keep_recent_idem [simp]: "keep_recent n (keep_recent n xs) = keep_recent n xs"
  by (simp add: keep_recent_def)

lemma keep_recent_append: "keep_recent n (keep_recent n xs @ ys) = keep_recent n (xs @ ys)"
  by (cases "nat n \<le> length xs") (simp_all add: keep_recent_def add.commute)

lemma keep_recent_all: "length xs \<le> nat n \<Longrightarrow> keep_recent n xs = xs"
  by (simp add: keep_recent_def)

lemma keep_recent_suffix: "length ys \<le> nat n \<Longrightarrow> \<exists>zs. keep_recent n (xs @ ys) = zs @ ys"
  by (auto simp: keep_recent_def)

lemma set_keep_recent: "set (keep_recent n xs) \<subseteq> set xs"
  by (simp add: keep_recent_def set_drop_subset)

text \<open>
  The contract. \<open>history s sid\<close> is the history that a read returns; \<open>ready s sid\<close> says that
  the contract applies to the session in this state (it always does for the in-memory
  store). An operation that raises leaves every history as it was, and raises
  \<open>SessionStoreError\<close>.
\<close>

locale session_repository =
  fixes port :: "'s session_port"
    and history :: "'s \<Rightarrow> string \<Rightarrow> chat_message list"
    and ready :: "'s \<Rightarrow> string \<Rightarrow> bool"
  assumes get_Inr: "repo_get_history port sid s = (Inr h, s') \<Longrightarrow> h = history s sid"
    and get_keeps: "repo_get_history port sid s = (r, s') \<Longrightarrow> history s' = history s \<and> ready s' = ready s"
    and get_Inl: "repo_get_history port sid s = (Inl e, s') \<Longrightarrow> exn_cls e = SessionStoreError \<and> wf_exn e"
    and append_Inr: "repo_append_messages port sid ms (Some n) s = (Inr (), s') \<Longrightarrow> ready s sid \<Longrightarrow>
      history s' = (history s)(sid := appended n (history s sid) ms)"
    and append_Inl: "repo_append_messages port sid ms (Some n) s = (Inl e, s') \<Longrightarrow>
      history s' = history s \<and> exn_cls e = SessionStoreError \<and> wf_exn e"
    and append_ready: "repo_append_messages port sid ms (Some n) s = (u, s') \<Longrightarrow> ready s x \<Longrightarrow> ready s' x"
begin

text \<open>A read after a successful append sees it.\<close>

lemma append_get:
  assumes "repo_append_messages port sid ms (Some n) s = (Inr (), s1)" "ready s sid"
    and "repo_get_history port sid s1 = (Inr h, s2)"
  shows "h = appended n (history s sid) ms"
  using append_Inr [OF assms(1,2)] get_Inr [OF assms(3)] by simp

text \<open>Other sessions are not touched, whether the append succeeds or not.\<close>

lemma append_other:
  assumes "repo_append_messages port sid ms (Some n) s = (r, s')" "ready s sid" "x \<noteq> sid"
  shows "history s' x = history s x"
proof (cases r)
  case (Inl e)
  with assms(1) show ?thesis using append_Inl by auto
next
  case (Inr u)
  with assms show ?thesis using append_Inr by auto
qed

lemma append_length:
  assumes "repo_append_messages port sid ms (Some n) s = (Inr (), s')" "ready s sid" "ms \<noteq> []"
  shows "length (history s' sid) \<le> nat n"
  using append_Inr [OF assms(1,2)] assms(3) by (simp add: appended_def length_keep_recent)

end

subsection \<open>The in-memory store\<close>

text \<open>
  \<open>_store\<close> is a \<open>defaultdict(list)\<close>. Every operation runs without a suspension point
  between its first and last access (under the lock for the writes), so it is one step.
  Reads and writes copy their lists, so no list is shared with a caller.
\<close>

type_synonym mem_store = "string \<rightharpoonup> chat_message list"

definition mem_bucket :: "mem_store \<Rightarrow> string \<Rightarrow> chat_message list" where
  "mem_bucket store sid = (case store sid of None \<Rightarrow> [] | Some b \<Rightarrow> b)"

definition mem_get_history :: "string \<Rightarrow> mem_store \<Rightarrow> (exn + chat_message list) \<times> mem_store" where
  "mem_get_history session_id store = (Inr (mem_bucket store session_id), store)"

definition mem_append_messages ::
  "string \<Rightarrow> chat_message list \<Rightarrow> int option \<Rightarrow> mem_store \<Rightarrow> (exn + unit) \<times> mem_store" where
  "mem_append_messages session_id messages max_messages store =
     (if messages = [] then (Inr (), store)
      else let bucket = mem_bucket store session_id @ messages;
               store1 = store(session_id \<mapsto> bucket)
        in (Inr (), case max_messages of
              None \<Rightarrow> store1
            | Some n \<Rightarrow>
                if n \<le> 0 then store1(session_id \<mapsto> [])
                else if int (length bucket) > n then store1(session_id \<mapsto> py_neg_slice n bucket)
                else store1))"

definition mem_set_history :: "string \<Rightarrow> chat_message list \<Rightarrow> mem_store \<Rightarrow> (exn + unit) \<times> mem_store" where
  "mem_set_history session_id messages store = (Inr (), store(session_id \<mapsto> messages))"

definition InMemorySessionRepository :: "mem_store session_port" where
  "InMemorySessionRepository = \<lparr>repo_get_history = mem_get_history,
     repo_append_messages = mem_append_messages, repo_set_history = mem_set_history,
     repo_ping = (\<lambda>s. (True, s)), repo_close = (\<lambda>s. (Inr (), s))\<rparr>"

lemma mem_port_sel [simp]:
  "repo_get_history InMemorySessionRepository = mem_get_history"
  "repo_append_messages InMemorySessionRepository = mem_append_messages"
  "repo_set_history InMemorySessionRepository = mem_set_history"
  "repo_ping InMemorySessionRepository s = (True, s)"
  by (simp_all add: InMemorySessionRepository_def)

lemma mem_bucket_upd [simp]: "mem_bucket (store(sid \<mapsto> b)) = (mem_bucket store)(sid := b)"
  by (simp add: mem_bucket_def fun_eq_iff)

lemma mem_append_bucket:
  "fst (mem_append_messages sid ms (Some n) store) = Inr ()"
  "mem_bucket (snd (mem_append_messages sid ms (Some n) store)) =
     (mem_bucket store)(sid := appended n (mem_bucket store sid) ms)"
  by (auto simp: mem_append_messages_def Let_def appended_def keep_recent_def py_neg_slice_pos)

lemma mem_append_bucketD:
  "mem_append_messages sid ms (Some n) store = (r, store') \<Longrightarrow>
   r = Inr () \<and> mem_bucket store' = (mem_bucket store)(sid := appended n (mem_bucket store sid) ms)"
  using mem_append_bucket [of sid ms n store] by simp

interpretation mem: session_repository InMemorySessionRepository mem_bucket "\<lambda>_ _. True"
  by unfold_locales (auto simp: mem_get_history_def dest: mem_append_bucketD)

subsection \<open>Refinement: a store behaves like the in-memory one\<close>

text \<open>
  The two operations the orchestration uses, as data, and a run of a list of them. The
  in-memory store is the abstract specification: the operations that a store completes give
  the results that the in-memory store gives to the same operations, and those that fail have
  no effect.
\<close>

datatype store_op = Get_Op string | Append_Op string "chat_message list" int

datatype store_result = Got "chat_message list" | Appended | Failed

fun run_op :: "'s session_port \<Rightarrow> store_op \<Rightarrow> 's \<Rightarrow> store_result \<times> 's" where
  "run_op port (Get_Op sid) s = (case repo_get_history port sid s of
       (Inl _, s1) \<Rightarrow> (Failed, s1) | (Inr h, s1) \<Rightarrow> (Got h, s1))"
| "run_op port (Append_Op sid ms n) s = (case repo_append_messages port sid ms (Some n) s of
       (Inl _, s1) \<Rightarrow> (Failed, s1) | (Inr _, s1) \<Rightarrow> (Appended, s1))"

fun run_ops :: "'s session_port \<Rightarrow> store_op list \<Rightarrow> 's \<Rightarrow> store_result list \<times> 's" where
  "run_ops port [] s = ([], s)"
| "run_ops port (op # ops) s =
     (let (r, s1) = run_op port op s; (rs, s2) = run_ops port ops s1 in (r # rs, s2))"

definition completed :: "store_op list \<Rightarrow> store_result list \<Rightarrow> (store_op \<times> store_result) list" where
  "completed ops rs = filter (\<lambda>(op, r). r \<noteq> Failed) (zip ops rs)"

lemma completed_Cons: "completed (op # ops) (r # rs) = (if r = Failed then [] else [(op, r)]) @ completed ops rs"
  by (simp add: completed_def)

context session_repository
begin

lemma run_op_refines:
  assumes "run_op port op s = (r, s')" "\<forall>x. ready s x" "history s = mem_bucket m"
  shows "(\<forall>x. ready s' x) \<and> (if r = Failed then history s' = mem_bucket m
    else \<exists>m'. run_op InMemorySessionRepository op m = (r, m') \<and> history s' = mem_bucket m')"
proof (cases op)
  case (Get_Op sid)
  with assms show ?thesis
    by (auto simp: mem_get_history_def split: prod.splits sum.splits dest: get_Inr get_keeps)
next
  case (Append_Op sid ms n)
  obtain q m' where m': "mem_append_messages sid ms (Some n) m = (q, m')" by fastforce
  note abs = mem_append_bucketD [OF m']
  obtain u where u: "repo_append_messages port sid ms (Some n) s = (u, s')"
      "r = (case u of Inl _ \<Rightarrow> Failed | Inr _ \<Rightarrow> Appended)"
    using assms(1) Append_Op by (auto split: prod.splits sum.splits)
  have "\<forall>x. ready s' x" using append_ready [OF u(1)] assms(2) by blast
  moreover have "history s' = mem_bucket m" if "u = Inl e" for e
    using append_Inl [of sid ms n s e s'] u(1) that assms(3) by simp
  moreover have "history s' = mem_bucket m'" if "u = Inr ()"
    using append_Inr [of sid ms n s s'] u(1) that assms(2,3) abs by simp
  ultimately show ?thesis using Append_Op u(2) m' abs by (cases u) auto
qed

lemma run_ops_refine:
  assumes "run_ops port ops s = (rs, s')" "\<forall>x. ready s x" "history s = mem_bucket m"
  shows "\<exists>m'. run_ops InMemorySessionRepository (map fst (completed ops rs)) m = (map snd (completed ops rs), m') \<and>
    history s' = mem_bucket m'"
  using assms
proof (induction ops arbitrary: s m rs)
  case Nil
  then show ?case by (simp add: completed_def)
next
  case (Cons op ops)
  obtain r s1 where r: "run_op port op s = (r, s1)" by fastforce
  obtain qs where qs: "run_ops port ops s1 = (qs, s')" "rs = r # qs"
    using Cons.prems(1) r by (auto split: prod.splits)
  note step = run_op_refines [OF r Cons.prems(2,3)]
  show ?case
  proof (cases "r = Failed")
    case True
    with step Cons.IH [OF qs(1)] qs(2) show ?thesis by (simp add: completed_Cons)
  next
    case False
    with step obtain m1 where m1: "run_op InMemorySessionRepository op m = (r, m1)" "history s1 = mem_bucket m1"
      by auto
    from Cons.IH [OF qs(1) _ m1(2)] step m1(1) False qs(2) show ?thesis by (auto simp: completed_Cons)
  qed
qed

end

subsection \<open>Properties\<close>

text \<open>
  A read after an append over the in-memory store, for every limit (none, zero, negative
  or positive) and every session: the session appended to holds its old messages and the new
  ones, trimmed to the most recent where there is a limit; every other session is unchanged.
\<close>

theorem mem_append_then_get:
  "fst (mem_get_history x (snd (mem_append_messages sid ms limit store))) =
     Inr (if x = sid \<and> ms \<noteq> []
          then limited limit (mem_bucket store sid @ ms)
          else mem_bucket store x)"
proof (cases limit)
  case None
  then show ?thesis by (auto simp: mem_get_history_def mem_append_messages_def limited_def)
next
  case (Some n)
  then show ?thesis by (auto simp: mem_get_history_def mem_append_bucket(2) appended_def limited_def)
qed

end
