(* ===== verification/Chat_Service.thy ===== *)
theory Chat_Service
  imports LLM_Client TTS_Client Session_Store
begin

text \<open>
  The chat use case (\<open>app/application/services/chat_orchestration_service.py\<close>):
  \<open>chat\<close>, the turn it stores, and \<open>readiness_details\<close>. The streaming half of the same class
  is in \<open>Chat_Stream\<close>. The service acts on the state of the session repository and on the
  runtime of the provider clients; it reaches both through the ports it was built with.
\<close>

record ('s, 'n) app =
  app_repo :: 's
  app_io :: "'n io"

record ('s, 'n) chat_service =
  svc_llm :: "'n llm_port"
  svc_tts :: "'n tts_port"
  svc_repo :: "'s session_port"
  svc_max_history_turns :: int
  svc_stream_chunk_size :: int

definition ChatOrchestrationService ::
  "'n llm_port \<Rightarrow> 'n tts_port \<Rightarrow> 's session_port \<Rightarrow> int \<Rightarrow> int \<Rightarrow> ('s, 'n) chat_service" where
  "ChatOrchestrationService llm tts repo turns chunk_size =
     \<lparr>svc_llm = llm, svc_tts = tts, svc_repo = repo, svc_max_history_turns = turns,
      svc_stream_chunk_size = max 1 chunk_size\<rparr>"

record chat_result =
  res_text :: string
  res_audio_url :: "string option"

subsection \<open>Operations\<close>

abbreviation "empty_message_error \<equiv> mk_exn ValidationError ''message must not be empty''"
abbreviation "empty_response_error \<equiv> mk_exn ExternalServiceError ''empty response from llm''"

text \<open>\<open>max_messages=max(0, self._max_history_turns * 2)\<close>\<close>

definition history_limit :: "('s, 'n) chat_service \<Rightarrow> int" where
  "history_limit svc = max 0 (svc_max_history_turns svc * 2)"

definition store_turn ::
  "('s, 'n) chat_service \<Rightarrow> string \<Rightarrow> string \<Rightarrow> string \<Rightarrow> 's \<Rightarrow> (exn + unit) \<times> 's" where
  "store_turn svc session_id user_message assistant_text =
     repo_append_messages (svc_repo svc) session_id
       [user_msg user_message, assistant_msg assistant_text] (Some (history_limit svc))"

definition chunk_text :: "('s, 'n) chat_service \<Rightarrow> string \<Rightarrow> string list" where
  "chunk_text svc text = py_chunks (nat (svc_stream_chunk_size svc)) text"

text \<open>
  \<open>chat\<close>. The optional arguments of the synthesis come as a \<^typ>\<open>tts_args\<close> whose text is
  set to the assistant's reply.
\<close>

definition chat ::
  "('s, 'n) chat_service \<Rightarrow> string \<Rightarrow> string \<Rightarrow> bool \<Rightarrow> tts_args \<Rightarrow> ('s, 'n) app \<Rightarrow>
     (exn + chat_result) \<times> ('s, 'n) app" where
  "chat svc session_id user_message generate_audio voice a =
     (if py_strip user_message = [] then (Inl empty_message_error, a)
      else case repo_get_history (svc_repo svc) session_id (app_repo a) of
        (Inl e, s1) \<Rightarrow> (Inl e, a\<lparr>app_repo := s1\<rparr>)
      | (Inr history, s1) \<Rightarrow>
          let prompt_messages = build_prompt_history history user_message (svc_max_history_turns svc)
          in case llm_generate (svc_llm svc) prompt_messages (app_io a) of
            (Inl e, w1) \<Rightarrow> (Inl e, a\<lparr>app_repo := s1, app_io := w1\<rparr>)
          | (Inr assistant_text, w1) \<Rightarrow>
              if assistant_text = []
              then (Inl empty_response_error, a\<lparr>app_repo := s1, app_io := w1\<rparr>)
              else case store_turn svc session_id user_message assistant_text s1 of
                (Inl e, s2) \<Rightarrow> (Inl e, a\<lparr>app_repo := s2, app_io := w1\<rparr>)
              | (Inr _, s2) \<Rightarrow>
                  if \<not> generate_audio
                  then (Inr \<lparr>res_text = assistant_text, res_audio_url = None\<rparr>,
                        a\<lparr>app_repo := s2, app_io := w1\<rparr>)
                  else case tts_synthesize (svc_tts svc) (voice\<lparr>tts_text := assistant_text\<rparr>) w1 of
                    (Inl e, w2) \<Rightarrow> (Inl e, a\<lparr>app_repo := s2, app_io := w2\<rparr>)
                  | (Inr audio_url, w2) \<Rightarrow>
                      (Inr \<lparr>res_text = assistant_text, res_audio_url = Some audio_url\<rparr>,
                       a\<lparr>app_repo := s2, app_io := w2\<rparr>))"

text \<open>\<open>readiness_details\<close>: the three pings in order, and their summary.\<close>

definition up_down :: "bool \<Rightarrow> string" where
  "up_down ok = (if ok then ''up'' else ''down'')"

definition readiness_details ::
  "('s, 'n) chat_service \<Rightarrow> ('s, 'n) app \<Rightarrow> (bool \<times> (string \<times> string) list) \<times> ('s, 'n) app" where
  "readiness_details svc a =
     (let (ok1, s1) = repo_ping (svc_repo svc) (app_repo a);
          (ok2, w1) = llm_ping (svc_llm svc) (app_io a);
          (ok3, w2) = tts_ping (svc_tts svc) w1
      in ((ok1 \<and> ok2 \<and> ok3,
           [(''session_repository'', up_down ok1), (''llm_client'', up_down ok2),
            (''tts_client'', up_down ok3)]),
          a\<lparr>app_repo := s1, app_io := w2\<rparr>))"

subsection \<open>Histories made of turns\<close>

text \<open>
  A history of whole turns: a user message that is not blank, then a reply that is not
  empty. \<open>session_ok\<close> is the invariant of every session: whole turns, no more than the
  service keeps.
\<close>

fun dialogue :: "chat_message list \<Rightarrow> bool" where
  "dialogue [] = True"
| "dialogue [m] = False"
| "dialogue (m # r # rest) \<longleftrightarrow> role m = ''user'' \<and> py_strip (content m) \<noteq> [] \<and>
     role r = ''assistant'' \<and> content r \<noteq> [] \<and> dialogue rest"

definition session_ok :: "int \<Rightarrow> chat_message list \<Rightarrow> bool" where
  "session_ok turns h \<longleftrightarrow> dialogue h \<and> int (length h) \<le> max 0 (turns * 2)"

lemma dialogue_append: "dialogue xs \<Longrightarrow> dialogue ys \<Longrightarrow> dialogue (xs @ ys)"
  by (induction xs rule: dialogue.induct) auto

lemma dialogue_even: "dialogue xs \<Longrightarrow> even (length xs)"
  by (induction xs rule: dialogue.induct) auto

lemma dialogue_drop: "dialogue xs \<Longrightarrow> dialogue (drop (2 * n) xs)"
proof (induction n arbitrary: xs)
  case (Suc n)
  then show ?case by (cases xs rule: dialogue.cases) auto
qed simp

lemma dialogue_keep: "dialogue xs \<Longrightarrow> dialogue (drop (length xs - 2 * n) xs)"
proof -
  assume d: "dialogue xs"
  then obtain k where "length xs = 2 * k" using dialogue_even by (auto elim: evenE)
  then have "length xs - 2 * n = 2 * (k - n)" by simp
  with dialogue_drop [OF d, of "k - n"] show ?thesis by simp
qed

lemma nat_double: "nat (t * 2) = 2 * nat t" "nat (max 0 (t * 2)) = 2 * nat t"
  by simp_all

lemma session_ok_turn:
  assumes "session_ok (svc_max_history_turns svc) h" "py_strip um \<noteq> []" "reply \<noteq> []"
  shows "session_ok (svc_max_history_turns svc)
    (keep_recent (history_limit svc) (h @ [user_msg um, assistant_msg reply]))"
proof -
  have "dialogue (h @ [user_msg um, assistant_msg reply])"
    using assms by (intro dialogue_append) (simp_all add: session_ok_def)
  from dialogue_keep [OF this, of "nat (svc_max_history_turns svc)"] show ?thesis
    by (simp add: session_ok_def keep_recent_def history_limit_def nat_double del: drop_append)
qed

text \<open>The prompt of a chat: whole turns, then the new message, no longer than the service keeps.\<close>

lemma prompt_of_session:
  assumes "session_ok turns h"
  shows "\<exists>ts. build_prompt_history h um turns = ts @ [user_msg um] \<and> session_ok turns ts"
  using assms
  by (auto simp: build_prompt_history_eq session_ok_def nat_double intro: dialogue_keep)

subsection \<open>The turn of a chat, against the contract of the repository\<close>

context session_repository
begin

lemma store_turn_Inr:
  assumes "svc_repo svc = port" "store_turn svc sid um reply s = (Inr u, s')" "ready s sid"
  shows "history s' = (history s)(sid :=
    keep_recent (history_limit svc) (history s sid @ [user_msg um, assistant_msg reply]))"
  using append_Inr [of sid "[user_msg um, assistant_msg reply]" "history_limit svc" s s'] assms
  by (simp add: store_turn_def appended_def)

lemma store_turn_Inl:
  assumes "svc_repo svc = port" "store_turn svc sid um reply s = (Inl e, s')"
  shows "history s' = history s" "exn_cls e = SessionStoreError" "wf_exn e"
  using append_Inl [of sid "[user_msg um, assistant_msg reply]" "history_limit svc" s e s'] assms
  by (simp_all add: store_turn_def)

lemma stored_turn_ok:
  assumes "history s' = (history s)(sid := keep_recent (history_limit svc)
       (history s sid @ [user_msg um, assistant_msg reply]))"
    and "py_strip um \<noteq> []" "reply \<noteq> []" "\<And>x. session_ok (svc_max_history_turns svc) (history s x)"
  shows "session_ok (svc_max_history_turns svc) (history s' x)"
  using assms(2-4) by (simp add: assms(1) session_ok_turn)

text \<open>The stages of a chat that returns.\<close>

lemma chat_InrE:
  assumes "chat svc sid um au v a = (Inr res, a')" "svc_repo svc = port" "ready (app_repo a) sid"
  obtains w1 where "py_strip um \<noteq> []" "res_text res \<noteq> []"
    "llm_generate (svc_llm svc) (build_prompt_history (history (app_repo a) sid) um (svc_max_history_turns svc))
       (app_io a) = (Inr (res_text res), w1)"
    "history (app_repo a') = (history (app_repo a))(sid := keep_recent (history_limit svc)
       (history (app_repo a) sid @ [user_msg um, assistant_msg (res_text res)]))"
    "\<not> au \<and> res_audio_url res = None \<and> app_io a' = w1 \<or>
     au \<and> (\<exists>url. res_audio_url res = Some url \<and>
       tts_synthesize (svc_tts svc) (v\<lparr>tts_text := res_text res\<rparr>) w1 = (Inr url, app_io a'))"
proof -
  from assms(1) have um: "py_strip um \<noteq> []" by (auto simp: chat_def split: if_splits)
  obtain r1 s1 where g: "repo_get_history port sid (app_repo a) = (r1, s1)" by fastforce
  with assms um obtain h where r1: "r1 = Inr h" by (cases r1) (auto simp: chat_def)
  have h: "h = history (app_repo a) sid" "history s1 = history (app_repo a)" "ready s1 = ready (app_repo a)"
    using get_Inr [OF g [unfolded r1]] get_keeps [OF g] by simp_all
  let ?pr = "build_prompt_history h um (svc_max_history_turns svc)"
  obtain r2 w1 where l: "llm_generate (svc_llm svc) ?pr (app_io a) = (r2, w1)" by fastforce
  with assms um g r1 obtain reply where r2: "r2 = Inr reply" "reply \<noteq> []"
    by (cases r2) (auto simp: chat_def split: if_splits)
  obtain r3 s2 where st: "store_turn svc sid um reply s1 = (r3, s2)" by fastforce
  with assms um g r1 l r2 have r3: "r3 = Inr ()" by (cases r3) (auto simp: chat_def)
  have hs: "history s2 = (history (app_repo a))(sid := keep_recent (history_limit svc)
       (history (app_repo a) sid @ [user_msg um, assistant_msg reply]))"
    using store_turn_Inr [OF assms(2) st [unfolded r3]] assms(3) h by simp
  have rest: "(if \<not> au then (Inr \<lparr>res_text = reply, res_audio_url = None\<rparr>, a\<lparr>app_repo := s2, app_io := w1\<rparr>)
      else case tts_synthesize (svc_tts svc) (v\<lparr>tts_text := reply\<rparr>) w1 of
          (Inl e, w2) \<Rightarrow> (Inl e, a\<lparr>app_repo := s2, app_io := w2\<rparr>)
        | (Inr url, w2) \<Rightarrow> (Inr \<lparr>res_text = reply, res_audio_url = Some url\<rparr>, a\<lparr>app_repo := s2, app_io := w2\<rparr>))
      = (Inr res, a')"
    using assms(1,2) um g r1 l r2 st r3 by (simp add: chat_def)
  then have "res_text res = reply" "app_repo a' = s2"
    "\<not> au \<and> res_audio_url res = None \<and> app_io a' = w1 \<or>
     au \<and> (\<exists>url. res_audio_url res = Some url \<and>
       tts_synthesize (svc_tts svc) (v\<lparr>tts_text := reply\<rparr>) w1 = (Inr url, app_io a'))"
    by (auto split: if_splits prod.splits sum.splits)
  with um l r2 hs h(1) show ?thesis by (intro that) simp_all
qed

text \<open>
  The stages at which a chat that raises can have stopped: only a failure of the synthesis
  leaves the turn in the history.
\<close>

lemma chat_InlE:
  assumes "chat svc sid um au v a = (Inl e, a')" "svc_repo svc = port" "ready (app_repo a) sid"
  obtains (blank) "py_strip um = []" "e = empty_message_error" "a' = a"
  | (read) "exn_cls e = SessionStoreError" "wf_exn e" "history (app_repo a') = history (app_repo a)"
  | (llm) w1 pr where "llm_generate (svc_llm svc) pr (app_io a) = (Inl e, w1)"
      "history (app_repo a') = history (app_repo a)"
  | (empty) "e = empty_response_error" "history (app_repo a') = history (app_repo a)"
  | (store) "exn_cls e = SessionStoreError" "wf_exn e" "history (app_repo a') = history (app_repo a)"
  | (tts) reply w1 where "au" "py_strip um \<noteq> []" "reply \<noteq> []"
      "tts_synthesize (svc_tts svc) (v\<lparr>tts_text := reply\<rparr>) w1 = (Inl e, app_io a')"
      "history (app_repo a') = (history (app_repo a))(sid := keep_recent (history_limit svc)
         (history (app_repo a) sid @ [user_msg um, assistant_msg reply]))"
proof (cases "py_strip um = []")
  case True
  with assms(1) show ?thesis by (intro blank) (auto simp: chat_def)
next
  case um: False
  obtain r1 s1 where g: "repo_get_history port sid (app_repo a) = (r1, s1)" by fastforce
  note s1 = get_keeps [OF g]
  show ?thesis
  proof (cases r1)
    case (Inl e1)
    with assms um g show ?thesis using get_Inl [OF g [unfolded Inl]] s1
      by (intro read) (auto simp: chat_def)
  next
    case r1: (Inr h)
    let ?pr = "build_prompt_history h um (svc_max_history_turns svc)"
    obtain r2 w1 where l: "llm_generate (svc_llm svc) ?pr (app_io a) = (r2, w1)" by fastforce
    show ?thesis
    proof (cases r2)
      case (Inl e2)
      with assms um g r1 l s1 show ?thesis by (intro llm [of ?pr w1]) (auto simp: chat_def)
    next
      case r2: (Inr reply)
      show ?thesis
      proof (cases "reply = []")
        case True
        with assms um g r1 l r2 s1 show ?thesis by (intro empty) (auto simp: chat_def)
      next
        case ne: False
        obtain r3 s2 where st: "store_turn svc sid um reply s1 = (r3, s2)" by fastforce
        show ?thesis
        proof (cases r3)
          case (Inl e3)
          with assms um g r1 l r2 ne st s1 show ?thesis
            using store_turn_Inl [OF assms(2) st [unfolded Inl]] by (intro store) (auto simp: chat_def)
        next
          case r3: (Inr u)
          have hs: "history s2 = (history (app_repo a))(sid := keep_recent (history_limit svc)
              (history (app_repo a) sid @ [user_msg um, assistant_msg reply]))"
            using store_turn_Inr [OF assms(2) st [unfolded r3]] assms(3) s1 by simp
          with assms um g r1 l r2 ne st r3 show ?thesis
            by (intro tts [of reply w1])
              (use um ne in \<open>auto simp: chat_def split: if_splits prod.splits sum.splits\<close>)
        qed
      qed
    qed
  qed
qed

end

subsection \<open>Properties\<close>



lemma last_user_prompt [simp]: "last_user_content (build_prompt_history h um t) = um"
  by (simp add: last_user_content_def build_prompt_history_eq)

lemma fst_mem_append [simp]: "fst (mem_append_messages sid ms mx s) = Inr ()"
  by (simp add: mem_append_messages_def Let_def)

text \<open>A service with both stubs and the in-memory store.\<close>

definition stub_service :: "(mem_store, nat) chat_service" where
  "stub_service = ChatOrchestrationService VLLMStubClient GPTSoVITSStubClient InMemorySessionRepository 1 16"

definition idle_app :: "mem_store \<Rightarrow> (mem_store, nat) app" where
  "idle_app s = \<lparr>app_repo = s,
     app_io = \<lparr>clock = 0, draws = [], lags = [], net = 0, metrics = [], logs = []\<rparr>\<rparr>"

definition no_voice :: tts_args where
  "no_voice = \<lparr>tts_text = [], tts_voice_id = None, tts_speaker = None, tts_language = None,
     tts_reference_audio_url = None\<rparr>"

lemma stub_service_sel [simp]:
  "svc_llm stub_service = VLLMStubClient" "svc_tts stub_service = GPTSoVITSStubClient"
  "svc_repo stub_service = InMemorySessionRepository" "svc_max_history_turns stub_service = 1"
  by (simp_all add: stub_service_def ChatOrchestrationService_def)


text \<open>A synthesis server that always fails.\<close>

definition failing_tts :: "'n tts_port" where
  "failing_tts = GPTSoVITSStubClient\<lparr>tts_synthesize := (\<lambda>_ w. (Inl (mk_exn TTSTimeoutError ''down''), w))\<rparr>"


end
