(* ===== verification/Rate_Limiter.thy ===== *)
theory Rate_Limiter
  imports Errors
begin

text \<open>
  The rate limiter port (\<open>app/ports/outbound/rate_limiter.py\<close>), its contract as the
  locale \<open>rate_limiter\<close>, and the in-memory fixed-window limiter
  (\<open>inmemory_rate_limiter.py\<close>). \<open>consume\<close> reads the wall clock once; the reading
  \<open>int(time.time())\<close> is its argument \<open>now\<close>.
\<close>

subsection \<open>The port\<close>

record rate_limit_decision =
  dec_allowed :: bool
  dec_limit :: int
  dec_remaining :: int
  dec_reset_at_epoch_sec :: int

text \<open>\<open>consume tenant_id route limit window_sec now\<close>\<close>

type_synonym 'l consume_fun =
  "string \<Rightarrow> string \<Rightarrow> int \<Rightarrow> int \<Rightarrow> int \<Rightarrow> 'l \<Rightarrow> (exn + rate_limit_decision) \<times> 'l"

record 'l limiter_port =
  lim_consume :: "'l consume_fun"
  lim_ping :: "'l \<Rightarrow> bool \<times> 'l"
  lim_close :: "'l \<Rightarrow> (exn + unit) \<times> 'l"

subsection \<open>Windows and keys\<close>

text \<open>\<open>now - (now % window_sec)\<close>, for a non-zero window: Python's \<open>%\<close> is \<^const>\<open>modulo\<close>.\<close>

definition window_start :: "int \<Rightarrow> int \<Rightarrow> int" where
  "window_start now window_sec = now - now mod window_sec"

definition rate_key :: "string \<Rightarrow> string \<Rightarrow> int \<Rightarrow> string" where
  "rate_key tenant_id route start = tenant_id @ '':'' @ route @ '':'' @ py_str_int start"

text \<open>The decision both limiters build from the count after this call.\<close>

definition rate_decision :: "int \<Rightarrow> int \<Rightarrow> int \<Rightarrow> rate_limit_decision" where
  "rate_decision count limit reset_at =
     \<lparr>dec_allowed = count \<le> limit, dec_limit = limit, dec_remaining = max 0 (limit - count),
      dec_reset_at_epoch_sec = reset_at\<rparr>"

lemma rate_decision_sel [simp]:
  "dec_allowed (rate_decision c l r) \<longleftrightarrow> c \<le> l" "dec_limit (rate_decision c l r) = l"
  "dec_remaining (rate_decision c l r) = max 0 (l - c)"
  "dec_reset_at_epoch_sec (rate_decision c l r) = r"
  by (simp_all add: rate_decision_def)

subsection \<open>The in-memory limiter\<close>

text \<open>
  \<open>_counters\<close> maps a key to the count and the end of its window. The entry is read and
  written under the lock, without a suspension point in between, so \<open>consume\<close> is one step.
\<close>

type_synonym counters = "string \<rightharpoonup> int \<times> int"

definition mem_consume :: "counters consume_fun" where
  "mem_consume tenant_id route limit window_sec now counters =
     (if window_sec = 0
      then (Inl (mk_exn (BuiltinError ''ZeroDivisionError'') ''integer modulo by zero''), counters)
      else let start = window_start now window_sec;
               reset_at = start + window_sec;
               key = rate_key tenant_id route start;
               count = (case counters key of None \<Rightarrow> 0 | Some (c, _) \<Rightarrow> c) + 1
        in (Inr (rate_decision count limit reset_at), counters(key \<mapsto> (count, reset_at))))"

definition mem_limiter_close :: "counters \<Rightarrow> (exn + unit) \<times> counters" where
  "mem_limiter_close counters = (Inr (), Map.empty)"

definition InMemoryRateLimiter :: "counters limiter_port" where
  "InMemoryRateLimiter = \<lparr>lim_consume = mem_consume, lim_ping = (\<lambda>c. (True, c)),
     lim_close = mem_limiter_close\<rparr>"

lemma mem_limiter_sel [simp]: "lim_consume InMemoryRateLimiter = mem_consume"
  "lim_ping InMemoryRateLimiter c = (True, c)"
  by (simp_all add: InMemoryRateLimiter_def)

subsection \<open>The contract\<close>

text \<open>
  A run of calls: the list holds the bucket's tenant and route, the limit and the time of
  each; the result is how many of those for the bucket \<open>k\<close> were allowed.
\<close>

fun admitted :: "'l consume_fun \<Rightarrow> int \<Rightarrow> string \<Rightarrow> (string \<times> string \<times> int \<times> int) list \<Rightarrow> 'l \<Rightarrow> int" where
  "admitted consume win k [] s = 0"
| "admitted consume win k ((t, r, limit, now) # cs) s = (case consume t r limit win now s of
       (Inr d, s') \<Rightarrow> (if rate_key t r (window_start now win) = k \<and> dec_allowed d then 1 else 0)
           + admitted consume win k cs s'
     | (Inl e, s') \<Rightarrow> admitted consume win k cs s')"

text \<open>
  \<open>used s k\<close> is how many units the bucket \<open>k\<close> has consumed in state \<open>s\<close>, and \<open>ok_window\<close> says
  for which windows the contract applies. A call that returns has charged exactly its own
  bucket with one unit and decided by the new count; a call that raises has charged nothing.
\<close>

locale rate_limiter =
  fixes consume :: "'l consume_fun"
    and used :: "'l \<Rightarrow> string \<Rightarrow> int"
    and ok_window :: "int \<Rightarrow> bool"
  assumes consume_Inr: "ok_window win \<Longrightarrow> consume t r limit win now s = (Inr d, s') \<Longrightarrow>
      used s' = (used s)(rate_key t r (window_start now win) := used s (rate_key t r (window_start now win)) + 1) \<and>
      d = rate_decision (used s' (rate_key t r (window_start now win))) limit (window_start now win + win)"
    and consume_Inl: "ok_window win \<Longrightarrow> consume t r limit win now s = (Inl e, s') \<Longrightarrow> used s' = used s"
begin

lemma used_mono: "ok_window win \<Longrightarrow> consume t r limit win now s = (x, s') \<Longrightarrow> used s k \<le> used s' k"
  by (cases x) (auto dest: consume_Inr consume_Inl)

lemma remaining_nonneg: "ok_window win \<Longrightarrow> consume t r limit win now s = (Inr d, s') \<Longrightarrow> 0 \<le> dec_remaining d"
  using consume_Inr by fastforce

text \<open>Two buckets do not interfere.\<close>

lemma consume_other:
  assumes "ok_window win" "consume t r limit win now s = (x, s')" "k \<noteq> rate_key t r (window_start now win)"
  shows "used s' k = used s k"
  using assms by (cases x) (auto dest: consume_Inr consume_Inl)

text \<open>
  No bucket admits more than its limit: the number admitted by a run is at most what the
  limit leaves over the count at the start.
\<close>

lemma admitted_bound:
  assumes win: "ok_window win"
    and "\<And>t r l now. (t, r, l, now) \<in> set cs \<Longrightarrow> rate_key t r (window_start now win) = k \<Longrightarrow> l \<le> L"
  shows "admitted consume win k cs s \<le> max 0 (L - used s k)"
  using assms(2)
proof (induction cs arbitrary: s)
  case Nil
  then show ?case by simp
next
  case (Cons c cs)
  obtain t r l now where c: "c = (t, r, l, now)" by (cases c)
  obtain x s' where st: "consume t r l win now s = (x, s')" by fastforce
  have IH: "admitted consume win k cs s' \<le> max 0 (L - used s' k)"
    by (rule Cons.IH) (use Cons.prems in auto)
  show ?case
  proof (cases x)
    case (Inl e)
    with IH st show ?thesis by (simp add: c consume_Inl [OF win, of t r l now s e s'])
  next
    case (Inr d)
    note law = consume_Inr [OF win st [unfolded Inr]]
    show ?thesis
    proof (cases "rate_key t r (window_start now win) = k")
      case True
      then have "l \<le> L" using Cons.prems [of t r l now] by (simp add: c)
      moreover have "used s' k = used s k + 1" "dec_allowed d \<longleftrightarrow> used s k + 1 \<le> l"
        using law True by auto
      ultimately show ?thesis using IH st Inr True by (auto simp: c)
    next
      case False
      then have "used s' k = used s k" using law by auto
      with IH st Inr False show ?thesis by (simp add: c)
    qed
  qed
qed

end

subsection \<open>The in-memory limiter keeps the contract\<close>

definition mem_used :: "counters \<Rightarrow> string \<Rightarrow> int" where
  "mem_used counters k = (case counters k of None \<Rightarrow> 0 | Some (c, _) \<Rightarrow> c)"

lemma mem_used_upd [simp]: "mem_used (cs(k \<mapsto> (c, r))) = (mem_used cs)(k := c)"
  by (simp add: mem_used_def fun_eq_iff)

lemma mem_consume_eq:
  "win \<noteq> 0 \<Longrightarrow> mem_consume t r l win now cs =
     (let k = rate_key t r (window_start now win); reset = window_start now win + win
      in (Inr (rate_decision (mem_used cs k + 1) l reset), cs(k \<mapsto> (mem_used cs k + 1, reset))))"
  by (simp add: mem_consume_def Let_def mem_used_def split: option.splits)

interpretation memlim: rate_limiter mem_consume mem_used "\<lambda>win. win \<noteq> 0"
proof
  fix t r l and win :: int and now s d s'
  assume "win \<noteq> 0" "mem_consume t r l win now s = (Inr d, s')"
  then show "mem_used s' = (mem_used s)(rate_key t r (window_start now win) := mem_used s (rate_key t r (window_start now win)) + 1) \<and>
      d = rate_decision (mem_used s' (rate_key t r (window_start now win))) l (window_start now win + win)"
    by (auto simp: mem_consume_eq Let_def)
next
  fix t r l and win :: int and now s e s'
  assume "win \<noteq> 0" "mem_consume t r l win now s = (Inl e, s')"
  then show "mem_used s' = mem_used s" by (auto simp: mem_consume_def Let_def split: if_splits)
qed

text \<open>A limiter that never raises for the windows of its contract: the in-memory one.\<close>

locale reliable_limiter = rate_limiter +
  assumes consume_total: "ok_window win \<Longrightarrow> \<exists>d s'. consume t r limit win now s = (Inr d, s')"
begin

lemma consumeE:
  assumes "ok_window win"
  obtains s' where "consume t r limit win now s =
      (Inr (rate_decision (used s (rate_key t r (window_start now win)) + 1) limit (window_start now win + win)), s')"
    "used s' = (used s)(rate_key t r (window_start now win) := used s (rate_key t r (window_start now win)) + 1)"
proof -
  obtain d s' where st: "consume t r limit win now s = (Inr d, s')"
    using consume_total [OF assms] by blast
  note law = consume_Inr [OF assms st]
  then have "used s' (rate_key t r (window_start now win)) = used s (rate_key t r (window_start now win)) + 1"
    by simp
  with st law that [of s'] show ?thesis by simp
qed

end

interpretation memlim: reliable_limiter mem_consume mem_used "\<lambda>win. win \<noteq> 0"
  by unfold_locales (simp add: mem_consume_eq Let_def)

subsection \<open>Windows\<close>

lemma window_contains:
  assumes "0 < win"
  shows "window_start now win \<le> now" "now < window_start now win + win"
    "window_start now win mod win = 0"
  using pos_mod_sign [OF assms, of now] pos_mod_bound [OF assms, of now]
  unfolding window_start_def by (linarith, linarith, simp add: minus_mod_eq_mult_div)

lemma window_start_unique:
  assumes "0 < win" "window_start a win \<le> b" "b < window_start a win + win"
  shows "window_start b win = window_start a win"
proof -
  obtain q where q: "window_start a win = win * q"
    unfolding window_start_def minus_mod_eq_mult_div by blast
  have "b mod win = (win * q + (b - win * q)) mod win" by simp
  also have "\<dots> = (b - win * q) mod win" by (simp only: mod_mult_self4)
  also have "\<dots> = b - win * q" using assms(2,3) by (simp add: q)
  finally show ?thesis by (simp add: q) (simp add: window_start_def)
qed

text \<open>
  The key determines the window, and the tenant and route where the route has no colon.
\<close>

lemma split_last_colon:
  assumes "xs @ '':'' @ a = ys @ '':'' @ b" "CHR '':'' \<notin> set a" "CHR '':'' \<notin> set b"
  shows "xs = ys \<and> a = b"
proof -
  have e: "rev a @ CHR '':'' # rev xs = rev b @ CHR '':'' # rev ys"
    using assms(1) by (metis append_Cons append_Nil append_assoc rev.simps(2) rev_append)
  have na: "CHR '':'' \<notin> set (rev a)" "CHR '':'' \<notin> set (rev b)" using assms(2,3) by simp_all
  have tw: "takeWhile (\<lambda>c. c \<noteq> CHR '':'') (u @ CHR '':'' # v) = u" if "CHR '':'' \<notin> set u" for u v
    using that by (induction u) auto
  have "rev a = takeWhile (\<lambda>c. c \<noteq> CHR '':'') (rev b @ CHR '':'' # rev ys)"
    by (simp only: e [symmetric] tw [OF na(1)])
  then have "rev a = rev b" by (simp only: tw [OF na(2)])
  with e show ?thesis by simp
qed

lemma rate_key_window:
  assumes "rate_key t r s = rate_key t' r' s'"
  shows "s = s'" and "t @ '':'' @ r = t' @ '':'' @ r'"
proof -
  have "(t @ '':'' @ r) @ '':'' @ py_str_int s = (t' @ '':'' @ r') @ '':'' @ py_str_int s'"
    using assms by (simp add: rate_key_def)
  from split_last_colon [OF this] show "s = s'" "t @ '':'' @ r = t' @ '':'' @ r'"
    by (simp_all add: py_str_int_inj)
qed

lemma rate_key_inj:
  assumes "rate_key t r s = rate_key t' r' s'" "CHR '':'' \<notin> set r" "CHR '':'' \<notin> set r'"
  shows "t = t' \<and> r = r' \<and> s = s'"
  using rate_key_window [OF assms(1)] split_last_colon [OF _ assms(2,3)] by auto

subsection \<open>Properties\<close>

text \<open>
  What a call of the in-memory limiter answers and charges, for a positive window: it
  charges one unit to the bucket of this tenant, route and window and nothing to any other;
  it allows the call when the count after it is within the limit; it reports what is left; and
  the reset time it reports is in the future, at most a window away, and is the first time at
  which this tenant and route use a new bucket.
\<close>

theorem mem_consume_decision:
  assumes "0 < win"
  shows "case mem_consume t r limit win now cs of
      (Inl e, cs') \<Rightarrow> False
    | (Inr d, cs') \<Rightarrow>
        (let k = rate_key t r (window_start now win); count = mem_used cs k + 1
         in mem_used cs' = (mem_used cs)(k := count) \<and>
            (dec_allowed d \<longleftrightarrow> count \<le> limit) \<and> dec_limit d = limit \<and> dec_remaining d = max 0 (limit - count) \<and>
            now < dec_reset_at_epoch_sec d \<and> dec_reset_at_epoch_sec d \<le> now + win \<and>
            (\<forall>later. now \<le> later \<longrightarrow>
              (rate_key t r (window_start later win) = k \<longleftrightarrow> later < dec_reset_at_epoch_sec d)))"
proof -
  let ?s = "window_start now win"
  have same: "rate_key t r (window_start later win) = rate_key t r ?s \<longleftrightarrow> later < ?s + win" if "now \<le> later" for later
  proof
    assume "rate_key t r (window_start later win) = rate_key t r ?s"
    then have "window_start later win = ?s" by (rule rate_key_window(1))
    then show "later < ?s + win" using window_contains(2) [OF assms, of later] by simp
  next
    assume "later < ?s + win"
    then have "window_start later win = ?s"
      using window_contains(1) [OF assms, of now] that by (intro window_start_unique [OF assms]) simp_all
    then show "rate_key t r (window_start later win) = rate_key t r ?s" by simp
  qed
  show ?thesis
    using assms window_contains(1,2) [OF assms, of now] same by (simp add: mem_consume_eq Let_def)
qed

theorem mem_consume_decision_witness:
  "case mem_consume ''acme'' ''chat_sync'' 2 60 61 Map.empty of (Inl e, _) \<Rightarrow> False
    | (Inr d, cs') \<Rightarrow> dec_allowed d \<and> dec_remaining d = 1 \<and> 61 < dec_reset_at_epoch_sec d \<and> dec_reset_at_epoch_sec d \<le> 121"
  using mem_consume_decision [where win = 60 and t = "''acme''" and r = "''chat_sync''" and limit = 2 and now = 61 and cs = Map.empty]
  by (auto simp: mem_used_def Let_def split: prod.splits sum.splits)

end
