(* ===== verification/Health.thy ===== *)
theory Health
  imports Chat_Service Rate_Limiter Settings
begin

text \<open>
  The readiness probe (\<open>app/api/routes/health.py\<close>): one dependency, and the whole
  \<open>/ready\<close> handler with its policy.
\<close>

subsection \<open>State\<close>

text \<open>
  The state of the running application: the session store, the rate limiter, the runtime, and
  \<open>readiness_last_success\<close>, the time stamps of the last good probes.
\<close>

record ('s, 'l, 'n) site =
  site_repo :: 's
  site_limiter :: 'l
  site_io :: "'n io"
  site_cache :: "string \<rightharpoonup> string"

record ('s, 'l, 'n) container =
  ct_llm :: "'n llm_port"
  ct_tts :: "'n tts_port"
  ct_repo :: "'s session_port"
  ct_limiter :: "'l limiter_port"
  ct_service :: "('s, 'n) chat_service"

text \<open>
  The entry of a dependency in the answer. \<open>pr_last_success_ts\<close> is \<^const>\<open>None\<close> where the
  key is absent, \<open>Some None\<close> where it is \<open>null\<close>.
\<close>

record probe_result =
  pr_status :: string
  pr_latency_ms :: "real option"
  pr_reason :: "string option"
  pr_last_success_ts :: "string option option"

subsection \<open>One probe\<close>

text \<open>
  A probe may raise; \<open>stamp\<close> is the ISO text of the current wall-clock time, which the
  environment decides.
\<close>

definition probe_dependency ::
  "string \<Rightarrow> string \<Rightarrow> (('s, 'l, 'n) site \<Rightarrow> (exn + bool) \<times> ('s, 'l, 'n) site) \<Rightarrow> ('s, 'l, 'n) site \<Rightarrow>
     (bool \<times> probe_result) \<times> ('s, 'l, 'n) site" where
  "probe_dependency stamp key probe st =
     (let started = clock (site_io st);
          (r, st1) = probe st;
          ok = (r = Inr True);
          reason = (case r of Inr True \<Rightarrow> None | Inr False \<Rightarrow> Some ''health probe returned false''
            | Inl _ \<Rightarrow> Some ''health probe raised exception'');
          duration_sec = clock (site_io st1) - started;
          latency_ms = py_round2 (duration_sec * 1000);
          cache = (if ok then (site_cache st1)(key \<mapsto> stamp) else site_cache st1);
          w = log_event ''INFO'' ''readiness probe executed''
                [(''path'', VStr ''/ready''), (''provider'', VStr key), (''latency_ms'', VReal latency_ms),
                 (''result'', VStr (if ok then ''success'' else ''failure'')),
                 (''status'', VStr (if ok then ''ok'' else ''fail''))]
                (observe_readiness_probe key (if ok then ''success'' else ''failure'') duration_sec (site_io st1))
      in ((ok, \<lparr>pr_status = (if ok then ''ok'' else ''fail''), pr_latency_ms = Some latency_ms, pr_reason = reason,
                pr_last_success_ts = (if key = ''llm'' \<or> key = ''tts'' then Some (cache key) else None)\<rparr>),
          st1\<lparr>site_cache := cache, site_io := w\<rparr>))"

definition llm_probe :: "('s, 'l, 'n) container \<Rightarrow> ('s, 'l, 'n) site \<Rightarrow> (exn + bool) \<times> ('s, 'l, 'n) site" where
  "llm_probe ct st = (let (b, w) = llm_ping (ct_llm ct) (site_io st) in (Inr b, st\<lparr>site_io := w\<rparr>))"

definition tts_probe :: "('s, 'l, 'n) container \<Rightarrow> ('s, 'l, 'n) site \<Rightarrow> (exn + bool) \<times> ('s, 'l, 'n) site" where
  "tts_probe ct st = (let (b, w) = tts_ping (ct_tts ct) (site_io st) in (Inr b, st\<lparr>site_io := w\<rparr>))"

definition session_probe :: "('s, 'l, 'n) container \<Rightarrow> ('s, 'l, 'n) site \<Rightarrow> (exn + bool) \<times> ('s, 'l, 'n) site" where
  "session_probe ct st = (let (b, s) = repo_ping (ct_repo ct) (site_repo st) in (Inr b, st\<lparr>site_repo := s\<rparr>))"

definition limiter_probe :: "('s, 'l, 'n) container \<Rightarrow> ('s, 'l, 'n) site \<Rightarrow> (exn + bool) \<times> ('s, 'l, 'n) site" where
  "limiter_probe ct st = (let (b, l) = lim_ping (ct_limiter ct) (site_limiter st) in (Inr b, st\<lparr>site_limiter := l\<rparr>))"

subsection \<open>The handler\<close>

text \<open>The status of the whole, and the HTTP status.\<close>

definition readiness_policy :: "bool list \<Rightarrow> string \<times> int" where
  "readiness_policy oks =
     (if list_all id oks then (''ok'', 200) else if list_ex id oks then (''degraded'', 200) else (''fail'', 503))"

definition incomplete_probe :: "string option option \<Rightarrow> probe_result" where
  "incomplete_probe ts = \<lparr>pr_status = ''fail'', pr_latency_ms = None, pr_reason = Some ''bootstrap incomplete'',
     pr_last_success_ts = ts\<rparr>"

record readiness =
  rd_http_code :: int
  rd_status :: string
  rd_dependencies :: "(string \<times> probe_result) list"

definition ready_route ::
  "(string \<Rightarrow> string) \<Rightarrow> settings \<Rightarrow> bool \<Rightarrow> ('s, 'l, 'n) container \<Rightarrow> ('s, 'l, 'n) site \<Rightarrow>
     readiness \<times> ('s, 'l, 'n) site" where
  "ready_route stamp settings bootstrap_complete ct st =
     (if \<not> bootstrap_complete
      then (\<lparr>rd_http_code = 503, rd_status = ''fail'', rd_dependencies =
               [(''llm'', incomplete_probe (Some None)), (''tts'', incomplete_probe (Some None)),
                (''session_store'', incomplete_probe None)]\<rparr>, st)
      else let ((llm_ok, llm_res), st1) = probe_dependency (stamp ''llm'') ''llm'' (llm_probe ct) st;
               ((tts_ok, tts_res), st2) = probe_dependency (stamp ''tts'') ''tts'' (tts_probe ct) st1;
               ((session_ok, session_res), st3) =
                 probe_dependency (stamp ''session_store'') ''session_store'' (session_probe ct) st2;
               (limit_probes, st4) = (if RATE_LIMIT_ENABLED settings
                 then (let ((ok, res), s) = probe_dependency (stamp ''rate_limiter'') ''rate_limiter'' (limiter_probe ct) st3
                       in ([(ok, res)], s))
                 else ([], st3));
               oks = [llm_ok, tts_ok, session_ok] @ map fst limit_probes;
               (overall, http_code) = readiness_policy oks
           in (\<lparr>rd_http_code = http_code, rd_status = overall, rd_dependencies =
                  [(''llm'', llm_res), (''tts'', tts_res), (''session_store'', session_res)] @
                  map (\<lambda>p. (''rate_limiter'', snd p)) limit_probes\<rparr>, st4))"

subsection \<open>Properties\<close>

lemma probe_dependency_sel:
  "fst (fst (probe_dependency stamp key probe st)) \<longleftrightarrow> fst (probe st) = Inr True"
  "pr_status (snd (fst (probe_dependency stamp key probe st))) = (if fst (probe st) = Inr True then ''ok'' else ''fail'')"
  "site_cache (snd (probe_dependency stamp key probe st)) =
     (if fst (probe st) = Inr True then (site_cache (snd (probe st)))(key \<mapsto> stamp) else site_cache (snd (probe st)))"
  "pr_last_success_ts (snd (fst (probe_dependency stamp key probe st))) =
     (if key = ''llm'' \<or> key = ''tts'' then Some (site_cache (snd (probe_dependency stamp key probe st)) key) else None)"
  by (simp_all add: probe_dependency_def Let_def split: prod.splits)

lemma probe_status_iff:
  "pr_status (snd (fst (probe_dependency stamp key probe st))) = ''ok'' \<longleftrightarrow> fst (fst (probe_dependency stamp key probe st))"
  by (simp add: probe_dependency_sel)

lemma probe_cache [simp]:
  "site_cache (snd (llm_probe ct st)) = site_cache st" "site_cache (snd (tts_probe ct st)) = site_cache st"
  "site_cache (snd (session_probe ct st)) = site_cache st" "site_cache (snd (limiter_probe ct st)) = site_cache st"
  by (simp_all add: llm_probe_def tts_probe_def session_probe_def limiter_probe_def split: prod.splits)

text \<open>
  The answer of \<open>/ready\<close> follows from the dependencies it lists: it is 503 exactly when
  none of them is up, and \<open>ok\<close> exactly when all of them are; before the bootstrap is complete
  all are reported down; the rate limiter is listed exactly when it is enabled.
\<close>

theorem ready_policy:
  "case ready_route stamp settings bootstrap_complete ct st of (rd, st') \<Rightarrow>
     rd_http_code rd = (if list_ex (\<lambda>(k, p). pr_status p = ''ok'') (rd_dependencies rd) then 200 else 503) \<and>
     (rd_status rd = ''ok'' \<longleftrightarrow> list_all (\<lambda>(k, p). pr_status p = ''ok'') (rd_dependencies rd)) \<and>
     (rd_status rd = ''fail'' \<longleftrightarrow> rd_http_code rd = 503) \<and>
     map fst (rd_dependencies rd) = [''llm'', ''tts'', ''session_store''] @
       (if bootstrap_complete \<and> RATE_LIMIT_ENABLED settings then [''rate_limiter''] else [])"
proof (cases bootstrap_complete)
  case False
  then show ?thesis by (simp add: ready_route_def incomplete_probe_def)
next
  case True
  obtain ok1 p1 st1 where 1: "probe_dependency (stamp ''llm'') ''llm'' (llm_probe ct) st = ((ok1, p1), st1)"
    by (metis surj_pair)
  obtain ok2 p2 st2 where 2: "probe_dependency (stamp ''tts'') ''tts'' (tts_probe ct) st1 = ((ok2, p2), st2)"
    by (metis surj_pair)
  obtain ok3 p3 st3 where 3: "probe_dependency (stamp ''session_store'') ''session_store'' (session_probe ct) st2
      = ((ok3, p3), st3)" by (metis surj_pair)
  obtain ok4 p4 st4 where 4: "probe_dependency (stamp ''rate_limiter'') ''rate_limiter'' (limiter_probe ct) st3
      = ((ok4, p4), st4)" by (metis surj_pair)
  have ok: "pr_status p1 = ''ok'' \<longleftrightarrow> ok1" "pr_status p2 = ''ok'' \<longleftrightarrow> ok2" "pr_status p3 = ''ok'' \<longleftrightarrow> ok3"
    "pr_status p4 = ''ok'' \<longleftrightarrow> ok4"
    using probe_status_iff 1 2 3 4 by (metis fst_conv snd_conv)+
  show ?thesis
    using True by (simp add: ready_route_def 1 2 3 4 ok readiness_policy_def)
qed

text \<open>
  The time stamp \<open>/ready\<close> reports for the model and the synthesis is that of the last good
  probe: this one's where the probe was good, otherwise the one remembered before.
\<close>

theorem ready_last_success:
  "case ready_route stamp settings True ct st of (rd, st') \<Rightarrow>
     (case map_of (rd_dependencies rd) ''llm'' of None \<Rightarrow> False | Some p \<Rightarrow>
        pr_last_success_ts p = Some (if pr_status p = ''ok'' then Some (stamp ''llm'') else site_cache st ''llm'')) \<and>
     (case map_of (rd_dependencies rd) ''tts'' of None \<Rightarrow> False | Some p \<Rightarrow>
        pr_last_success_ts p = Some (if pr_status p = ''ok'' then Some (stamp ''tts'') else site_cache st ''tts''))"
proof -
  obtain ok1 p1 st1 where 1: "probe_dependency (stamp ''llm'') ''llm'' (llm_probe ct) st = ((ok1, p1), st1)"
    by (metis surj_pair)
  obtain ok2 p2 st2 where 2: "probe_dependency (stamp ''tts'') ''tts'' (tts_probe ct) st1 = ((ok2, p2), st2)"
    by (metis surj_pair)
  have llm: "pr_last_success_ts p1 = Some (if pr_status p1 = ''ok'' then Some (stamp ''llm'') else site_cache st ''llm'')"
    and cache: "site_cache st1 ''tts'' = site_cache st ''tts''"
    using probe_dependency_sel [of "stamp ''llm''" "''llm''" "llm_probe ct" st] 1 by (auto split: if_splits)
  have tts: "pr_last_success_ts p2 = Some (if pr_status p2 = ''ok'' then Some (stamp ''tts'') else site_cache st ''tts'')"
    using probe_dependency_sel [of "stamp ''tts''" "''tts''" "tts_probe ct" st1] 2 cache by (auto split: if_splits)
  show ?thesis
    using llm tts by (simp add: ready_route_def 1 2 Let_def split: prod.splits)
qed

end
