(* ===== verification/Bootstrap.thy ===== *)
theory Bootstrap
  imports Health Chat_Service
begin

text \<open>
  The composition root (\<open>app/bootstrap.py\<close>): which adapter each setting selects, with which
  arguments, and how the resources are closed. The transports of the HTTP clients
  (\<open>post\<close>, \<open>get\<close>, \<open>aclose\<close>) are parameters.
\<close>

subsection \<open>Selecting the adapters\<close>

text \<open>
  The stores that live in other servers are selected here by name and arguments; they act on
  states of their own types.
\<close>

datatype session_backend =
    MemorySessions
  | RedisSessions string int
  | PostgresSessions string int int int int

datatype limiter_backend =
    MemoryLimiter
  | RedisLimiter string

definition unsupported :: "string \<Rightarrow> string \<Rightarrow> exn" where
  "unsupported setting v = mk_exn (BuiltinError ''ValueError'') (''unsupported '' @ setting @ '': '' @ v)"

record 'n transport =
  tr_post :: "'n http_post"
  tr_get :: "'n http_get"
  tr_aclose :: "('n, unit) action"

definition build_llm_client :: "'n transport \<Rightarrow> settings \<Rightarrow> exn + 'n llm_port" where
  "build_llm_client tr settings =
     (if LLM_PROVIDER settings = ''stub'' then Inr VLLMStubClient
      else if LLM_PROVIDER settings = ''vllm''
      then let llm_retry_count = (if LLM_HTTP_RETRY_COUNT settings \<ge> 0 then LLM_HTTP_RETRY_COUNT settings
                else HTTP_RETRY_COUNT settings)
           in Inr (VLLMHTTPClient (tr_post tr) (tr_get tr) (tr_aclose tr)
                (VLLMHTTPClient_init (VLLM_BASE_URL settings) (VLLM_MODEL settings) (VLLM_TEMPERATURE settings)
                   (VLLM_MAX_TOKENS settings) llm_retry_count (HTTP_RETRY_BASE_DELAY_SEC settings)
                   (HTTP_RETRY_MAX_DELAY_SEC settings) (HTTP_RETRY_JITTER_ENABLED settings)
                   (HTTP_RETRY_JITTER_RATIO settings) (HTTP_RETRY_TOTAL_TIMEOUT_SEC settings)))
      else Inl (unsupported ''LLM_PROVIDER'' (LLM_PROVIDER settings)))"

definition build_tts_client :: "'n transport \<Rightarrow> settings \<Rightarrow> exn + 'n tts_port" where
  "build_tts_client tr settings =
     (if TTS_PROVIDER settings = ''stub'' then Inr GPTSoVITSStubClient
      else if TTS_PROVIDER settings = ''gptsovits''
      then let tts_retry_count = (if TTS_HTTP_RETRY_COUNT settings \<ge> 0 then TTS_HTTP_RETRY_COUNT settings
                else HTTP_RETRY_COUNT settings)
           in Inr (GPTSoVITSHTTPClient (tr_post tr) (tr_get tr) (tr_aclose tr)
                (GPTSoVITSHTTPClient_init (GPT_SOVITS_BASE_URL settings) tts_retry_count
                   (HTTP_RETRY_BASE_DELAY_SEC settings) (HTTP_RETRY_MAX_DELAY_SEC settings)
                   (HTTP_RETRY_JITTER_ENABLED settings) (HTTP_RETRY_JITTER_RATIO settings)
                   (HTTP_RETRY_TOTAL_TIMEOUT_SEC settings) (TTS_SYNTHESIS_IDEMPOTENT settings)))
      else Inl (unsupported ''TTS_PROVIDER'' (TTS_PROVIDER settings)))"

definition build_session_repo :: "settings \<Rightarrow> exn + session_backend" where
  "build_session_repo settings =
     (if SESSION_BACKEND settings = ''memory'' then Inr MemorySessions
      else if SESSION_BACKEND settings = ''redis''
      then Inr (RedisSessions (REDIS_URL settings) (SESSION_TTL_SEC settings))
      else if SESSION_BACKEND settings = ''postgres''
      then Inr (PostgresSessions (POSTGRES_DSN settings) (POSTGRES_MIN_POOL_SIZE settings)
             (POSTGRES_MAX_POOL_SIZE settings) (SESSION_EXPIRATION_SEC settings) (MAX_HISTORY_TURNS settings))
      else Inl (unsupported ''SESSION_BACKEND'' (SESSION_BACKEND settings)))"

definition build_rate_limiter :: "settings \<Rightarrow> exn + limiter_backend" where
  "build_rate_limiter settings =
     (if RATE_LIMIT_BACKEND settings = ''memory'' then Inr MemoryLimiter
      else if RATE_LIMIT_BACKEND settings = ''redis'' then Inr (RedisLimiter (REDIS_URL settings))
      else Inl (unsupported ''RATE_LIMIT_BACKEND'' (RATE_LIMIT_BACKEND settings)))"

text \<open>
  \<open>build_container\<close>, in the order of its calls. The ports of the selected stores come from
  the parameters \<open>repo_of\<close> and \<open>limiter_of\<close>.
\<close>

definition build_container ::
  "'n transport \<Rightarrow> (session_backend \<Rightarrow> 's session_port) \<Rightarrow> (limiter_backend \<Rightarrow> 'l limiter_port) \<Rightarrow>
     settings \<Rightarrow> exn + ('s, 'l, 'n) container" where
  "build_container tr repo_of limiter_of settings = (case build_session_repo settings of
       Inl e \<Rightarrow> Inl e
     | Inr repo \<Rightarrow> (case build_rate_limiter settings of
           Inl e \<Rightarrow> Inl e
         | Inr limiter \<Rightarrow> (case build_llm_client tr settings of
               Inl e \<Rightarrow> Inl e
             | Inr llm \<Rightarrow> (case build_tts_client tr settings of
                   Inl e \<Rightarrow> Inl e
                 | Inr tts \<Rightarrow> Inr \<lparr>ct_llm = llm, ct_tts = tts, ct_repo = repo_of repo, ct_limiter = limiter_of limiter,
                     ct_service = ChatOrchestrationService llm tts (repo_of repo) (MAX_HISTORY_TURNS settings)
                       (STREAM_CHUNK_SIZE settings)\<rparr>))))"

subsection \<open>Closing the resources\<close>

definition close_failed_log :: "string \<Rightarrow> exn + unit \<Rightarrow> 'n io \<Rightarrow> 'n io" where
  "close_failed_log name result w = (case result of
       Inr _ \<Rightarrow> w
     | Inl e \<Rightarrow> log_event ''WARNING'' ''resource close failed during shutdown''
         [(''result'', VStr ''failure''), (''status'', VStr ''error''), (''error_type'', VStr (class_name (exn_cls e))),
          (''error_message'', VStr (exn_msg e)), (''provider'', VStr name)] w)"

text \<open>
  \<open>asyncio.gather(..., return_exceptions=True)\<close> starts all four and waits for all four, so
  none is skipped. They act on separate resources; the two HTTP clients share the runtime and
  are taken in the order they were started.
\<close>

definition close_container :: "('s, 'l, 'n) container \<Rightarrow> ('s, 'l, 'n) site \<Rightarrow> ('s, 'l, 'n) site" where
  "close_container ct st =
     (let (r1, w1) = llm_close (ct_llm ct) (site_io st);
          (r2, w2) = tts_close (ct_tts ct) w1;
          (r3, s3) = repo_close (ct_repo ct) (site_repo st);
          (r4, l4) = lim_close (ct_limiter ct) (site_limiter st);
          w = close_failed_log ''rate_limiter'' r4 (close_failed_log ''session_repo'' r3
                (close_failed_log ''tts_client'' r2 (close_failed_log ''llm_client'' r1 w2)))
      in st\<lparr>site_io := w, site_repo := s3, site_limiter := l4\<rparr>)"

lemma close_failed_log_frame:
  "net (close_failed_log n r w) = net w"
  "length (logs (close_failed_log n r w)) = length (logs w) + (case r of Inl _ \<Rightarrow> 1 | Inr _ \<Rightarrow> 0)"
  by (simp_all add: close_failed_log_def frame_simps log_event_exc_def split: sum.splits)

subsection \<open>Properties\<close>

lemma build_llm_cases:
  "build_llm_client tr s = Inr llm \<Longrightarrow> llm = VLLMStubClient \<or> (\<exists>cfg. llm = VLLMHTTPClient (tr_post tr) (tr_get tr) (tr_aclose tr) cfg)"
  by (auto simp: build_llm_client_def Let_def split: if_splits)

lemma build_tts_cases:
  "build_tts_client tr s = Inr tts \<Longrightarrow> tts = GPTSoVITSStubClient \<or> (\<exists>cfg. tts = GPTSoVITSHTTPClient (tr_post tr) (tr_get tr) (tr_aclose tr) cfg)"
  by (auto simp: build_tts_client_def Let_def split: if_splits)

text \<open>
  The container is built exactly when each of the four selectors has a value the program
  knows; otherwise the bootstrap raises a \<open>ValueError\<close>, so the service does not start.
\<close>

theorem build_container_supported:
  "case build_container tr repo_of limiter_of settings of
     Inr ct \<Rightarrow> SESSION_BACKEND settings \<in> {''memory'', ''redis'', ''postgres''} \<and>
       RATE_LIMIT_BACKEND settings \<in> {''memory'', ''redis''} \<and>
       LLM_PROVIDER settings \<in> {''stub'', ''vllm''} \<and> TTS_PROVIDER settings \<in> {''stub'', ''gptsovits''} \<and>
       svc_llm (ct_service ct) = ct_llm ct \<and> svc_tts (ct_service ct) = ct_tts ct \<and> svc_repo (ct_service ct) = ct_repo ct
   | Inl e \<Rightarrow> exn_cls e = BuiltinError ''ValueError'' \<and>
       \<not> (SESSION_BACKEND settings \<in> {''memory'', ''redis'', ''postgres''} \<and>
          RATE_LIMIT_BACKEND settings \<in> {''memory'', ''redis''} \<and>
          LLM_PROVIDER settings \<in> {''stub'', ''vllm''} \<and> TTS_PROVIDER settings \<in> {''stub'', ''gptsovits''})"
  by (auto simp: build_container_def build_session_repo_def build_rate_limiter_def build_llm_client_def
      build_tts_client_def unsupported_def ChatOrchestrationService_def Let_def split: sum.splits if_splits)

text \<open>
  The retry settings reach the wire: the model client the bootstrap builds sends at most
  one request more than \<open>LLM_HTTP_RETRY_COUNT\<close>, or, where that is negative,
  than \<open>HTTP_RETRY_COUNT\<close>, for each \<open>generate\<close>.
\<close>

theorem built_llm_requests:
  "(let retries = (if LLM_HTTP_RETRY_COUNT settings \<ge> 0 then LLM_HTTP_RETRY_COUNT settings else HTTP_RETRY_COUNT settings)
    in case build_llm_client \<lparr>tr_post = counted post, tr_get = get, tr_aclose = aclose\<rparr> settings of
      Inl e \<Rightarrow> LLM_PROVIDER settings \<notin> {''stub'', ''vllm''}
    | Inr llm \<Rightarrow> snd (net (snd (llm_generate llm ms w))) \<le> snd (net w) + nat (1 + max 0 retries))"
proof (cases "LLM_PROVIDER settings = ''vllm''")
  case False
  have "snd (net (snd (llm_generate VLLMStubClient ms w))) = snd (net w)"
    by (simp add: VLLMStubClient_def stub_generate_def)
  with False show ?thesis by (simp add: build_llm_client_def)
next
  case True
  define retries where "retries = (if LLM_HTTP_RETRY_COUNT settings \<ge> 0 then LLM_HTTP_RETRY_COUNT settings else HTTP_RETRY_COUNT settings)"
  define cfg where "cfg = VLLMHTTPClient_init (VLLM_BASE_URL settings) (VLLM_MODEL settings) (VLLM_TEMPERATURE settings)
    (VLLM_MAX_TOKENS settings) retries (HTTP_RETRY_BASE_DELAY_SEC settings) (HTTP_RETRY_MAX_DELAY_SEC settings)
    (HTTP_RETRY_JITTER_ENABLED settings) (HTTP_RETRY_JITTER_RATIO settings) (HTTP_RETRY_TOTAL_TIMEOUT_SEC settings)"
  have llm: "build_llm_client \<lparr>tr_post = counted post, tr_get = get, tr_aclose = aclose\<rparr> settings =
      Inr (VLLMHTTPClient (counted post) get aclose cfg)"
    using True by (simp add: build_llm_client_def cfg_def retries_def)
  have attempts: "max_attempts (vllm_retry_policy cfg) = max 1 (retries + 1)"
    by (simp add: cfg_def VLLMHTTPClient_init_def)
  obtain r w' where run: "run_with_retry (vllm_request (counted post) cfg (vllm_build_request_payload cfg ms))
      (vllm_retry_policy cfg) should_retry_by_taxonomy (Some (retry_logger ''llm'' llm_path)) w = (r, w')"
    by fastforce
  have "snd (net w') \<le> snd (net w) + nat (1 + max 0 retries)"
    using vllm.requests_bound(2) [OF run] by (simp add: attempts max_def add.commute split: if_splits)
  then show ?thesis
    unfolding Let_def retries_def [symmetric] llm by (simp add: VLLMHTTPClient_def vllm_generate_snd run)
qed

text \<open>
  Shutting down closes all four resources whatever the others do: the store and the
  limiter end in the states their own \<open>close\<close> leaves, the two clients are closed in turn, and
  each failure is logged as one warning, none of them raised.
\<close>

theorem close_container_closes_all:
  "(let st' = close_container ct st;
        w1 = snd (llm_close (ct_llm ct) (site_io st)); w2 = snd (tts_close (ct_tts ct) w1);
        failed = [case r of Inl _ \<Rightarrow> True | Inr _ \<Rightarrow> False. r \<leftarrow>
          [fst (llm_close (ct_llm ct) (site_io st)), fst (tts_close (ct_tts ct) w1),
           fst (repo_close (ct_repo ct) (site_repo st)), fst (lim_close (ct_limiter ct) (site_limiter st))]]
    in site_repo st' = snd (repo_close (ct_repo ct) (site_repo st)) \<and>
       site_limiter st' = snd (lim_close (ct_limiter ct) (site_limiter st)) \<and>
       net (site_io st') = net w2 \<and>
       length (logs (site_io st')) = length (logs w2) + length (filter id failed))"
  by (simp add: close_container_def Let_def close_failed_log_frame split_beta split: sum.splits)

end
