(* ===== verification/Chat_Stream.thy ===== *)
theory Chat_Stream
  imports Chat_Service
begin

text \<open>
  The streaming half of the chat use case: \<open>stream_chat\<close> of
  \<open>app/application/services/chat_orchestration_service.py\<close>, an asynchronous generator. It is
  a machine: \<open>stream_next\<close> runs it from one \<open>yield\<close> to the next, so a consumer may stop it
  anywhere (the tail then never runs), and \<open>stream_run\<close> consumes it to its end.
\<close>

subsection \<open>Events\<close>

record stream_event =
  ev_event :: string
  ev_data :: json

definition start_event :: "string \<Rightarrow> string \<Rightarrow> string \<Rightarrow> stream_event" where
  "start_event request_id trace_id session_id = \<lparr>ev_event = ''start'', ev_data = JDict
     [(''request_id'', JStr request_id), (''trace_id'', JStr trace_id), (''session_id'', JStr session_id)]\<rparr>"

definition token_event :: "string \<Rightarrow> nat \<Rightarrow> stream_event" where
  "token_event delta seq_no = \<lparr>ev_event = ''token'',
     ev_data = JDict [(''delta'', JStr delta), (''sequence'', JInt (int seq_no))]\<rparr>"

definition done_event :: stream_event where
  "done_event = \<lparr>ev_event = ''done'', ev_data = JDict [(''finish_reason'', JStr ''stop''), (''usage'', JNull)]\<rparr>"

definition error_event :: "string \<Rightarrow> string \<Rightarrow> stream_event" where
  "error_event code message = \<lparr>ev_event = ''error'',
     ev_data = JDict [(''error'', JDict [(''code'', JStr code), (''message'', JStr message)])]\<rparr>"

lemma event_names [simp]:
  "ev_event (start_event r t s) = ''start''" "ev_event (token_event d n) = ''token''"
  "ev_event done_event = ''done''" "ev_event (error_event c m) = ''error''"
  by (simp_all add: start_event_def token_event_def done_event_def error_event_def)

text \<open>
  The schemas that \<open>app/api/schemas/streaming.py\<close> declares for the data of the events, as
  predicates on data that needs no conversion.
\<close>

definition StreamStartData :: "json \<Rightarrow> bool" where
  "StreamStartData d \<longleftrightarrow> str_field ''request_id'' d \<and> str_field ''trace_id'' d \<and> str_field ''session_id'' d"

definition StreamTokenData :: "json \<Rightarrow> bool" where
  "StreamTokenData d \<longleftrightarrow> str_field ''delta'' d \<and> (case dict_field ''sequence'' d of Some (JInt _) \<Rightarrow> True | _ \<Rightarrow> False)"

definition StreamDoneData :: "json \<Rightarrow> bool" where
  "StreamDoneData d \<longleftrightarrow> (\<exists>kvs. d = JDict kvs) \<and> (dict_field ''finish_reason'' d = None \<or> str_field ''finish_reason'' d) \<and>
     (case dict_field ''usage'' d of None \<Rightarrow> True | Some JNull \<Rightarrow> True | Some (JDict _) \<Rightarrow> True | _ \<Rightarrow> False)"

definition StreamErrorDetail :: "json \<Rightarrow> bool" where
  "StreamErrorDetail d \<longleftrightarrow> str_field ''code'' d \<and> str_field ''message'' d"

definition StreamErrorData :: "json \<Rightarrow> bool" where
  "StreamErrorData d \<longleftrightarrow> (case dict_field ''error'' d of None \<Rightarrow> False | Some e \<Rightarrow> StreamErrorDetail e)"

text \<open>The names of events, each with the schema of its data.\<close>

definition event_schema :: "stream_event \<Rightarrow> bool" where
  "event_schema ev \<longleftrightarrow> (ev_event ev = ''start'' \<and> StreamStartData (ev_data ev)) \<or>
     (ev_event ev = ''token'' \<and> StreamTokenData (ev_data ev)) \<or>
     (ev_event ev = ''done'' \<and> StreamDoneData (ev_data ev)) \<or>
     (ev_event ev = ''error'' \<and> StreamErrorData (ev_data ev))"

lemma events_schema [simp]:
  "event_schema (start_event r t s)" "event_schema (token_event d n)" "event_schema done_event" "event_schema (error_event c m)"
  by (simp_all add: event_schema_def start_event_def token_event_def done_event_def error_event_def StreamStartData_def
      StreamTokenData_def StreamDoneData_def StreamErrorData_def StreamErrorDetail_def str_field_def dict_field_def)

text \<open>The two handlers: a domain error is reported as it is, any other one is masked.\<close>

definition failure_event :: "exn \<Rightarrow> stream_event" where
  "failure_event exc = (if is_domain exc then error_event (error_code_or ''DOMAIN_ERROR'' exc) (exn_msg exc)
     else error_event ''INTERNAL_ERROR'' ''streaming request failed'')"

definition failure_log :: "string \<Rightarrow> exn \<Rightarrow> 'n io \<Rightarrow> 'n io" where
  "failure_log session_id exc w =
     (if is_domain exc then log_event ''WARNING'' ''stream domain error''
        [(''session_id'', VStr session_id), (''result'', VStr ''failure''), (''status'', VStr ''error''),
         (''stream_status'', VStr ''error''), (''error_code'', VStr (error_code_or ''DOMAIN_ERROR'' exc)),
         (''error_type'', VStr (class_name (exn_cls exc))), (''error_message'', VStr (exn_msg exc))] w
      else log_event_exc ''ERROR'' ''stream unexpected error''
        [(''session_id'', VStr session_id), (''result'', VStr ''failure''), (''status'', VStr ''error''),
         (''stream_status'', VStr ''error''), (''error_code'', VStr ''INTERNAL_ERROR''),
         (''error_type'', VStr (class_name (exn_cls exc))), (''error_message'', VStr (exn_msg exc))] True w)"

subsection \<open>The generator\<close>

text \<open>
  Where the generator is suspended: before its first step, after the start event, inside the
  loop over the chunks (the chunks still to come and the exception after them, the sequence
  number, the chunks so far), or after its last event.
\<close>

datatype gen_state =
    Unstarted
  | Started
  | Streaming "string list" "exn option" nat "string list"
  | Finishing

datatype gen_yield = Event stream_event | StopAsyncIteration

type_synonym ('s, 'n) gen_step = "gen_yield \<times> gen_state \<times> ('s, 'n) app"

definition stream_fail :: "string \<Rightarrow> exn \<Rightarrow> ('s, 'n) app \<Rightarrow> ('s, 'n) gen_step" where
  "stream_fail session_id exc a =
     (Event (failure_event exc), Finishing, a\<lparr>app_io := failure_log session_id exc (app_io a)\<rparr>)"

text \<open>After the last chunk: the reply is stored, then \<open>done\<close> is sent.\<close>

definition stream_finish ::
  "('s, 'n) chat_service \<Rightarrow> string \<Rightarrow> string \<Rightarrow> string list \<Rightarrow> ('s, 'n) app \<Rightarrow> ('s, 'n) gen_step" where
  "stream_finish svc session_id user_message chunks a =
     (let assistant_text = py_strip (concat chunks) in
      if assistant_text = [] then stream_fail session_id empty_response_error a
      else case store_turn svc session_id user_message assistant_text (app_repo a) of
        (Inl e, s1) \<Rightarrow> stream_fail session_id e (a\<lparr>app_repo := s1\<rparr>)
      | (Inr _, s1) \<Rightarrow> (Event done_event, Finishing, a\<lparr>app_repo := s1\<rparr>))"

fun stream_tokens ::
  "('s, 'n) chat_service \<Rightarrow> string \<Rightarrow> string \<Rightarrow> string list \<Rightarrow> exn option \<Rightarrow> nat \<Rightarrow> string list \<Rightarrow>
     ('s, 'n) app \<Rightarrow> ('s, 'n) gen_step" where
  "stream_tokens svc session_id user_message [] None seq_no chunks a =
     stream_finish svc session_id user_message chunks a"
| "stream_tokens svc session_id user_message [] (Some e) seq_no chunks a = stream_fail session_id e a"
| "stream_tokens svc session_id user_message (chunk # rest) after_end seq_no chunks a =
     (if chunk = [] then stream_tokens svc session_id user_message rest after_end seq_no chunks a
      else (Event (token_event chunk (Suc seq_no)),
            Streaming rest after_end (Suc seq_no) (chunks @ [chunk]), a))"

text \<open>
  The chunks of the reply: from \<open>generate_stream\<close> where the client has one, else the text
  of \<open>generate\<close> cut by \<open>_chunk_text\<close>.
\<close>

definition reply_chunks ::
  "('s, 'n) chat_service \<Rightarrow> chat_message list \<Rightarrow> 'n io \<Rightarrow> (string list \<times> exn option) \<times> 'n io" where
  "reply_chunks svc prompt_messages w = (case llm_generate_stream (svc_llm svc) of
       Some generate_stream \<Rightarrow> generate_stream prompt_messages w
     | None \<Rightarrow> (case llm_generate (svc_llm svc) prompt_messages w of
           (Inl e, w1) \<Rightarrow> (([], Some e), w1)
         | (Inr assistant_text, w1) \<Rightarrow> ((chunk_text svc assistant_text, None), w1)))"

definition stream_open ::
  "('s, 'n) chat_service \<Rightarrow> string \<Rightarrow> string \<Rightarrow> ('s, 'n) app \<Rightarrow> ('s, 'n) gen_step" where
  "stream_open svc session_id user_message a =
     (if py_strip user_message = [] then stream_fail session_id empty_message_error a
      else case repo_get_history (svc_repo svc) session_id (app_repo a) of
        (Inl e, s1) \<Rightarrow> stream_fail session_id e (a\<lparr>app_repo := s1\<rparr>)
      | (Inr history, s1) \<Rightarrow>
          let prompt_messages = build_prompt_history history user_message (svc_max_history_turns svc);
              ((chunks, after_end), w1) = reply_chunks svc prompt_messages (app_io a)
          in stream_tokens svc session_id user_message chunks after_end 0 []
               (a\<lparr>app_repo := s1, app_io := w1\<rparr>))"

text \<open>\<open>__anext__\<close>\<close>

fun stream_next ::
  "('s, 'n) chat_service \<Rightarrow> string \<Rightarrow> string \<Rightarrow> string \<Rightarrow> string \<Rightarrow> gen_state \<Rightarrow> ('s, 'n) app \<Rightarrow> ('s, 'n) gen_step" where
  "stream_next svc session_id user_message request_id trace_id Unstarted a =
     (Event (start_event request_id trace_id session_id), Started, a)"
| "stream_next svc session_id user_message request_id trace_id Started a =
     stream_open svc session_id user_message a"
| "stream_next svc session_id user_message request_id trace_id (Streaming rest after_end seq_no chunks) a =
     stream_tokens svc session_id user_message rest after_end seq_no chunks a"
| "stream_next svc session_id user_message request_id trace_id Finishing a =
     (StopAsyncIteration, Finishing, a)"

subsection \<open>Termination\<close>

text \<open>Every step that yields makes the generator smaller: its phase, then the chunks left.\<close>

fun gen_phase :: "gen_state \<Rightarrow> nat" where
  "gen_phase Unstarted = 3"
| "gen_phase Started = 2"
| "gen_phase (Streaming _ _ _ _) = 1"
| "gen_phase Finishing = 0"

fun gen_pending :: "gen_state \<Rightarrow> nat" where
  "gen_pending (Streaming rest _ _ _) = length rest"
| "gen_pending _ = 0"

lemma stream_fail_sel [simp]:
  "fst (stream_fail sid e a) = Event (failure_event e)" "fst (snd (stream_fail sid e a)) = Finishing"
  "app_repo (snd (snd (stream_fail sid e a))) = app_repo a"
  by (simp_all add: stream_fail_def)

lemma stream_finish_phase: "fst (snd (stream_finish svc sid um cs a)) = Finishing"
  by (simp add: stream_finish_def Let_def split: prod.splits sum.splits)

lemma stream_tokens_smaller:
  "fst (snd (stream_tokens svc sid um pending tail n cs a)) = Finishing \<or>
   (\<exists>rest c. fst (snd (stream_tokens svc sid um pending tail n cs a)) = Streaming rest tail (Suc n) (cs @ [c])
      \<and> length rest < length pending)"
proof (induction pending)
  case Nil
  then show ?case by (cases tail) (simp_all add: stream_finish_phase)
next
  case (Cons c pending)
  then show ?case by (cases "c = []") auto
qed

definition gen_rel :: "(gen_state \<times> gen_state) set" where
  "gen_rel = measures [gen_phase, gen_pending]"

lemma wf_gen_rel [simp]: "wf gen_rel"
  by (simp add: gen_rel_def)

lemma stream_tokens_phase: "gen_phase (fst (snd (stream_tokens svc sid um p tl' n cs b))) \<le> Suc 0"
  using stream_tokens_smaller [of svc sid um p tl' n cs b] by auto

lemma stream_open_phase: "gen_phase (fst (snd (stream_open svc sid um a))) \<le> Suc 0"
  by (auto simp: stream_open_def Let_def stream_tokens_phase split: prod.splits sum.splits)

lemma stream_next_smaller:
  assumes "stream_next svc sid um rid tid g a = (Event ev, g', a')"
  shows "(g', g) \<in> gen_rel"
proof (cases g)
  case Started
  with assms stream_open_phase [of svc sid um a] show ?thesis by (auto simp: gen_rel_def)
next
  case (Streaming rest tl' n cs)
  with assms stream_tokens_smaller [of svc sid um rest tl' n cs a] show ?thesis by (auto simp: gen_rel_def)
qed (use assms in \<open>auto simp: gen_rel_def\<close>)

text \<open>The whole generator, consumed to its end.\<close>

function stream_run ::
  "('s, 'n) chat_service \<Rightarrow> string \<Rightarrow> string \<Rightarrow> string \<Rightarrow> string \<Rightarrow> gen_state \<Rightarrow> ('s, 'n) app \<Rightarrow>
     stream_event list \<times> ('s, 'n) app" where
  "stream_run svc sid um rid tid g a = (case stream_next svc sid um rid tid g a of
       (StopAsyncIteration, g', a') \<Rightarrow> ([], a')
     | (Event ev, g', a') \<Rightarrow> (let (evs, b) = stream_run svc sid um rid tid g' a' in (ev # evs, b)))"
  by pat_completeness auto
termination
proof (relation "inv_image gen_rel (\<lambda>(svc, sid, um, rid, tid, g, a). g)", goal_cases)
  case (2 svc sid um rid tid g a x y ev g' a')
  then have "stream_next svc sid um rid tid g a = (Event ev, g', a')" by simp
  then show ?case using stream_next_smaller by (simp add: in_inv_image)
qed (simp add: wf_inv_image)

declare stream_run.simps [simp del]

definition stream_chat ::
  "('s, 'n) chat_service \<Rightarrow> string \<Rightarrow> string \<Rightarrow> string \<Rightarrow> string \<Rightarrow> ('s, 'n) app \<Rightarrow>
     stream_event list \<times> ('s, 'n) app" where
  "stream_chat svc session_id user_message request_id trace_id a =
     stream_run svc session_id user_message request_id trace_id Unstarted a"

subsection \<open>What a whole run sends\<close>

text \<open>The token events of the chunks that are not empty, numbered on from \<open>n\<close>.\<close>

fun token_events :: "nat \<Rightarrow> string list \<Rightarrow> stream_event list" where
  "token_events n [] = []"
| "token_events n (c # cs) =
     (if c = [] then token_events n cs else token_event c (Suc n) # token_events (Suc n) cs)"

abbreviation nonempty :: "string list \<Rightarrow> string list" where
  "nonempty cs \<equiv> filter (\<lambda>c. c \<noteq> []) cs"

lemma concat_nonempty [simp]: "concat (nonempty cs) = concat cs"
  by (induction cs) auto

lemma token_events_nonempty: "token_events n (nonempty cs) = token_events n cs"
  by (induction cs arbitrary: n) auto

text \<open>The step that ends the loop over the chunks.\<close>

definition stream_close ::
  "('s, 'n) chat_service \<Rightarrow> string \<Rightarrow> string \<Rightarrow> exn option \<Rightarrow> string list \<Rightarrow> ('s, 'n) app \<Rightarrow> ('s, 'n) gen_step" where
  "stream_close svc sid um after_end chunks a = (case after_end of
       Some e \<Rightarrow> stream_fail sid e a
     | None \<Rightarrow> stream_finish svc sid um chunks a)"

lemma stream_finish_shape:
  "\<exists>ev b. stream_finish svc sid um chunks a = (Event ev, Finishing, b) \<and> (ev = done_event \<or> (\<exists>e. ev = failure_event e))"
  by (auto simp: stream_finish_def stream_fail_def Let_def split: prod.splits sum.splits)

lemma stream_close_shape:
  obtains ev b where "stream_close svc sid um after_end chunks a = (Event ev, Finishing, b)"
    "ev = done_event \<or> (\<exists>e. ev = failure_event e)"
proof (cases after_end)
  case None
  with stream_finish_shape [of svc sid um chunks a] that show ?thesis by (auto simp: stream_close_def)
next
  case (Some e)
  with that show ?thesis by (auto simp: stream_close_def stream_fail_def)
qed

lemma stream_run_Finishing [simp]: "stream_run svc sid um rid tid Finishing a = ([], a)"
  by (simp add: stream_run.simps)

text \<open>Running on from a step of the loop over the chunks.\<close>

lemma stream_run_tokens:
  assumes "stream_close svc sid um after_end (cs @ nonempty pending) a = (Event ev, Finishing, b)"
  shows "(case stream_tokens svc sid um pending after_end n cs a of
      (StopAsyncIteration, g', a') \<Rightarrow> ([], a')
    | (Event e, g', a') \<Rightarrow> (let (evs, c) = stream_run svc sid um rid tid g' a' in (e # evs, c)))
    = (token_events n pending @ [ev], b)"
  using assms
proof (induction pending arbitrary: n cs)
  case Nil
  then show ?case by (cases after_end) (auto simp: stream_close_def)
next
  case (Cons c pending)
  show ?case
  proof (cases "c = []")
    case True
    with Cons show ?thesis by simp
  next
    case False
    with Cons.prems have "stream_close svc sid um after_end ((cs @ [c]) @ nonempty pending) a = (Event ev, Finishing, b)"
      by simp
    from Cons.IH [OF this, of "Suc n"] False show ?thesis
      by (simp add: stream_run.simps [of svc sid um rid tid "Streaming pending after_end (Suc n) (cs @ [c])"])
  qed
qed

text \<open>The stages of a whole run, with the events each of them sends.\<close>

lemma stream_chat_cases:
  obtains (blank) "py_strip um = []"
      "stream_chat svc sid um rid tid a = ([start_event rid tid sid, failure_event empty_message_error],
         a\<lparr>app_io := failure_log sid empty_message_error (app_io a)\<rparr>)"
  | (read) e s1 where "py_strip um \<noteq> []" "repo_get_history (svc_repo svc) sid (app_repo a) = (Inl e, s1)"
      "stream_chat svc sid um rid tid a = ([start_event rid tid sid, failure_event e],
         a\<lparr>app_repo := s1, app_io := failure_log sid e (app_io a)\<rparr>)"
  | (reply) h s1 chunks after_end w1 ev b where "py_strip um \<noteq> []"
      "repo_get_history (svc_repo svc) sid (app_repo a) = (Inr h, s1)"
      "reply_chunks svc (build_prompt_history h um (svc_max_history_turns svc)) (app_io a) = ((chunks, after_end), w1)"
      "stream_close svc sid um after_end (nonempty chunks) (a\<lparr>app_repo := s1, app_io := w1\<rparr>) = (Event ev, Finishing, b)"
      "stream_chat svc sid um rid tid a = (start_event rid tid sid # token_events 0 chunks @ [ev], b)"
proof -
  have run: "stream_chat svc sid um rid tid a =
      (let (evs, c) = (case stream_open svc sid um a of
           (StopAsyncIteration, g', a') \<Rightarrow> ([], a')
         | (Event e, g', a') \<Rightarrow> (let (evs, c) = stream_run svc sid um rid tid g' a' in (e # evs, c)))
       in (start_event rid tid sid # evs, c))"
    by (simp add: stream_chat_def stream_run.simps [of svc sid um rid tid Unstarted]
        stream_run.simps [of svc sid um rid tid Started])
  show ?thesis
  proof (cases "py_strip um = []")
    case True
    then show ?thesis by (intro blank) (simp_all add: run stream_open_def stream_fail_def)
  next
    case um: False
    obtain r1 s1 where g: "repo_get_history (svc_repo svc) sid (app_repo a) = (r1, s1)" by fastforce
    show ?thesis
    proof (cases r1)
      case (Inl e)
      with um g show ?thesis by (intro read [of e s1]) (simp_all add: run stream_open_def stream_fail_def)
    next
      case (Inr h)
      obtain chunks after_end w1 where c: "reply_chunks svc (build_prompt_history h um (svc_max_history_turns svc)) (app_io a)
          = ((chunks, after_end), w1)" by (metis surj_pair)
      obtain ev b where cl: "stream_close svc sid um after_end (nonempty chunks) (a\<lparr>app_repo := s1, app_io := w1\<rparr>)
          = (Event ev, Finishing, b)" by (rule stream_close_shape)
      have "stream_chat svc sid um rid tid a = (start_event rid tid sid # token_events 0 chunks @ [ev], b)"
        using um g Inr c stream_run_tokens [where cs = "[]" and n = 0 and rid = rid and tid = tid, simplified, OF cl]
        by (simp add: run stream_open_def)
      with um g Inr c cl show ?thesis by (intro reply) simp_all
    qed
  qed
qed

subsection \<open>What a whole run leaves in the history\<close>

context session_repository
begin

lemma stream_close_history:
  assumes "stream_close svc sid um after_end chunks a = (Event ev, g, b)" "svc_repo svc = port" "ready (app_repo a) sid"
  obtains (stored) "after_end = None" "py_strip (concat chunks) \<noteq> []" "ev = done_event"
      "history (app_repo b) = (history (app_repo a))(sid := keep_recent (history_limit svc)
         (history (app_repo a) sid @ [user_msg um, assistant_msg (py_strip (concat chunks))]))"
  | (failed) e where "ev = failure_event e" "history (app_repo b) = history (app_repo a)"
proof (cases after_end)
  case (Some e)
  with assms(1) show ?thesis by (intro failed [of e]) (auto simp: stream_close_def stream_fail_def)
next
  case None
  let ?text = "py_strip (concat chunks)"
  show ?thesis
  proof (cases "?text = []")
    case True
    with assms(1) None show ?thesis
      by (intro failed) (auto simp: stream_close_def stream_finish_def stream_fail_def)
  next
    case ne: False
    obtain r s1 where st: "store_turn svc sid um ?text (app_repo a) = (r, s1)" by fastforce
    show ?thesis
    proof (cases r)
      case (Inl e)
      with assms(1) None ne st show ?thesis
        using store_turn_Inl(1) [OF assms(2) st [unfolded Inl]]
        by (intro failed [of e]) (auto simp: stream_close_def stream_finish_def stream_fail_def)
    next
      case (Inr u)
      with assms(1) None ne st show ?thesis
        using store_turn_Inr [OF assms(2) st [unfolded Inr] assms(3)]
        by (intro stored) (auto simp: stream_close_def stream_finish_def)
    qed
  qed
qed

lemma stream_chat_history:
  assumes "stream_chat svc sid um rid tid a = (evs, a')" "svc_repo svc = port" "ready (app_repo a) sid"
  obtains (stored) chunks w1 where "py_strip um \<noteq> []"
      "reply_chunks svc (build_prompt_history (history (app_repo a) sid) um (svc_max_history_turns svc)) (app_io a)
        = ((chunks, None), w1)"
      "py_strip (concat chunks) \<noteq> []"
      "evs = start_event rid tid sid # token_events 0 chunks @ [done_event]"
      "history (app_repo a') = (history (app_repo a))(sid := keep_recent (history_limit svc)
         (history (app_repo a) sid @ [user_msg um, assistant_msg (py_strip (concat chunks))]))"
  | (failed) chunks e where "evs = start_event rid tid sid # token_events 0 chunks @ [failure_event e]"
      "history (app_repo a') = history (app_repo a)"
proof (cases rule: stream_chat_cases [of um svc sid rid tid a])
  case blank
  with assms(1) show ?thesis by (intro failed [of "[]"]) auto
next
  case (read e s1)
  with assms show ?thesis using get_keeps [of sid "app_repo a" "Inl e" s1]
    by (intro failed [of "[]"]) auto
next
  case (reply h s1 chunks after_end w1 ev b)
  have h: "h = history (app_repo a) sid" "history s1 = history (app_repo a)" "ready s1 = ready (app_repo a)"
    using get_Inr get_keeps reply(2) assms(2) by fastforce+
  from assms(3) h(3) have rdy: "ready (app_repo (a\<lparr>app_repo := s1, app_io := w1\<rparr>)) sid" by simp
  from reply(4) assms(2) rdy show ?thesis
  proof (cases rule: stream_close_history)
    case st: stored
    with reply(1,3,5) h(1,2) assms(1) show ?thesis by (intro stored [of chunks w1]) auto
  next
    case (failed e)
    with reply(5) assms(1) h show ?thesis by (intro that(2) [of chunks e]) auto
  qed
qed

end

lemma token_events_map2:
  "token_events n chunks = map2 token_event (nonempty chunks) [Suc n..<Suc (n + length (nonempty chunks))]"
  by (induction chunks arbitrary: n) (auto simp: upt_conv_Cons simp del: upt_Suc)

subsection \<open>Runs of the service\<close>

text \<open>A use of the service, and a sequence of uses one after the other.\<close>

datatype use_case =
    Chat string string bool tts_args
  | Stream string string string string

fun serve :: "('s, 'n) chat_service \<Rightarrow> use_case list \<Rightarrow> ('s, 'n) app \<Rightarrow> ('s, 'n) app" where
  "serve svc [] a = a"
| "serve svc (Chat sid um audio voice # us) a = serve svc us (snd (chat svc sid um audio voice a))"
| "serve svc (Stream sid um rid tid # us) a = serve svc us (snd (stream_chat svc sid um rid tid a))"

abbreviation over_memory :: "(mem_store, 'n) chat_service \<Rightarrow> (mem_store, 'n) chat_service" where
  "over_memory svc \<equiv> svc\<lparr>svc_repo := InMemorySessionRepository\<rparr>"

text \<open>What the in-memory service needs of the model: no reply that is returned is empty
  (\<open>chat\<close> checks it), so every turn keeps the invariant of the sessions.\<close>

lemma mem_chat_session_ok:
  assumes "\<And>x. session_ok (svc_max_history_turns svc) (mem_bucket (app_repo a) x)"
  shows "session_ok (svc_max_history_turns svc)
    (mem_bucket (app_repo (snd (chat (over_memory svc) sid um audio voice a))) x)"
proof -
  obtain r a' where run: "chat (over_memory svc) sid um audio voice a = (r, a')" by fastforce
  have turn: "session_ok (svc_max_history_turns svc) (mem_bucket (app_repo a') x)"
    if "mem_bucket (app_repo a') = (mem_bucket (app_repo a))(sid := keep_recent (history_limit (over_memory svc))
       (mem_bucket (app_repo a) sid @ [user_msg um, assistant_msg reply]))" "py_strip um \<noteq> []" "reply \<noteq> []" for reply
    using mem.stored_turn_ok [OF that, of x] assms by simp
  show ?thesis
  proof (cases r)
    case (Inl e)
    have "svc_repo (over_memory svc) = InMemorySessionRepository" by simp
    from run [unfolded Inl] this TrueI show ?thesis
    proof (cases rule: mem.chat_InlE)
      case (tts reply w1)
      show ?thesis unfolding run snd_conv by (rule turn [OF tts(5) tts(2,3)])
    qed (use assms run in simp_all)
  next
    case (Inr res)
    from mem.chat_InrE [OF run [unfolded Inr]] turn show ?thesis by (fastforce simp: run)
  qed
qed

lemma mem_stream_session_ok:
  assumes "\<And>x. session_ok (svc_max_history_turns svc) (mem_bucket (app_repo a) x)"
  shows "session_ok (svc_max_history_turns svc)
    (mem_bucket (app_repo (snd (stream_chat (over_memory svc) sid um rid tid a))) x)"
proof -
  obtain evs a' where run: "stream_chat (over_memory svc) sid um rid tid a = (evs, a')" by fastforce
  have "svc_repo (over_memory svc) = InMemorySessionRepository" by simp
  from run this TrueI show ?thesis
  proof (cases rule: mem.stream_chat_history)
    case (stored chunks w1)
    with mem.stored_turn_ok [OF stored(5) stored(1,3), of x] assms show ?thesis by (simp add: run)
  qed (use assms run in simp)
qed

text \<open>A stream with the HTTP client of the model, over the in-memory store.\<close>

lemma http_reply_chunks:
  assumes "svc_llm svc = VLLMHTTPClient post get aclose cfg" "vllm_generate post cfg ms w = (r, w1)"
  shows "reply_chunks svc ms w = ((case r of Inl e \<Rightarrow> ([], Some e) | Inr reply \<Rightarrow> (py_chunks 12 reply, None)), w1)"
  using assms by (simp add: VLLMHTTPClient_def reply_chunks_def vllm_generate_stream_def stream_of_generate_def split: sum.split)

lemma store_turn_memory:
  assumes "svc_repo svc = InMemorySessionRepository"
  obtains s' where "store_turn svc sid um reply s = (Inr (), s')"
    "mem_bucket s' = (mem_bucket s)(sid := keep_recent (history_limit svc) (mem_bucket s sid @ [user_msg um, assistant_msg reply]))"
proof -
  obtain u s' where st: "store_turn svc sid um reply s = (u, s')" by fastforce
  moreover from st have "u = Inr ()" using assms by (auto simp: store_turn_def dest: arg_cong [of _ _ fst])
  ultimately show thesis using mem.store_turn_Inr [OF assms, of sid um reply s "()" s'] that by simp
qed

lemma stream_like_chat:
  assumes llm: "svc_llm svc = VLLMHTTPClient post get aclose cfg" and repo: "svc_repo svc = InMemorySessionRepository"
  shows "case fst (chat svc sid um False voice a) of
      Inl e \<Rightarrow> fst (stream_chat svc sid um rid tid a) = [start_event rid tid sid, failure_event e] \<and>
        app_repo (snd (stream_chat svc sid um rid tid a)) = app_repo a
    | Inr res \<Rightarrow> fst (stream_chat svc sid um rid tid a) =
          start_event rid tid sid # token_events 0 (py_chunks 12 (res_text res)) @ [done_event] \<and>
        mem_bucket (app_repo (snd (stream_chat svc sid um rid tid a))) = (mem_bucket (app_repo a))(sid :=
          keep_recent (history_limit svc)
            (mem_bucket (app_repo a) sid @ [user_msg um, assistant_msg (py_strip (res_text res))]))"
proof (cases rule: stream_chat_cases [of um svc sid rid tid a])
  case blank
  then show ?thesis by (simp add: chat_def)
next
  case (read e s1)
  then show ?thesis by (simp add: repo mem_get_history_def)
next
  case (reply h s1 chunks after_end w2 ev b)
  let ?prompt = "build_prompt_history (mem_bucket (app_repo a) sid) um (svc_max_history_turns svc)"
  have h: "h = mem_bucket (app_repo a) sid" "s1 = app_repo a"
    using reply(2) by (auto simp: repo mem_get_history_def)
  obtain r w1 where gen: "vllm_generate post cfg ?prompt (app_io a) = (r, w1)" by fastforce
  note chunks = http_reply_chunks [OF llm gen]
  show ?thesis
  proof (cases r)
    case (Inl e)
    with gen reply h chunks show ?thesis
      by (auto simp: llm repo VLLMHTTPClient_def stream_close_def stream_fail_def chat_def mem_get_history_def)
  next
    case (Inr rtext)
    then have ne: "py_strip rtext \<noteq> []" using vllm_generate_raises [of post cfg ?prompt "app_io a"] gen by simp
    then have "rtext \<noteq> []" by (auto simp: py_defs)
    obtain s2 where st: "store_turn svc sid um rtext (app_repo a) = (Inr (), s2)" by (rule store_turn_memory [OF repo])
    have chat: "fst (chat svc sid um False voice a) = Inr \<lparr>res_text = rtext, res_audio_url = None\<rparr>"
      using gen Inr reply(1) \<open>rtext \<noteq> []\<close> by (simp add: chat_def llm repo mem_get_history_def VLLMHTTPClient_def st)
    obtain s3 where st': "store_turn svc sid um (py_strip rtext) (app_repo a) = (Inr (), s3)"
      "mem_bucket s3 = (mem_bucket (app_repo a))(sid := keep_recent (history_limit svc)
         (mem_bucket (app_repo a) sid @ [user_msg um, assistant_msg (py_strip rtext)]))"
      by (rule store_turn_memory [OF repo])
    from reply(3,4) chunks Inr have "chunks = py_chunks 12 rtext" "ev = done_event" "app_repo b = s3"
      by (auto simp: h stream_close_def stream_finish_def py_chunks_concat ne st' Let_def)
    with chat reply(5) st'(2) show ?thesis by simp
  qed
qed

subsection \<open>Properties\<close>

text \<open>
  Whatever requests the service serves, in whatever order and with whatever failures of
  the model and of the synthesis, every history over the in-memory store is a sequence of
  whole turns (a message that is not blank, a reply that is not empty) and holds at most
  \<open>2 * max_history_turns\<close> messages.
\<close>

theorem serve_session_ok:
  "session_ok (svc_max_history_turns svc)
     (mem_bucket (app_repo (serve (over_memory svc) uses \<lparr>app_repo = Map.empty, app_io = w\<rparr>)) sid)"
proof -
  have "session_ok (svc_max_history_turns svc) (mem_bucket (app_repo (serve (over_memory svc) uses a)) sid)"
    if "\<And>x. session_ok (svc_max_history_turns svc) (mem_bucket (app_repo a) x)" for a
    using that
  proof (induction "over_memory svc" uses a rule: serve.induct)
    case (2 sid' um audio voice us a)
    then show ?case using mem_chat_session_ok by fastforce
  next
    case (3 sid' um rid tid us a)
    then show ?case using mem_stream_session_ok by fastforce
  qed simp
  then show ?thesis by (simp add: mem_bucket_def session_ok_def)
qed

text \<open>
  The events of a stream are one \<open>start\<close> with the ids of the request, the \<open>token\<close> events
  of the chunks that are not empty, numbered from one without a gap, and one last event that
  is \<open>done\<close> or \<open>error\<close>, for every service and every way its ports behave.
\<close>

theorem stream_protocol:
  "\<exists>chunks last_event. fst (stream_chat svc sid um rid tid a) =
     start_event rid tid sid # map2 token_event (nonempty chunks) [1..<Suc (length (nonempty chunks))] @ [last_event] \<and>
     (last_event = done_event \<or> (\<exists>e. last_event = failure_event e))"
proof (cases rule: stream_chat_cases [of um svc sid rid tid a])
  case (reply h s1 chunks after_end w1 ev b)
  moreover obtain ev' b' where "stream_close svc sid um after_end (nonempty chunks) (a\<lparr>app_repo := s1, app_io := w1\<rparr>)
      = (Event ev', Finishing, b')" "ev' = done_event \<or> (\<exists>e. ev' = failure_event e)"
    by (rule stream_close_shape)
  ultimately show ?thesis by (auto simp: token_events_map2 intro!: exI [of _ chunks])
qed (auto intro!: exI [of _ "[]"])

text \<open>
  A stream over the in-memory store ends with \<open>done\<close> exactly when the turn is stored, and
  what is stored is the concatenation of the deltas sent, stripped; a stream that ends with
  \<open>error\<close> leaves every history as it was.
\<close>

theorem stream_stores_turn:
  "case stream_chat (over_memory svc) sid um rid tid a of (evs, a') \<Rightarrow>
    (\<exists>chunks. evs = start_event rid tid sid # token_events 0 chunks @ [done_event] \<and>
      py_strip um \<noteq> [] \<and> py_strip (concat chunks) \<noteq> [] \<and>
      mem_bucket (app_repo a') = (mem_bucket (app_repo a))(sid := keep_recent (history_limit svc)
          (mem_bucket (app_repo a) sid @ [user_msg um, assistant_msg (py_strip (concat chunks))]))) \<or>
    (\<exists>chunks e. evs = start_event rid tid sid # token_events 0 chunks @ [failure_event e] \<and>
      mem_bucket (app_repo a') = mem_bucket (app_repo a))"
proof -
  obtain evs a' where run: "stream_chat (over_memory svc) sid um rid tid a = (evs, a')" by fastforce
  have lim: "history_limit (over_memory svc) = history_limit svc" by (simp add: history_limit_def)
  have "svc_repo (over_memory svc) = InMemorySessionRepository" by simp
  from run this TrueI show ?thesis
  proof (cases rule: mem.stream_chat_history)
    case (stored chunks w1)
    then show ?thesis by (auto simp: run lim)
  next
    case (failed chunks e)
    then show ?thesis by (auto simp: run)
  qed
qed


end
