(* ===== verification/Auth.thy ===== *)
theory Auth
  imports Settings Rate_Limiter Observability
begin

text \<open>
  Authentication and tenant rate limits (\<open>app/api/deps/auth.py\<close>): the two settings parsers,
  the throttle on failed authentication, and the dependency that every chat route runs
  before its handler.
\<close>

subsection \<open>The settings parsers\<close>

text \<open>
  One item of \<open>AUTH_TENANT_API_KEYS\<close>; \<^const>\<open>None\<close> where the loop skips it. The cached
  dictionaries are never changed, so the cache does not show.
\<close>

definition parse_key_item :: "string \<Rightarrow> (string \<times> string) option" where
  "parse_key_item item =
     (let part = py_strip item in
      if part = [] \<or> CHR '':'' \<notin> set part then None
      else let tenant = py_strip (fst (py_split1 CHR '':'' part));
               token = py_strip (snd (py_split1 CHR '':'' part))
           in if tenant \<noteq> [] \<and> token \<noteq> [] then Some (tenant, token) else None)"

definition parse_tenant_api_keys :: "string \<Rightarrow> (string \<times> string) list" where
  "parse_tenant_api_keys raw =
     foldl (\<lambda>mapping item. case parse_key_item item of None \<Rightarrow> mapping
        | Some (tenant, token) \<Rightarrow> AList.update tenant token mapping)
       [] (py_split CHR '','' raw)"

definition parse_override_item :: "string \<Rightarrow> (string \<times> int) option" where
  "parse_override_item item =
     (let part = py_strip item in
      if part = [] \<or> CHR '':'' \<notin> set part then None
      else let tenant = py_strip (fst (py_split1 CHR '':'' part));
               limit_text = py_strip (snd (py_split1 CHR '':'' part))
           in if tenant = [] then None
              else (case py_int limit_text of None \<Rightarrow> None
                | Some v \<Rightarrow> if v > 0 then Some (tenant, v) else None))"

definition parse_tenant_overrides :: "string \<Rightarrow> (string \<times> int) list" where
  "parse_tenant_overrides raw =
     foldl (\<lambda>overrides item. case parse_override_item item of None \<Rightarrow> overrides
        | Some (tenant, v) \<Rightarrow> AList.update tenant v overrides)
       [] (py_split CHR '','' raw)"

subsection \<open>Requests and their state\<close>

record http_request =
  rq_authorization :: "string option"
  rq_client_host :: "string option"
  rq_path :: string

text \<open>What the dependency leaves in \<open>request.state\<close>: the tenant, and the limit, the
  remaining quota and the reset time.\<close>

record request_state =
  st_tenant_id :: "string option"
  st_rate_limit :: "(int \<times> int \<times> int) option"

record access_context =
  acc_tenant_id :: string
  acc_authenticated :: bool

record ('l, 'n) gate =
  gate_limiter :: 'l
  gate_io :: "'n io"

abbreviation on_io :: "('n io \<Rightarrow> 'n io) \<Rightarrow> ('l, 'n) gate \<Rightarrow> ('l, 'n) gate" where
  "on_io f g \<equiv> g\<lparr>gate_io := f (gate_io g)\<rparr>"

subsection \<open>The throttle on failed authentication\<close>

definition auth_principal :: "http_request \<Rightarrow> string" where
  "auth_principal rq = ''anon:'' @ (case rq_client_host rq of None \<Rightarrow> ''unknown'' | Some h \<Rightarrow> h)"

text \<open>\<^const>\<open>None\<close>: the throttle lets the caller raise its own error.\<close>

definition throttle_auth_failure ::
  "'l limiter_port \<Rightarrow> settings \<Rightarrow> http_request \<Rightarrow> string \<Rightarrow> int \<Rightarrow> ('l, 'n) gate \<Rightarrow>
     exn option \<times> ('l, 'n) gate" where
  "throttle_auth_failure limiter settings rq route_id now g =
     (if \<not> RATE_LIMIT_ENABLED settings then (None, g)
      else let principal = auth_principal rq in
        case lim_consume limiter principal (route_id @ '':auth'') (AUTH_FAILURE_LIMIT_PER_WINDOW settings)
               (RATE_LIMIT_WINDOW_SEC settings) now (gate_limiter g) of
          (Inl _, l1) \<Rightarrow> (None, g\<lparr>gate_limiter := l1\<rparr>)
        | (Inr decision, l1) \<Rightarrow>
            if \<not> dec_allowed decision
            then (Some (mk_exn RateLimitExceededError ''too many failed authentication attempts''),
                  on_io (log_event ''WARNING'' ''too many failed authentication attempts''
                      [(''path'', VStr (rq_path rq)), (''result'', VStr ''failure''), (''status'', VStr ''rate_limited'')]
                    \<circ> observe_rate_limit principal ''auth_rejected'') (g\<lparr>gate_limiter := l1\<rparr>))
            else (None, g\<lparr>gate_limiter := l1\<rparr>))"

subsection \<open>Authentication\<close>

text \<open>
  \<open>secrets.compare_digest\<close> on two strings: it takes ASCII strings only and raises
  \<open>TypeError\<close> otherwise.
\<close>

definition compare_digest :: "string \<Rightarrow> string \<Rightarrow> exn + bool" where
  "compare_digest a b =
     (if (\<forall>c \<in> set a. py_isascii c) \<and> (\<forall>c \<in> set b. py_isascii c) then Inr (a = b)
      else Inl (mk_exn (BuiltinError ''TypeError'') ''comparing strings with non-ASCII characters is not supported''))"

text \<open>\<open>next((tenant_id for tenant_id, expected in key_map.items() if compare_digest(...)), None)\<close>\<close>

fun match_tenant :: "(string \<times> string) list \<Rightarrow> string \<Rightarrow> exn + string option" where
  "match_tenant [] bearer_token = Inr None"
| "match_tenant ((tenant_id, expected_token) # rest) bearer_token =
     (case compare_digest expected_token bearer_token of
        Inl e \<Rightarrow> Inl e
      | Inr equal \<Rightarrow> if equal then Inr (Some tenant_id) else match_tenant rest bearer_token)"

text \<open>The three refusals: count the result, throttle, raise.\<close>

definition auth_refuse ::
  "'l limiter_port \<Rightarrow> settings \<Rightarrow> http_request \<Rightarrow> string \<Rightarrow> int \<Rightarrow> string \<Rightarrow> string \<Rightarrow> ('l, 'n) gate \<Rightarrow>
     (exn + string \<times> bool) \<times> ('l, 'n) gate" where
  "auth_refuse limiter settings rq route_id now result message g =
     (case throttle_auth_failure limiter settings rq route_id now (on_io (observe_auth_result result) g) of
        (Some e, g1) \<Rightarrow> (Inl e, g1)
      | (None, g1) \<Rightarrow> (Inl (mk_exn UnauthorizedError message), g1))"

text \<open>The first half of the dependency: the tenant, and whether it was authenticated.\<close>

definition authenticate ::
  "'l limiter_port \<Rightarrow> settings \<Rightarrow> string \<Rightarrow> http_request \<Rightarrow> int \<Rightarrow> ('l, 'n) gate \<Rightarrow>
     (exn + string \<times> bool) \<times> ('l, 'n) gate" where
  "authenticate limiter settings route_id rq now g =
     (let token_to_validate = py_strip (case rq_authorization rq of None \<Rightarrow> '''' | Some v \<Rightarrow> v) in
      if \<not> AUTH_ENABLED settings
      then (Inr (AUTH_DEFAULT_TENANT settings, False), on_io (observe_auth_result ''bypass'') g)
      else if token_to_validate = []
      then auth_refuse limiter settings rq route_id now ''missing'' ''missing authorization header'' g
      else if \<not> py_startswith (py_lower token_to_validate) ''bearer ''
      then auth_refuse limiter settings rq route_id now ''invalid_scheme''
             ''authorization header must use bearer scheme'' g
      else let bearer_token = py_strip (snd (py_split1 CHR '' '' token_to_validate));
               key_map = parse_tenant_api_keys (AUTH_TENANT_API_KEYS settings)
           in case match_tenant key_map bearer_token of
             Inl e \<Rightarrow> (Inl e, g)
           | Inr None \<Rightarrow> auth_refuse limiter settings rq route_id now ''invalid_key'' ''invalid tenant api key'' g
           | Inr (Some matched) \<Rightarrow> (Inr (matched, True), on_io (observe_auth_result ''success'') g))"

subsection \<open>The tenant's quota\<close>

definition tenant_limit :: "settings \<Rightarrow> string \<Rightarrow> int" where
  "tenant_limit settings tenant =
     (case map_of (parse_tenant_overrides (RATE_LIMIT_TENANT_OVERRIDES settings)) tenant of
        None \<Rightarrow> RATE_LIMIT_REQUESTS_PER_WINDOW settings | Some v \<Rightarrow> v)"

definition rate_limit_tenant ::
  "'l limiter_port \<Rightarrow> settings \<Rightarrow> string \<Rightarrow> http_request \<Rightarrow> int \<Rightarrow> string \<Rightarrow> bool \<Rightarrow> request_state \<Rightarrow>
     ('l, 'n) gate \<Rightarrow> (exn + access_context) \<times> request_state \<times> ('l, 'n) gate" where
  "rate_limit_tenant limiter settings route_id rq now tenant authenticated st g =
     (let access = \<lparr>acc_tenant_id = tenant, acc_authenticated = authenticated\<rparr> in
      if \<not> RATE_LIMIT_ENABLED settings then (Inr access, st, g)
      else case lim_consume limiter tenant route_id (tenant_limit settings tenant)
             (RATE_LIMIT_WINDOW_SEC settings) now (gate_limiter g) of
          (Inl _, l1) \<Rightarrow>
            if RATE_LIMIT_FAIL_OPEN settings
            then (Inr access, st,
                  on_io (log_event ''WARNING'' ''rate limit backend error, fail-open''
                      [(''tenant_id'', VStr tenant), (''path'', VStr (rq_path rq)), (''result'', VStr ''success''),
                       (''status'', VStr ''bypass_on_error'')]
                    \<circ> observe_rate_limit tenant ''bypass_on_error'') (g\<lparr>gate_limiter := l1\<rparr>))
            else (Inl (mk_exn RateLimitExceededError ''rate limiter backend unavailable''), st,
                  on_io (observe_rate_limit tenant ''backend_error'') (g\<lparr>gate_limiter := l1\<rparr>))
        | (Inr decision, l1) \<Rightarrow>
            let st1 = st\<lparr>st_rate_limit :=
                  Some (dec_limit decision, dec_remaining decision, dec_reset_at_epoch_sec decision)\<rparr>
            in if \<not> dec_allowed decision
            then (Inl (mk_exn RateLimitExceededError ''tenant rate limit exceeded''), st1,
                  on_io (log_event ''WARNING'' ''rate limit exceeded''
                      [(''tenant_id'', VStr tenant), (''path'', VStr (rq_path rq)), (''result'', VStr ''failure''),
                       (''status'', VStr ''rate_limited'')]
                    \<circ> observe_rate_limit tenant ''rejected'') (g\<lparr>gate_limiter := l1\<rparr>))
            else (Inr access, st1,
                  on_io (log_event ''INFO'' ''access granted with rate limit''
                      [(''tenant_id'', VStr tenant), (''path'', VStr (rq_path rq)), (''result'', VStr ''success''),
                       (''status'', VStr ''ok'')]
                    \<circ> observe_rate_limit tenant ''allowed'') (g\<lparr>gate_limiter := l1\<rparr>)))"

text \<open>\<open>auth_dependency(route_id)\<close>, on a request whose state is still empty.\<close>

definition empty_request_state :: request_state where
  "empty_request_state = \<lparr>st_tenant_id = None, st_rate_limit = None\<rparr>"

definition auth_dependency ::
  "'l limiter_port \<Rightarrow> settings \<Rightarrow> string \<Rightarrow> http_request \<Rightarrow> int \<Rightarrow> ('l, 'n) gate \<Rightarrow>
     (exn + access_context) \<times> request_state \<times> ('l, 'n) gate" where
  "auth_dependency limiter settings route_id rq now g =
     (case authenticate limiter settings route_id rq now g of
        (Inl e, g1) \<Rightarrow> (Inl e, empty_request_state, g1)
      | (Inr (tenant, authenticated), g1) \<Rightarrow>
          rate_limit_tenant limiter settings route_id rq now tenant authenticated
            (empty_request_state\<lparr>st_tenant_id := Some tenant\<rparr>) g1)"

subsection \<open>Which tenant a request is let in as\<close>

lemma throttle_Some: "throttle_auth_failure limiter settings rq route now g = (Some e, g') \<Longrightarrow>
   e = mk_exn RateLimitExceededError ''too many failed authentication attempts''"
  by (auto simp: throttle_auth_failure_def Let_def split: if_splits prod.splits sum.splits)

lemma auth_refuse_Inl: "auth_refuse limiter settings rq route now res m g = (x, g') \<Longrightarrow>
   x = Inl (mk_exn UnauthorizedError m) \<or>
   x = Inl (mk_exn RateLimitExceededError ''too many failed authentication attempts'')"
  by (auto simp: auth_refuse_def split: prod.splits option.splits dest: throttle_Some)

lemma match_tenant_Some:
  "match_tenant ks b = Inr (Some t) \<Longrightarrow> (t, b) \<in> set ks"
  by (induction ks b rule: match_tenant.induct)
    (auto simp: compare_digest_def split: sum.splits if_splits)

text \<open>The first entry with the token wins.\<close>

lemma match_tenant_first:
  assumes "\<forall>(t, k) \<in> set ks. \<forall>c \<in> set k. py_isascii c" "\<forall>c \<in> set b. py_isascii c"
  shows "match_tenant ks b = Inr (map_option fst (find (\<lambda>(t, k). k = b) ks))"
  using assms by (induction ks b rule: match_tenant.induct) (auto simp: compare_digest_def)

definition bearer_token_of :: "http_request \<Rightarrow> string" where
  "bearer_token_of rq = py_strip (snd (py_split1 CHR '' ''
     (py_strip (case rq_authorization rq of None \<Rightarrow> '''' | Some v \<Rightarrow> v))))"

lemma authenticate_Inr:
  assumes "authenticate limiter settings route rq now g = (Inr (t, ok), g')" "AUTH_ENABLED settings"
  shows "ok" and "(t, bearer_token_of rq) \<in> set (parse_tenant_api_keys (AUTH_TENANT_API_KEYS settings))"
    and "\<exists>v. rq_authorization rq = Some v \<and> py_startswith (py_lower (py_strip v)) ''bearer ''"
    and "gate_limiter g' = gate_limiter g"
  using assms
  by (auto simp: authenticate_def bearer_token_of_def Let_def split: if_splits option.splits sum.splits
      dest: auth_refuse_Inl match_tenant_Some)

lemma authenticate_disabled:
  "\<not> AUTH_ENABLED settings \<Longrightarrow> authenticate limiter settings route rq now g =
     (Inr (AUTH_DEFAULT_TENANT settings, False), on_io (observe_auth_result ''bypass'') g)"
  by (simp add: authenticate_def)

lemma authenticate_Inr_limiter:
  assumes "authenticate limiter settings route rq now g = (Inr x, g')"
  shows "gate_limiter g' = gate_limiter g"
proof (cases "AUTH_ENABLED settings")
  case True
  obtain t ok where x: "x = (t, ok)" by fastforce
  show ?thesis by (rule authenticate_Inr(4) [OF assms [unfolded x] True])
next
  case False
  with assms show ?thesis by (auto simp: authenticate_disabled)
qed

text \<open>A refusal comes out of \<open>auth_refuse\<close>, or from the comparison of the tokens.\<close>

abbreviation "digest_error \<equiv>
  mk_exn (BuiltinError ''TypeError'') ''comparing strings with non-ASCII characters is not supported''"

lemma match_tenant_Inl: "match_tenant ks b = Inl e \<Longrightarrow> e = digest_error"
  by (induction ks b rule: match_tenant.induct) (auto simp: compare_digest_def split: sum.splits if_splits)

lemma authenticate_Inl:
  assumes "authenticate limiter settings route rq now g = (Inl e, g')"
  obtains (refused) res m where "auth_refuse limiter settings rq route now res m g = (Inl e, g')"
  | (digest) "e = digest_error" "g' = g"
  using assms refused digest
  by (auto simp: authenticate_def Let_def split: if_splits option.splits sum.splits dest: match_tenant_Inl)

subsection \<open>A run of requests against one limiter\<close>

text \<open>The requests of a route one after another, each with the time of its call.\<close>

fun auth_run ::
  "'l limiter_port \<Rightarrow> settings \<Rightarrow> string \<Rightarrow> (http_request \<times> int) list \<Rightarrow> ('l, 'n) gate \<Rightarrow>
     (exn + access_context) list" where
  "auth_run limiter settings route [] g = []"
| "auth_run limiter settings route ((rq, now) # rest) g =
     (let (r, st, g') = auth_dependency limiter settings route rq now g
      in r # auth_run limiter settings route rest g')"

text \<open>Let in as the tenant \<open>t\<close>, refused as unauthorized.\<close>

definition let_in :: "string \<Rightarrow> exn + access_context \<Rightarrow> bool" where
  "let_in t r = (case r of Inl _ \<Rightarrow> False | Inr acc \<Rightarrow> acc_tenant_id acc = t)"

definition unauthorized :: "exn + access_context \<Rightarrow> bool" where
  "unauthorized r = (case r of Inl e \<Rightarrow> exn_cls e = UnauthorizedError | Inr _ \<Rightarrow> False)"

text \<open>How many requests of a run satisfy \<open>P\<close> (the request, its time, its result).\<close>

definition count_results ::
  "(http_request \<Rightarrow> int \<Rightarrow> exn + access_context \<Rightarrow> bool) \<Rightarrow> (http_request \<times> int) list \<Rightarrow>
     (exn + access_context) list \<Rightarrow> nat" where
  "count_results P rqs rs = length (filter (\<lambda>((rq, now), r). P rq now r) (zip rqs rs))"

lemma count_results_Cons [simp]:
  "count_results P ((rq, now) # rqs) (r # rs) = (if P rq now r then 1 else 0) + count_results P rqs rs"
  by (simp add: count_results_def)

lemma count_results_Nil [simp]: "count_results P [] rs = 0"
  by (simp add: count_results_def)

text \<open>
  A quota holds where an error of the limiter lets nobody in: under the fail-closed setting,
  or where the limiter does not raise.
\<close>

definition strict_limiter :: "'l consume_fun \<Rightarrow> settings \<Rightarrow> bool" where
  "strict_limiter consume settings \<longleftrightarrow> \<not> RATE_LIMIT_FAIL_OPEN settings \<or>
     (\<forall>t r l now s e s'. consume t r l (RATE_LIMIT_WINDOW_SEC settings) now s \<noteq> (Inl e, s'))"

context rate_limiter
begin

text \<open>
  A bucket that pays for each counted request, and whose count at such a request is within
  \<open>L\<close>, bounds how many there are.
\<close>

lemma count_bound:
  fixes g :: "('l, 'n) gate"
  assumes mono: "\<And>rq now (g :: ('l, 'n) gate) r st g'. auth_dependency limiter settings route rq now g = (r, st, g') \<Longrightarrow>
      used (gate_limiter g) k \<le> used (gate_limiter g') k"
    and pays: "\<And>rq now (g :: ('l, 'n) gate) r st g'. auth_dependency limiter settings route rq now g = (r, st, g') \<Longrightarrow>
      P rq now r \<Longrightarrow> used (gate_limiter g) k + 1 \<le> used (gate_limiter g') k \<and> used (gate_limiter g') k \<le> L"
  shows "int (count_results P rqs (auth_run limiter settings route rqs g)) \<le> max 0 (L - used (gate_limiter g) k)"
proof (induction rqs arbitrary: g)
  case Nil
  then show ?case by simp
next
  case (Cons c rqs)
  obtain rq now where c: "c = (rq, now)" by fastforce
  obtain r st g' where st: "auth_dependency limiter settings route rq now g = (r, st, g')"
    by (metis surj_pair)
  show ?case using Cons.IH [of g'] mono [OF st] pays [OF st] by (auto simp: c st)
qed

lemma throttle_used:
  assumes "throttle_auth_failure limiter settings rq route now g = (x, g')" "lim_consume limiter = consume"
    and "ok_window (RATE_LIMIT_WINDOW_SEC settings)"
  shows "used (gate_limiter g) k \<le> used (gate_limiter g') k"
  using assms(1)
  by (auto simp: throttle_auth_failure_def Let_def assms(2) split: if_splits prod.splits sum.splits
      dest: used_mono [OF assms(3)])

end

context reliable_limiter
begin

lemma throttle_None:
  assumes "throttle_auth_failure limiter settings rq route now g = (None, g')" "lim_consume limiter = consume"
    and "RATE_LIMIT_ENABLED settings" "ok_window (RATE_LIMIT_WINDOW_SEC settings)"
  defines "k \<equiv> rate_key (auth_principal rq) (route @ '':auth'') (window_start now (RATE_LIMIT_WINDOW_SEC settings))"
  shows "used (gate_limiter g') k = used (gate_limiter g) k + 1"
    and "used (gate_limiter g') k \<le> AUTH_FAILURE_LIMIT_PER_WINDOW settings"
proof -
  obtain s' where st: "consume (auth_principal rq) (route @ '':auth'') (AUTH_FAILURE_LIMIT_PER_WINDOW settings)
      (RATE_LIMIT_WINDOW_SEC settings) now (gate_limiter g) =
    (Inr (rate_decision (used (gate_limiter g) k + 1) (AUTH_FAILURE_LIMIT_PER_WINDOW settings)
       (window_start now (RATE_LIMIT_WINDOW_SEC settings) + RATE_LIMIT_WINDOW_SEC settings)), s')"
    "used s' = (used (gate_limiter g))(k := used (gate_limiter g) k + 1)"
    using assms(4) unfolding k_def by (rule consumeE)
  have "gate_limiter g' = s'" "used (gate_limiter g) k + 1 \<le> AUTH_FAILURE_LIMIT_PER_WINDOW settings"
    using assms(1,3) st(1) by (auto simp: throttle_auth_failure_def Let_def assms(2) split: if_splits)
  with st(2) show "used (gate_limiter g') k = used (gate_limiter g) k + 1"
    "used (gate_limiter g') k \<le> AUTH_FAILURE_LIMIT_PER_WINDOW settings" by simp_all
qed

end

context rate_limiter
begin

lemma auth_refuse_used:
  assumes "auth_refuse limiter settings rq route now res m g = (x, g')" "lim_consume limiter = consume"
    and "ok_window (RATE_LIMIT_WINDOW_SEC settings)"
  shows "used (gate_limiter g) k \<le> used (gate_limiter g') k"
proof -
  obtain y g1 where t: "throttle_auth_failure limiter settings rq route now (on_io (observe_auth_result res) g) = (y, g1)"
    by fastforce
  with assms(1) have "g' = g1" by (auto simp: auth_refuse_def split: option.splits)
  with throttle_used [OF t assms(2,3), of k] show ?thesis by simp
qed

lemma rate_limit_tenant_used:
  assumes "rate_limit_tenant limiter settings route rq now t ok st g = (r, st', g')" "lim_consume limiter = consume"
    and "ok_window (RATE_LIMIT_WINDOW_SEC settings)"
  shows "used (gate_limiter g) k \<le> used (gate_limiter g') k"
  using assms(1)
  by (auto simp: rate_limit_tenant_def Let_def assms(2) split: if_splits prod.splits sum.splits
      dest: used_mono [OF assms(3)])

lemma rate_limit_tenant_Inr:
  assumes "rate_limit_tenant limiter settings route rq now t ok st g = (Inr acc, st', g')"
    and "lim_consume limiter = consume"
    and "RATE_LIMIT_ENABLED settings" "ok_window (RATE_LIMIT_WINDOW_SEC settings)" "strict_limiter consume settings"
  defines "k \<equiv> rate_key t route (window_start now (RATE_LIMIT_WINDOW_SEC settings))"
  shows "acc_tenant_id acc = t" and "used (gate_limiter g') k = used (gate_limiter g) k + 1"
    and "used (gate_limiter g') k \<le> tenant_limit settings t"
proof -
  obtain x s' where st: "consume t route (tenant_limit settings t) (RATE_LIMIT_WINDOW_SEC settings) now (gate_limiter g) = (x, s')"
    by fastforce
  obtain d where x: "x = Inr d"
    using assms(1,3,5) st by (cases x) (auto simp: rate_limit_tenant_def Let_def assms(2) strict_limiter_def)
  note law = consume_Inr [OF assms(4) st [unfolded x]]
  have "gate_limiter g' = s'" "acc_tenant_id acc = t" "dec_allowed d"
    using assms(1,3) st x by (auto simp: rate_limit_tenant_def Let_def assms(2) split: if_splits)
  with law show "acc_tenant_id acc = t" "used (gate_limiter g') k = used (gate_limiter g) k + 1"
    "used (gate_limiter g') k \<le> tenant_limit settings t" by (simp_all add: k_def)
qed

lemma auth_dependency_used:
  assumes "auth_dependency limiter settings route rq now g = (r, st, g')" "lim_consume limiter = consume"
    and "ok_window (RATE_LIMIT_WINDOW_SEC settings)"
  shows "used (gate_limiter g) k \<le> used (gate_limiter g') k"
proof (cases "authenticate limiter settings route rq now g")
  case (Pair x g1)
  show ?thesis
  proof (cases x)
    case (Inl e)
    with assms(1) Pair have g': "g' = g1" by (auto simp: auth_dependency_def)
    show ?thesis using Pair [unfolded Inl]
      by (cases rule: authenticate_Inl) (auto simp: g' dest: auth_refuse_used [OF _ assms(2,3)])
  next
    case (Inr y)
    with assms(1) Pair obtain t ok st0 where
      "rate_limit_tenant limiter settings route rq now t ok st0 g1 = (r, st, g')"
      by (cases y) (auto simp: auth_dependency_def)
    from rate_limit_tenant_used [OF this assms(2,3), of k] authenticate_Inr_limiter [OF Pair [unfolded Inr]]
    show ?thesis by simp
  qed
qed

text \<open>The requests let in as one tenant in one window are within the tenant's limit.\<close>

lemma tenant_quota:
  assumes port: "lim_consume limiter = consume"
    and s: "RATE_LIMIT_ENABLED settings" "ok_window (RATE_LIMIT_WINDOW_SEC settings)" "strict_limiter consume settings"
  defines "win \<equiv> RATE_LIMIT_WINDOW_SEC settings"
  shows "int (count_results (\<lambda>rq now r. let_in t r \<and> window_start now win = start) rqs
      (auth_run limiter settings route rqs g))
    \<le> max 0 (tenant_limit settings t - used (gate_limiter g) (rate_key t route start))"
proof (rule count_bound [OF auth_dependency_used [OF _ port s(2)]])
  fix rq now g r st g'
  assume dep: "auth_dependency limiter settings route rq now g = (r, st, g')"
    and P: "let_in t r \<and> window_start now win = start"
  then obtain acc where r: "r = Inr acc" "acc_tenant_id acc = t" by (cases r) (auto simp: let_in_def)
  with dep obtain t' ok g1 where au: "authenticate limiter settings route rq now g = (Inr (t', ok), g1)"
    and rl: "rate_limit_tenant limiter settings route rq now t' ok (empty_request_state\<lparr>st_tenant_id := Some t'\<rparr>) g1
      = (Inr acc, st, g')"
    by (auto simp: auth_dependency_def split: prod.splits sum.splits)
  note charged = rate_limit_tenant_Inr [OF rl port s]
  with r P authenticate_Inr_limiter [OF au]
  show "used (gate_limiter g) (rate_key t route start) + 1 \<le> used (gate_limiter g') (rate_key t route start) \<and>
      used (gate_limiter g') (rate_key t route start) \<le> tenant_limit settings t"
    by (simp add: win_def)
qed

end

context reliable_limiter
begin

text \<open>
  The requests of one client answered as unauthorized in one window are within the limit on
  failed authentication.
\<close>

lemma auth_failures:
  assumes port: "lim_consume limiter = consume"
    and s: "RATE_LIMIT_ENABLED settings" "ok_window (RATE_LIMIT_WINDOW_SEC settings)"
  defines "win \<equiv> RATE_LIMIT_WINDOW_SEC settings"
  shows "int (count_results (\<lambda>rq now r. unauthorized r \<and> auth_principal rq = p \<and> window_start now win = start) rqs
      (auth_run limiter settings route rqs g))
    \<le> max 0 (AUTH_FAILURE_LIMIT_PER_WINDOW settings - used (gate_limiter g) (rate_key p (route @ '':auth'') start))"
proof (rule count_bound [OF auth_dependency_used [OF _ port s(2)]])
  fix rq now g r st g'
  let ?k = "rate_key p (route @ '':auth'') start"
  assume dep: "auth_dependency limiter settings route rq now g = (r, st, g')"
    and P: "unauthorized r \<and> auth_principal rq = p \<and> window_start now win = start"
  then obtain e where r: "r = Inl e" "exn_cls e = UnauthorizedError" by (cases r) (auto simp: unauthorized_def)
  have "\<not> (rate_limit_tenant limiter settings route rq now t ok st0 g1 = (Inl e, st, g'))" for t ok st0 g1
    using r(2) by (auto simp: rate_limit_tenant_def Let_def split: if_splits prod.splits sum.splits)
  with dep r(1) have "authenticate limiter settings route rq now g = (Inl e, g')"
    by (auto simp: auth_dependency_def split: prod.splits sum.splits)
  then show "used (gate_limiter g) ?k + 1 \<le> used (gate_limiter g') ?k \<and>
      used (gate_limiter g') ?k \<le> AUTH_FAILURE_LIMIT_PER_WINDOW settings"
  proof (cases rule: authenticate_Inl)
    case (refused res m)
    then have "throttle_auth_failure limiter settings rq route now (on_io (observe_auth_result res) g) = (None, g')"
      using r(2) by (auto simp: auth_refuse_def split: prod.splits option.splits dest: throttle_Some)
    from throttle_None [OF this port s] P show ?thesis by (simp add: win_def)
  next
    case digest
    with r(2) show ?thesis by simp
  qed
qed

end

subsection \<open>The settings parsers on what they accept\<close>

text \<open>An entry that the format \<open>tenant:token,tenant:token\<close> can carry.\<close>

definition tenant_name :: "string \<Rightarrow> bool" where
  "tenant_name t \<longleftrightarrow> t \<noteq> [] \<and> trimmed t \<and> CHR '':'' \<notin> set t \<and> CHR '','' \<notin> set t"

definition token_text :: "string \<Rightarrow> bool" where
  "token_text k \<longleftrightarrow> k \<noteq> [] \<and> trimmed k \<and> CHR '','' \<notin> set k"

definition render_entry :: "string \<times> string \<Rightarrow> string" where
  "render_entry e = fst e @ '':'' @ snd e"

lemma strip_entry:
  assumes "tenant_name t" "token_text k"
  shows "py_strip (t @ CHR '':'' # k) = t @ CHR '':'' # k" "py_strip t = t" "py_strip k = k"
    "py_split1 CHR '':'' (t @ CHR '':'' # k) = (t, k)"
  using assms
  by (auto intro!: py_strip_trimmed py_split1_append simp: tenant_name_def token_text_def trimmed_def)

lemma parse_key_item_render:
  assumes "tenant_name t" "token_text k"
  shows "parse_key_item (render_entry (t, k)) = Some (t, k)"
  using strip_entry [OF assms] assms
  by (simp add: parse_key_item_def render_entry_def Let_def tenant_name_def token_text_def)

lemma token_text_int: "token_text (py_str_int v)"
  by (simp add: token_text_def py_str_int_trimmed)

lemma parse_override_item_render:
  assumes "tenant_name t" "0 < v" "length (py_str_int v) \<le> 4300"
  shows "parse_override_item (render_entry (t, py_str_int v)) = Some (t, v)"
  using strip_entry [OF assms(1) token_text_int [of v]] assms
  by (simp add: parse_override_item_def render_entry_def Let_def tenant_name_def py_int_str_int)

text \<open>A parser that folds the items it accepts into a dictionary.\<close>

lemma foldl_parse:
  assumes "\<And>e. e \<in> set es \<Longrightarrow> item (render e) = Some e"
  shows "foldl (\<lambda>m i. case item i of None \<Rightarrow> m | Some (k, v) \<Rightarrow> AList.update k v m) m (map render es)
    = foldl (\<lambda>acc (k, v). AList.update k v acc) m es"
  using assms by (induction es arbitrary: m) (auto simp: split_beta)

lemma split_rendered:
  assumes "\<forall>e \<in> set es. CHR '','' \<notin> set (render e)"
  shows "es \<noteq> [] \<Longrightarrow> py_split CHR '','' (join_with '','' (map render es)) = map render es"
    and "es = [] \<Longrightarrow> py_split CHR '','' (join_with '','' (map render es)) = [[]]"
proof -
  show "py_split CHR '','' (join_with '','' (map render es)) = map render es" if "es \<noteq> []"
    using assms that by (intro py_split_join) auto
qed (simp add: join_with_def)

lemma parsers_Nil [simp]: "parse_key_item [] = None" "parse_override_item [] = None"
  by (simp_all add: parse_key_item_def parse_override_item_def)

text \<open>What the parsers return: distinct tenants, no empty names or tokens, positive limits.\<close>

lemma foldl_update_invariant:
  assumes "distinct (map fst m)" "\<forall>e \<in> set m. Q e" "\<And>i e. item i = Some e \<Longrightarrow> Q e"
  shows "distinct (map fst (foldl (\<lambda>m i. case item i of None \<Rightarrow> m | Some (k, v) \<Rightarrow> AList.update k v m) m is))
    \<and> (\<forall>e \<in> set (foldl (\<lambda>m i. case item i of None \<Rightarrow> m | Some (k, v) \<Rightarrow> AList.update k v m) m is). Q e)"
  using assms(1,2)
proof (induction "is" arbitrary: m)
  case (Cons i "is")
  show ?case
  proof (cases "item i")
    case (Some e)
    obtain k v where e: "e = (k, v)" by fastforce
    have "set (AList.update k v m) \<subseteq> insert (k, v) (set m)" by (induction m) auto
    with Cons.prems assms(3) [OF Some] have "\<forall>e \<in> set (AList.update k v m). Q e" by (auto simp: e)
    moreover have "distinct (map fst (AList.update k v m))" using Cons.prems(1) by (rule distinct_update)
    ultimately show ?thesis using Cons.IH [of "AList.update k v m"] by (simp add: Some e)
  qed (use Cons in simp)
qed simp

lemma parse_keys_rendered:
  assumes "distinct (map fst es)" "\<forall>e \<in> set es. tenant_name (fst e) \<and> token_text (snd e)"
  shows "parse_tenant_api_keys (join_with '','' (map render_entry es)) = es"
proof (cases "es = []")
  case True
  then show ?thesis by (simp add: parse_tenant_api_keys_def join_with_def)
next
  case False
  have split: "py_split CHR '','' (join_with '','' (map render_entry es)) = map render_entry es"
    using assms(2) by (intro split_rendered(1) [OF _ False]) (auto simp: render_entry_def tenant_name_def token_text_def)
  have item: "parse_key_item (render_entry e) = Some e" if "e \<in> set es" for e
    using parse_key_item_render [of "fst e" "snd e"] assms(2) that by simp
  show ?thesis
    using foldl_parse [of es parse_key_item render_entry "[]", OF item] foldl_update_fresh [of "[]" es] assms(1)
    by (simp add: parse_tenant_api_keys_def split)
qed

text \<open>The entry of a rendered override.\<close>

definition render_override :: "string \<times> int \<Rightarrow> string" where
  "render_override e = render_entry (fst e, py_str_int (snd e))"

lemma parse_overrides_rendered:
  assumes "distinct (map fst es)"
    and "\<forall>e \<in> set es. tenant_name (fst e) \<and> 0 < snd e \<and> length (py_str_int (snd e)) \<le> 4300"
  shows "parse_tenant_overrides (join_with '','' (map render_override es)) = es"
proof (cases "es = []")
  case True
  then show ?thesis by (simp add: parse_tenant_overrides_def join_with_def)
next
  case False
  have split: "py_split CHR '','' (join_with '','' (map render_override es)) = map render_override es"
    using assms(2)
    by (intro split_rendered(1) [OF _ False]) (auto simp: render_override_def render_entry_def tenant_name_def)
  have item: "parse_override_item (render_override e) = Some e" if "e \<in> set es" for e
    using parse_override_item_render [of "fst e" "snd e"] assms(2) that by (simp add: render_override_def)
  show ?thesis
    using foldl_parse [of es parse_override_item render_override "[]", OF item] foldl_update_fresh [of "[]" es] assms(1)
    by (simp add: parse_tenant_overrides_def split)
qed

text \<open>What a parsed key entry looks like.\<close>

lemma py_strip_subset: "set (py_strip s) \<subseteq> set s"
proof -
  have drop: "set (dropWhile P xs) \<subseteq> set xs" for P and xs :: string by (auto dest: set_dropWhileD)
  show ?thesis
    using drop [of py_isspace s] drop [of py_isspace "rev (dropWhile py_isspace s)"] by (auto simp: py_defs)
qed

lemma parse_key_item_Some:
  assumes "parse_key_item i = Some (t, k)"
  shows "t \<noteq> [] \<and> k \<noteq> [] \<and> CHR '':'' \<notin> set t"
proof -
  let ?p = "py_strip i"
  have "t = py_strip (fst (py_split1 CHR '':'' ?p))" "t \<noteq> []" "k \<noteq> []"
    using assms by (auto simp: parse_key_item_def Let_def split: if_splits)
  moreover have "CHR '':'' \<notin> set (fst (py_split1 CHR '':'' ?p))"
    by (auto simp: py_split1_def dest: set_takeWhileD)
  ultimately show ?thesis using py_strip_subset by blast
qed

lemma parse_override_item_Some: "parse_override_item i = Some (t, v) \<Longrightarrow> t \<noteq> [] \<and> 0 < v"
  by (auto simp: parse_override_item_def Let_def split: if_splits option.splits)

lemma parse_keys_entries:
  "distinct (map fst (parse_tenant_api_keys raw)) \<and>
   (\<forall>e \<in> set (parse_tenant_api_keys raw). fst e \<noteq> [] \<and> snd e \<noteq> [] \<and> CHR '':'' \<notin> set (fst e))"
  unfolding parse_tenant_api_keys_def
  by (rule foldl_update_invariant) (use parse_key_item_Some in \<open>auto\<close>)

lemma parse_overrides_entries:
  "distinct (map fst (parse_tenant_overrides raw)) \<and>
   (\<forall>e \<in> set (parse_tenant_overrides raw). fst e \<noteq> [] \<and> 0 < snd e)"
  unfolding parse_tenant_overrides_def
  by (rule foldl_update_invariant) (use parse_override_item_Some in \<open>auto\<close>)

text \<open>A header that carries a token after the scheme.\<close>

lemma bearer_header:
  assumes "token_text k"
  shows "py_strip (''Bearer '' @ k) = ''Bearer '' @ k" "py_strip k = k"
    "py_startswith (py_lower (''Bearer '' @ k)) ''bearer ''"
    "py_split1 CHR '' '' (''Bearer '' @ k) = (''Bearer'', k)"
proof -
  show "py_strip (''Bearer '' @ k) = ''Bearer '' @ k" "py_strip k = k"
    using assms by (intro py_strip_trimmed; simp add: token_text_def trimmed_def py_isspace_def)+
  show "py_startswith (py_lower (''Bearer '' @ k)) ''bearer ''"
    by (simp add: py_startswith_def py_lower_def py_lower_char_def) code_simp
  show "py_split1 CHR '' '' (''Bearer '' @ k) = (''Bearer'', k)" by (simp add: py_split1_def)
qed

lemma find_token:
  assumes "(t, k) \<in> set es" "distinct (map snd es)"
  shows "find (\<lambda>(t, k'). k' = k) es = Some (t, k)"
  using assms by (induction es) (auto split: prod.splits simp: image_iff)

subsection \<open>Properties\<close>

text \<open>
  C1: with authentication enabled nobody is let in without a configured key: a request that
  passes the dependency carries, after the bearer scheme, a token that the configuration
  lists for the tenant it is let in as, whatever the rate limiter is and does.
\<close>

theorem no_access_without_key:
  assumes "AUTH_ENABLED settings"
    and "auth_dependency limiter settings route rq now g = (Inr access, st, g')"
  shows "acc_authenticated access \<and>
    (acc_tenant_id access, bearer_token_of rq) \<in> set (parse_tenant_api_keys (AUTH_TENANT_API_KEYS settings)) \<and>
    (\<exists>v. rq_authorization rq = Some v \<and> py_startswith (py_lower (py_strip v)) ''bearer '') \<and>
    st_tenant_id st = Some (acc_tenant_id access)"
proof -
  obtain t ok g1 where au: "authenticate limiter settings route rq now g = (Inr (t, ok), g1)"
    and rl: "rate_limit_tenant limiter settings route rq now t ok (empty_request_state\<lparr>st_tenant_id := Some t\<rparr>) g1
      = (Inr access, st, g')"
    using assms(2) by (auto simp: auth_dependency_def split: prod.splits sum.splits)
  have "access = \<lparr>acc_tenant_id = t, acc_authenticated = ok\<rparr> \<and> st_tenant_id st = Some t"
    using rl by (auto simp: rate_limit_tenant_def Let_def split: if_splits prod.splits sum.splits)
  with authenticate_Inr [OF au assms(1)] show ?thesis by simp
qed

text \<open>
  C29: a configured key opens the door: when the setting is written from tenants and tokens
  that its format can carry, each tenant and each token once, a request with \<open>Bearer\<close> and one
  of the tokens is authenticated as the tenant of that token.
\<close>

theorem configured_key_authenticates:
  assumes "distinct (map fst es)" "distinct (map snd es)"
    and "\<forall>e \<in> set es. tenant_name (fst e) \<and> token_text (snd e) \<and> (\<forall>c \<in> set (snd e). py_isascii c)"
    and "(t, k) \<in> set es"
    and "AUTH_ENABLED settings" "AUTH_TENANT_API_KEYS settings = join_with '','' (map render_entry es)"
    and "rq_authorization rq = Some (''Bearer '' @ k)"
  shows "authenticate limiter settings route rq now g = (Inr (t, True), on_io (observe_auth_result ''success'') g)"
proof -
  have k: "token_text k" "\<forall>c \<in> set k. py_isascii c" using assms(3,4) by auto
  have keys: "parse_tenant_api_keys (AUTH_TENANT_API_KEYS settings) = es"
    using parse_keys_rendered assms(1,3,6) by simp
  have "match_tenant es k = Inr (Some t)"
    using match_tenant_first [of es k] assms(3) k(2) find_token [OF assms(4,2)] by (auto simp: split_beta)
  then show ?thesis
    using bearer_header [OF k(1)] assms(5,7) keys by (simp add: authenticate_def)
qed



text \<open>
  C31: the quotas cannot be mixed up: the bucket of a configured tenant on a route without a
  colon is the bucket of no other configured tenant, route or window, and of no client that
  fails to authenticate.
\<close>

theorem buckets_apart:
  assumes "(t, k) \<in> set (parse_tenant_api_keys raw)" "(t', k') \<in> set (parse_tenant_api_keys raw)"
    and "CHR '':'' \<notin> set route" "CHR '':'' \<notin> set route'"
  shows "(rate_key t route start = rate_key t' route' start' \<longleftrightarrow> t = t' \<and> route = route' \<and> start = start') \<and>
    rate_key t route start \<noteq> rate_key (auth_principal rq) (route' @ '':auth'') start'"
proof
  show "rate_key t route start = rate_key t' route' start' \<longleftrightarrow> t = t' \<and> route = route' \<and> start = start'"
    using rate_key_inj [of t route start t' route' start'] assms(3,4) by auto
  have colon: "CHR '':'' \<notin> set t" using parse_keys_entries [of raw] assms(1) by auto
  show "rate_key t route start \<noteq> rate_key (auth_principal rq) (route' @ '':auth'') start'"
  proof
    assume "rate_key t route start = rate_key (auth_principal rq) (route' @ '':auth'') start'"
    then have eq: "t @ '':'' @ route = auth_principal rq @ '':'' @ route' @ '':auth''"
      by (rule rate_key_window(2))
    have "length (filter (\<lambda>c. c = CHR '':'') (t @ '':'' @ route)) \<le> 1" using colon assms(3) by (auto simp: filter_empty_conv)
    moreover have "2 \<le> length (filter (\<lambda>c. c = CHR '':'') (auth_principal rq @ '':'' @ route' @ '':auth''))"
      by (simp add: auth_principal_def)
    ultimately show False by (simp only: eq)
  qed
qed

text \<open>
  An error of the rate limiter never changes who is let in under the fail-open setting,
  and lets nobody in without it: the dependency then answers 429's error.
\<close>

theorem limiter_error_policy:
  assumes "RATE_LIMIT_ENABLED settings"
    and "authenticate limiter settings route rq now g = (Inr (t, ok), g1)"
    and "lim_consume limiter t route (tenant_limit settings t) (RATE_LIMIT_WINDOW_SEC settings) now (gate_limiter g1) = (Inl e, l1)"
  shows "fst (auth_dependency limiter settings route rq now g) =
    (if RATE_LIMIT_FAIL_OPEN settings then Inr \<lparr>acc_tenant_id = t, acc_authenticated = ok\<rparr>
     else Inl (mk_exn RateLimitExceededError ''rate limiter backend unavailable''))"
  using assms by (simp add: auth_dependency_def rate_limit_tenant_def)

text \<open>
  C39: a token with a character outside ASCII is not refused as unauthorized: where any key is
  configured the comparison itself raises \<open>TypeError\<close>, before the throttle on failed
  attempts is charged and before the result is counted, as often as the client likes.
\<close>

theorem non_ascii_token_unthrottled:
  assumes "AUTH_ENABLED settings" "parse_tenant_api_keys (AUTH_TENANT_API_KEYS settings) \<noteq> []"
    and "rq_authorization rq = Some (''Bearer '' @ k)" "token_text k" "c \<in> set k" "\<not> py_isascii c"
  shows "auth_dependency limiter settings route rq now g =
    (Inl (mk_exn (BuiltinError ''TypeError'') ''comparing strings with non-ASCII characters is not supported''),
     empty_request_state, g)"
proof -
  obtain t e ks where keys: "parse_tenant_api_keys (AUTH_TENANT_API_KEYS settings) = (t, e) # ks"
    using assms(2) by (metis neq_Nil_conv surj_pair)
  have "compare_digest e k = Inl digest_error" using assms(5,6) by (auto simp: compare_digest_def)
  then show ?thesis
    using bearer_header [OF assms(4)] assms(1,3) by (simp add: auth_dependency_def authenticate_def keys)
qed

text \<open>
  The API key setting round-trips: written in its format from tenants with distinct names,
  the parser gives back exactly these entries in their order.
\<close>

theorem api_keys_roundtrip:
  assumes "distinct (map fst es)" "\<forall>e \<in> set es. tenant_name (fst e) \<and> token_text (snd e)"
  shows "parse_tenant_api_keys (join_with '','' (map render_entry es)) = es"
  using assms by (rule parse_keys_rendered)

text \<open>
  Whatever the setting of the overrides says, the parsed overrides name each tenant once
  and every limit is positive, so the limit a tenant gets is positive when the default is.
\<close>

theorem tenant_limit_positive:
  "distinct (map fst (parse_tenant_overrides raw)) \<and>
   0 < tenant_limit (settings\<lparr>RATE_LIMIT_TENANT_OVERRIDES := raw, RATE_LIMIT_REQUESTS_PER_WINDOW := int (Suc n)\<rparr>) t"
  using parse_overrides_entries [of raw]
  by (auto simp: tenant_limit_def split: option.splits dest: map_of_SomeD)

text \<open>Two tenants, two requests a window, one failed attempt a window.\<close>

definition demo_settings :: settings where
  "demo_settings = default_settings\<lparr>AUTH_ENABLED := True, AUTH_TENANT_API_KEYS := ''acme:k1,beta:k2'',
     RATE_LIMIT_ENABLED := True, RATE_LIMIT_REQUESTS_PER_WINDOW := 2, AUTH_FAILURE_LIMIT_PER_WINDOW := 1\<rparr>"

definition demo_request :: "string \<Rightarrow> http_request" where
  "demo_request header = \<lparr>rq_authorization = Some header, rq_client_host = Some ''h'', rq_path = ''/api/v1/chat''\<rparr>"

definition demo_gate :: "(counters, unit) gate" where
  "demo_gate = \<lparr>gate_limiter = Map.empty,
     gate_io = \<lparr>clock = 0, draws = [], lags = [], net = (), metrics = [], logs = []\<rparr>\<rparr>"

lemma demo_keys: "parse_tenant_api_keys ''acme:k1,beta:k2'' = [(''acme'', ''k1''), (''beta'', ''k2'')]"
  by code_simp

lemma demo_settings_sel [simp]:
  "AUTH_ENABLED demo_settings" "AUTH_TENANT_API_KEYS demo_settings = ''acme:k1,beta:k2''"
  "RATE_LIMIT_ENABLED demo_settings" "RATE_LIMIT_WINDOW_SEC demo_settings = 60"
  "RATE_LIMIT_REQUESTS_PER_WINDOW demo_settings = 2" "RATE_LIMIT_TENANT_OVERRIDES demo_settings = ''''"
  "AUTH_FAILURE_LIMIT_PER_WINDOW demo_settings = 1" "RATE_LIMIT_FAIL_OPEN demo_settings"
  by (simp_all add: demo_settings_def default_settings_def)

lemma token_texts [simp]: "token_text ''k1''" "token_text ''k2''" "token_text ''zz''"
  by code_simp+

lemma demo_limit [simp]: "tenant_limit demo_settings ''acme'' = 2"
  by (simp add: tenant_limit_def) code_simp

lemma demo_authenticated:
  "authenticate limiter demo_settings route (demo_request ''Bearer k1'') now g =
     (Inr (''acme'', True), on_io (observe_auth_result ''success'') g)"
  using bearer_header [of "''k1''"]
  by (simp add: authenticate_def demo_request_def demo_keys compare_digest_def py_isascii_def)

theorem no_access_without_key_witness:
  "bearer_token_of (demo_request ''Bearer k1'') = ''k1'' \<and>
   (''acme'', bearer_token_of (demo_request ''Bearer k1'')) \<in> set (parse_tenant_api_keys (AUTH_TENANT_API_KEYS demo_settings))"
proof -
  obtain st g' where run: "auth_dependency InMemoryRateLimiter demo_settings ''chat_sync'' (demo_request ''Bearer k1'') 100 demo_gate
      = (Inr \<lparr>acc_tenant_id = ''acme'', acc_authenticated = True\<rparr>, st, g')"
    by (simp add: auth_dependency_def demo_authenticated rate_limit_tenant_def mem_consume_eq Let_def demo_gate_def mem_used_def)
  from no_access_without_key [OF _ run] show ?thesis by (simp add: demo_keys)
qed

theorem configured_key_authenticates_witness:
  "authenticate InMemoryRateLimiter demo_settings ''chat_sync'' (demo_request ''Bearer k2'') 100 demo_gate =
     (Inr (''beta'', True), on_io (observe_auth_result ''success'') demo_gate)"
proof (rule configured_key_authenticates [where es = "[(''acme'', ''k1''), (''beta'', ''k2'')]" and k = "''k2''"])
  show "AUTH_TENANT_API_KEYS demo_settings = join_with '','' (map render_entry [(''acme'', ''k1''), (''beta'', ''k2'')])"
    by (simp add: join_with_def render_entry_def)
  have "tenant_name ''acme''" "tenant_name ''beta''" by code_simp+
  then show "\<forall>e \<in> set [(''acme'', ''k1''), (''beta'', ''k2'')]. tenant_name (fst e) \<and> token_text (snd e) \<and> (\<forall>c \<in> set (snd e). py_isascii c)"
    by (simp add: py_isascii_def)
qed (simp_all add: demo_request_def)



theorem buckets_apart_witness:
  "rate_key ''acme'' ''chat_sync'' 60 \<noteq> rate_key ''beta'' ''chat_stream'' 60 \<and>
   rate_key ''acme'' ''chat_sync'' 60 \<noteq> rate_key (auth_principal (demo_request ''Bearer zz'')) (''chat_stream'' @ '':auth'') 60"
  using buckets_apart [of "''acme''" "''k1''" "''acme:k1,beta:k2''" "''beta''" "''k2''" "''chat_sync''" "''chat_stream''"
      60 60 "demo_request ''Bearer zz''"]
  by (simp add: demo_keys)

text \<open>A limiter whose backend is down.\<close>

definition broken_limiter :: "counters limiter_port" where
  "broken_limiter = InMemoryRateLimiter\<lparr>lim_consume := (\<lambda>t r l win now s. (Inl (mk_exn (BuiltinError ''ConnectionError'') ''down''), s))\<rparr>"

theorem limiter_error_policy_witness:
  "fst (auth_dependency broken_limiter demo_settings ''chat_sync'' (demo_request ''Bearer k1'') 100 demo_gate) =
     Inr \<lparr>acc_tenant_id = ''acme'', acc_authenticated = True\<rparr>"
  using limiter_error_policy [of demo_settings broken_limiter "''chat_sync''" "demo_request ''Bearer k1''" 100 demo_gate
      "''acme''" True "on_io (observe_auth_result ''success'') demo_gate"]
  by (simp add: demo_authenticated broken_limiter_def)

theorem non_ascii_token_unthrottled_witness:
  "fst (auth_dependency InMemoryRateLimiter demo_settings ''chat_sync'' (demo_request (''Bearer '' @ [CHR 0xE9])) 100 demo_gate) =
     Inl (mk_exn (BuiltinError ''TypeError'') ''comparing strings with non-ASCII characters is not supported'')"
proof -
  have "token_text [CHR 0xE9]" by code_simp
  moreover have "\<not> py_isascii CHR 0xE9" by code_simp
  ultimately show ?thesis
    using non_ascii_token_unthrottled [of demo_settings "demo_request (''Bearer '' @ [CHR 0xE9])" "[CHR 0xE9]" "CHR 0xE9"
        InMemoryRateLimiter "''chat_sync''" 100 demo_gate]
    by (simp add: demo_keys demo_request_def)
qed

theorem api_keys_roundtrip_witness:
  "parse_tenant_api_keys (join_with '','' (map render_entry [(''acme'', ''k:1''), (''beta'', ''k2'')])) = [(''acme'', ''k:1''), (''beta'', ''k2'')]"
proof (rule api_keys_roundtrip)
  show "\<forall>e \<in> set [(''acme'', ''k:1''), (''beta'', ''k2'')]. tenant_name (fst e) \<and> token_text (snd e)" by code_simp
qed simp

end
