(* ===== verification/Chat_Routes.thy ===== *)
theory Chat_Routes
  imports Chat_Stream Auth
begin

text \<open>
  The chat routes (\<open>app/api/routes/chat.py\<close>): the synchronous handler, and the streaming
  handler with its server-sent events. The dependency \<open>auth_dependency\<close> has run before
  either; its access context and request state are arguments.
\<close>

subsection \<open>The synchronous handler\<close>

record chat_response =
  resp_status :: string
  resp_message :: string
  resp_request_id :: string
  resp_trace_id :: string
  resp_text :: string
  resp_audio_url :: "string option"
  resp_response_mode :: string

definition rate_limit_headers :: "request_state \<Rightarrow> (string \<times> string) list" where
  "rate_limit_headers st = (case st_rate_limit st of
       None \<Rightarrow> []
     | Some (limit, remaining, reset) \<Rightarrow>
         [(''X-RateLimit-Limit'', py_str_int limit), (''X-RateLimit-Remaining'', py_str_int remaining),
          (''X-RateLimit-Reset'', py_str_int reset)])"

definition chat_route ::
  "('s, 'n) chat_service \<Rightarrow> string \<Rightarrow> string \<Rightarrow> access_context \<Rightarrow> request_state \<Rightarrow> chat_request \<Rightarrow>
     ('s, 'n) app \<Rightarrow> (exn + chat_response \<times> (string \<times> string) list) \<times> ('s, 'n) app" where
  "chat_route svc request_id trace_id access st payload a =
     (let started = clock (app_io a);
          mode = req_response_mode payload;
          voice = \<lparr>tts_text = [], tts_voice_id = req_voice_id payload, tts_speaker = req_speaker payload,
            tts_language = req_language payload, tts_reference_audio_url = req_reference_audio_url payload\<rparr>;
          (r, a1) = chat svc (req_session_id payload) (req_message payload) (mode = ''text_audio'') voice a;
          duration = clock (app_io a1) - started;
          common = [(''tenant_id'', VStr (acc_tenant_id access)), (''session_id'', VStr (req_session_id payload)),
            (''path'', VStr ''/api/v1/chat''), (''latency_ms'', VReal (py_round2 (duration * 1000)))]
      in case r of
        Inl exc \<Rightarrow>
          (Inl exc, a1\<lparr>app_io := log_event ''WARNING'' ''chat request failed''
             (common @ [(''result'', VStr ''failure''), (''status'', VStr ''error''),
                (''error_code'', VStr (error_code_or ''INTERNAL_ERROR'' exc)),
                (''error_type'', VStr (class_name (exn_cls exc)))])
             (observe_chat_request mode ''failure'' duration (app_io a1))\<rparr>)
      | Inr res \<Rightarrow>
          (Inr (\<lparr>resp_status = ''success'', resp_message = ''chat completed'', resp_request_id = request_id,
                 resp_trace_id = trace_id, resp_text = res_text res, resp_audio_url = res_audio_url res,
                 resp_response_mode = mode\<rparr>, rate_limit_headers st),
           a1\<lparr>app_io := log_event ''INFO'' ''chat request processed''
             (common @ [(''result'', VStr ''success''), (''status'', VStr ''ok'')])
             (observe_chat_request mode ''success'' duration (app_io a1))\<rparr>))"

subsection \<open>Server-sent events\<close>

definition newline :: char where
  "newline = char_of (10 :: nat)"

definition format_sse :: "string \<Rightarrow> json \<Rightarrow> string" where
  "format_sse event data = ''event: '' @ event @ [newline] @ ''data: '' @ json_dumps data @ [newline, newline]"

definition format_event :: "stream_event \<Rightarrow> string" where
  "format_event ev = format_sse (ev_event ev) (ev_data ev)"

definition timeout_event :: stream_event where
  "timeout_event = error_event ''STREAM_TIMEOUT'' ''stream timeout exceeded''"

subsection \<open>The streaming handler\<close>

text \<open>
  What happens around one pass of the loop, decided by the environment: how long the task was
  suspended before the pass, whether the client is found disconnected, the servers' state
  after a call that was cut off, and whether the task is cancelled or the generator closed
  (at the wait for the next event, at the check of the connection, or at the \<open>yield\<close>).
\<close>

datatype disturbance = Undisturbed | CancelWait | CancelCheck | CancelYield | CloseYield

record 'n tick =
  tk_pause :: real
  tk_gone :: bool
  tk_cut_net :: 'n
  tk_disturb :: disturbance

record sse_request =
  sse_session_id :: string
  sse_message :: string
  sse_request_id :: string
  sse_trace_id :: string
  sse_tenant :: string
  sse_timeout :: real

abbreviation on_app_io :: "('n io \<Rightarrow> 'n io) \<Rightarrow> ('s, 'n) app \<Rightarrow> ('s, 'n) app" where
  "on_app_io f a \<equiv> a\<lparr>app_io := f (app_io a)\<rparr>"

definition stream_log :: "string \<Rightarrow> string \<Rightarrow> sse_request \<Rightarrow> fields \<Rightarrow> 'n io \<Rightarrow> 'n io" where
  "stream_log level message q extra = log_event level message
     ([(''tenant_id'', VStr (sse_tenant q)), (''session_id'', VStr (sse_session_id q)),
       (''path'', VStr ''/api/v1/chat/stream'')] @ extra)"

text \<open>How a pass ends: the loop is left with the final \<open>result\<close>, or goes round.\<close>

datatype ('s, 'n) pass =
    Leave "string list" string "('s, 'n) app"
  | Round "string list" string gen_state "('s, 'n) app"

text \<open>\<open>except asyncio.CancelledError\<close>\<close>

definition sse_cancelled :: "sse_request \<Rightarrow> string list \<Rightarrow> ('s, 'n) app \<Rightarrow> ('s, 'n) pass" where
  "sse_cancelled q out a = Leave out ''disconnect''
     (on_app_io (stream_log ''WARNING'' ''stream cancelled'' q
         [(''result'', VStr ''disconnect''), (''status'', VStr ''cancelled''),
          (''stream_status'', VStr ''cancelled''), (''disconnect_reason'', VStr ''client_cancelled'')]
       \<circ> observe_stream_disconnect ''client_cancelled'') a)"

text \<open>A \<open>yield\<close> that is the last statement before a \<open>break\<close>.\<close>

definition sse_last_yield :: "sse_request \<Rightarrow> disturbance \<Rightarrow> string \<Rightarrow> string \<Rightarrow> ('s, 'n) app \<Rightarrow> ('s, 'n) pass" where
  "sse_last_yield q d sent result a =
     (if d = CancelYield then sse_cancelled q [sent] a else Leave [sent] result a)"

definition error_code_of :: "stream_event \<Rightarrow> string" where
  "error_code_of ev = (case json_get (ev_data ev) ''error'' of
       Inr (JDict kvs) \<Rightarrow> (case map_of kvs ''code'' of Some (JStr c) \<Rightarrow> c | _ \<Rightarrow> ''INTERNAL_ERROR'')
     | _ \<Rightarrow> ''INTERNAL_ERROR'')"

text \<open>The statements of a pass after the next event has arrived.\<close>

definition sse_deliver ::
  "sse_request \<Rightarrow> 'n tick \<Rightarrow> string \<Rightarrow> stream_event \<Rightarrow> gen_state \<Rightarrow> ('s, 'n) app \<Rightarrow> ('s, 'n) pass" where
  "sse_deliver q tk result ev g a =
     (if tk_disturb tk = CancelCheck then sse_cancelled q [] a
      else if tk_gone tk then Leave [] ''disconnect''
        (on_app_io (stream_log ''WARNING'' ''stream client disconnected'' q
            [(''result'', VStr ''disconnect''), (''status'', VStr ''cancelled''),
             (''stream_status'', VStr ''disconnected''), (''disconnect_reason'', VStr ''client_disconnected'')]
          \<circ> observe_stream_disconnect ''client_disconnected'') a)
      else let result' = (if ev_event ev = ''error'' then ''error'' else result);
               a' = (if ev_event ev = ''error'' then on_app_io (observe_stream_error (error_code_of ev)) a else a);
               sent = format_event ev
           in if tk_disturb tk = CancelYield then sse_cancelled q [sent] a'
              else if tk_disturb tk = CloseYield then Leave [sent] result' a'
              else if ev_event ev = ''done'' \<or> ev_event ev = ''error'' then Leave [sent] result' a'
              else Round [sent] result' g a')"

text \<open>
  One pass. \<open>asyncio.wait_for\<close> gives up when the next event takes longer than what is left of
  the budget; the call it cuts off leaves the session store alone, as no step of the
  generator waits on a server after it has written the turn.
\<close>

definition sse_pass ::
  "('s, 'n) chat_service \<Rightarrow> sse_request \<Rightarrow> real \<Rightarrow> 'n tick \<Rightarrow> string \<Rightarrow> gen_state \<Rightarrow> ('s, 'n) app \<Rightarrow> ('s, 'n) pass" where
  "sse_pass svc q started tk result g a0 =
     (let a = on_app_io (\<lambda>w. w\<lparr>clock := clock w + max 0 (tk_pause tk)\<rparr>) a0;
          remaining = sse_timeout q - (clock (app_io a) - started)
      in if remaining \<le> 0
      then sse_last_yield q (tk_disturb tk) (format_event timeout_event) ''timeout''
             (on_app_io (observe_stream_error ''STREAM_TIMEOUT'') a)
      else if tk_disturb tk = CancelWait
      then sse_cancelled q [] (on_app_io (\<lambda>w. w\<lparr>net := tk_cut_net tk\<rparr>) a)
      else case stream_next svc (sse_session_id q) (sse_message q) (sse_request_id q) (sse_trace_id q) g a of
        (y, g', a') \<Rightarrow>
          if clock (app_io a') - clock (app_io a) > remaining
          then sse_last_yield q (tk_disturb tk) (format_event timeout_event) ''timeout''
                 (on_app_io (stream_log ''WARNING'' ''stream timeout exceeded'' q
                     [(''result'', VStr ''timeout''), (''status'', VStr ''error''),
                      (''stream_status'', VStr ''timeout''), (''error_code'', VStr ''STREAM_TIMEOUT'')]
                   \<circ> observe_stream_error ''STREAM_TIMEOUT''
                   \<circ> (\<lambda>w. w\<lparr>net := tk_cut_net tk, clock := clock w + remaining\<rparr>)) a)
          else (case y of
              StopAsyncIteration \<Rightarrow> Leave [] result a'
            | Event ev \<Rightarrow> sse_deliver q tk result ev g' a'))"

lemma sse_deliver_Round: "sse_deliver q tk result ev g a = Round out r g' b \<Longrightarrow> g' = g"
  by (auto simp: sse_deliver_def sse_cancelled_def Let_def split: if_splits)

lemma sse_pass_Round:
  assumes "sse_pass svc q started tk result g a = Round out r g' b"
  shows "(g', g) \<in> gen_rel"
proof -
  let ?a = "on_app_io (\<lambda>w. w\<lparr>clock := clock w + max 0 (tk_pause tk)\<rparr>) a"
  obtain y g1 a1 where n: "stream_next svc (sse_session_id q) (sse_message q) (sse_request_id q) (sse_trace_id q) g ?a
      = (y, g1, a1)" by (metis surj_pair)
  with assms obtain ev where "y = Event ev" "sse_deliver q tk result ev g1 a1 = Round out r g' b"
    by (cases y) (auto simp: sse_pass_def sse_last_yield_def sse_cancelled_def Let_def split: if_splits)
  with n sse_deliver_Round show ?thesis using stream_next_smaller by blast
qed

function sse_loop ::
  "('s, 'n) chat_service \<Rightarrow> sse_request \<Rightarrow> real \<Rightarrow> (nat \<Rightarrow> 'n tick) \<Rightarrow> nat \<Rightarrow> string \<Rightarrow> gen_state \<Rightarrow> ('s, 'n) app \<Rightarrow>
     string list \<times> string \<times> ('s, 'n) app" where
  "sse_loop svc q started env i result g a = (case sse_pass svc q started (env i) result g a of
       Leave out r b \<Rightarrow> (out, r, b)
     | Round out r g' b \<Rightarrow>
         (let (out', r', b') = sse_loop svc q started env (Suc i) r g' b in (out @ out', r', b')))"
  by pat_completeness auto
termination
proof (relation "inv_image gen_rel (\<lambda>(svc, q, st, env, i, r, g, a). g)", goal_cases)
  case (2 svc q st env i r g a out r' g' b)
  then show ?case using sse_pass_Round by (simp add: in_inv_image)
qed (simp add: wf_inv_image)

declare sse_loop.simps [simp del]

text \<open>\<open>event_generator\<close>: the text sent, the final result, and the \<open>finally\<close> block.\<close>

definition event_generator ::
  "('s, 'n) chat_service \<Rightarrow> sse_request \<Rightarrow> (nat \<Rightarrow> 'n tick) \<Rightarrow> ('s, 'n) app \<Rightarrow>
     string list \<times> string \<times> ('s, 'n) app" where
  "event_generator svc q env a =
     (let started = clock (app_io a);
          a1 = on_app_io (stream_log ''INFO'' ''stream request started'' q
                   [(''result'', VStr ''success''), (''status'', VStr ''ok''), (''stream_status'', VStr ''start'')]
                 \<circ> stream_connection_opened) a;
          (out, result, a2) = sse_loop svc q started env 0 ''success'' Unstarted a1;
          duration = clock (app_io a2) - started
      in (out, result,
          on_app_io (stream_log ''INFO'' ''stream request completed'' q
              [(''latency_ms'', VReal (py_round2 (duration * 1000))), (''result'', VStr result),
               (''status'', VStr (if result = ''success'' then ''ok'' else ''error'')),
               (''stream_status'', VStr result)]
            \<circ> stream_connection_closed \<circ> observe_stream_request result duration) a2))"

definition stream_headers :: "request_state \<Rightarrow> (string \<times> string) list" where
  "stream_headers st = [(''Cache-Control'', ''no-cache''), (''Connection'', ''keep-alive''),
     (''X-Accel-Buffering'', ''no'')] @ rate_limit_headers st"

subsection \<open>Framing\<close>

text \<open>
  A client of the stream: it splits the text into lines and takes the events off, three
  lines each (the event's name, its data, and the empty line that ends it).
\<close>

fun sse_frames :: "string list \<Rightarrow> (string \<times> string) list" where
  "sse_frames (event_line # data_line # [] # rest) = (drop 7 event_line, drop 6 data_line) # sse_frames rest"
| "sse_frames _ = []"

definition sse_decode :: "string \<Rightarrow> (string \<times> string) list" where
  "sse_decode text = sse_frames (py_split newline text)"

lemma newline_iff: "c = newline \<longleftrightarrow> (of_char c :: nat) = 10"
proof
  assume "(of_char c :: nat) = 10"
  then have "c = char_of (10 :: nat)" by (metis char_of_char)
  then show "c = newline" by (simp add: newline_def)
qed (simp add: newline_def)

lemma newline_iff': "newline = c \<longleftrightarrow> (of_char c :: nat) = 10"
  by (metis newline_iff)

lemma newline_neq [simp]: "newline \<noteq> CHR 0x22" "newline \<noteq> CHR '','' " "newline \<noteq> CHR '' ''" "newline \<noteq> CHR '':''"
  "newline \<noteq> CHR ''{''" "newline \<noteq> CHR ''}''"
  by (simp_all add: newline_iff')

lemma json_escape_no_newline: "newline \<notin> set (json_escape_char c)"
proof -
  have hex: "hex_digit n \<noteq> newline" if "n < 16" for n :: nat
    using that by (simp add: hex_digit_def newline_iff)
  show ?thesis
    using hex [of "of_char c div 16"] hex [of "of_char c mod 16"]
    by (auto simp: json_escape_char_def Let_def newline_iff newline_iff')
qed

lemma json_string_no_newline [simp]: "newline \<notin> set (json_string s)"
  using json_escape_no_newline by (auto simp: json_string_def)

lemma py_str_int_no_newline [simp]: "newline \<notin> set (py_str_int i)"
proof
  assume "newline \<in> set (py_str_int i)"
  then consider "newline = CHR ''-''" | d where "d < 10" "newline = digit_char d"
    using py_str_int_chars [of newline i] by auto
  then show False by cases (simp_all add: newline_iff' digit_char_def)
qed

text \<open>An event whose name and data are each one line, as every event of the program is.\<close>

definition one_line :: "stream_event \<Rightarrow> bool" where
  "one_line ev \<longleftrightarrow> newline \<notin> set (ev_event ev) \<and> newline \<notin> set (json_dumps (ev_data ev))"

lemma join_no_newline: "(\<forall>x \<in> set xs. newline \<notin> set x) \<Longrightarrow> newline \<notin> set (join_with '', '' xs)"
  by (induction xs) (auto simp: join_with_def newline_iff' split: list.splits)

lemma events_one_line [simp]:
  "one_line (start_event r t s)" "one_line (token_event d n)" "one_line done_event" "one_line (error_event c m)"
  by (simp_all add: one_line_def start_event_def token_event_def done_event_def error_event_def newline_iff'
      join_no_newline)

lemma sse_decode_events:
  "(\<forall>ev \<in> set evs. one_line ev) \<Longrightarrow>
   sse_decode (concat (map format_event evs)) = map (\<lambda>ev. (ev_event ev, json_dumps (ev_data ev))) evs"
proof (induction evs)
  case Nil
  then show ?case by (simp add: sse_decode_def)
next
  case (Cons ev evs)
  let ?rest = "concat (map format_event evs)"
  have sent: "concat (map format_event (ev # evs)) =
      (''event: '' @ ev_event ev) @ newline # (''data: '' @ json_dumps (ev_data ev)) @ newline # [] @ newline # ?rest"
    by (simp add: format_event_def format_sse_def)
  have "newline \<notin> set (''event: '' @ ev_event ev)" "newline \<notin> set (''data: '' @ json_dumps (ev_data ev))"
    using Cons.prems by (auto simp: one_line_def newline_iff')
  then have "py_split newline (concat (map format_event (ev # evs))) =
      (''event: '' @ ev_event ev) # (''data: '' @ json_dumps (ev_data ev)) # [] # py_split newline ?rest"
    unfolding sent by (simp only: py_split_append append_Nil list.set(1) empty_iff not_False_eq_True py_split.simps(2) if_True simp_thms)
  with Cons show ?case by (simp add: sse_decode_def)
qed

subsection \<open>What a stream sends, and what it leaves in the history\<close>

text \<open>The chunks sent so far, and their number.\<close>

fun sent_chunks :: "gen_state \<Rightarrow> string list" where
  "sent_chunks (Streaming _ _ _ cs) = cs"
| "sent_chunks _ = []"

fun tokens_sent :: "gen_state \<Rightarrow> nat" where
  "tokens_sent (Streaming _ _ n _) = n"
| "tokens_sent _ = 0"

fun in_loop :: "gen_state \<Rightarrow> bool" where
  "in_loop Started = True"
| "in_loop (Streaming _ _ _ _) = True"
| "in_loop _ = False"

text \<open>
  The fate of the turn: \<open>ending\<close> is the event that ended the stream, where one was sent. A
  \<open>done\<close> says that the turn is stored, an \<open>error\<close> that it is not; a stream cut short may have
  stored it.
\<close>

definition turn_fate :: "('s \<Rightarrow> string \<Rightarrow> chat_message list) \<Rightarrow> ('t, 'n) chat_service \<Rightarrow> sse_request \<Rightarrow>
    string list \<Rightarrow> stream_event option \<Rightarrow> 's \<Rightarrow> 's \<Rightarrow> bool" where
  "turn_fate hist svc q chunks ending s s' \<longleftrightarrow>
     (let stored = (hist s' = (hist s)(sse_session_id q := keep_recent (history_limit svc)
            (hist s (sse_session_id q) @ [user_msg (sse_message q), assistant_msg (py_strip (concat chunks))])));
          kept = (hist s' = hist s)
      in case ending of
        None \<Rightarrow> stored \<or> kept
      | Some ev \<Rightarrow> (ev = done_event \<and> stored) \<or> ((\<exists>code message. ev = error_event code message) \<and> kept))"

lemma token_not_last [simp]: "token_event d n \<noteq> done_event"
  by (simp add: token_event_def done_event_def)

lemma failure_is_error [simp]: "ev_event (failure_event e) = ''error''" "failure_event e \<noteq> done_event"
  using event_names(3,4) by (auto simp: failure_event_def done_event_def error_event_def)

lemma errors_shape [simp]: "\<exists>c m. failure_event e = error_event c m" "\<exists>c m. timeout_event = error_event c m"
  by (auto simp: failure_event_def timeout_event_def)

lemma timeout_is_error [simp]: "ev_event timeout_event = ''error''" "timeout_event \<noteq> done_event"
  by (simp_all add: timeout_event_def error_event_def done_event_def)

lemma stream_tokens_step:
  "(\<exists>d rest. stream_tokens svc sid um pending after_end n cs a =
      (Event (token_event d (Suc n)), Streaming rest after_end (Suc n) (cs @ [d]), a) \<and> d \<noteq> []) \<or>
   stream_tokens svc sid um pending after_end n cs a = stream_close svc sid um after_end cs a"
proof (induction pending)
  case Nil
  then show ?case by (cases after_end) (simp_all add: stream_close_def)
next
  case (Cons c pending)
  then show ?case by (cases "c = []") auto
qed

text \<open>What a delivered event becomes.\<close>

lemma sse_cancelled_Leave: "\<exists>b. sse_cancelled q out a = Leave out ''disconnect'' b \<and> app_repo b = app_repo a"
  by (simp add: sse_cancelled_def)

lemma sse_deliver_cases:
  obtains (unsent) r b where "sse_deliver q tk result ev g a = Leave [] r b" "app_repo b = app_repo a"
  | (last_sent) r b where "sse_deliver q tk result ev g a = Leave [format_event ev] r b" "app_repo b = app_repo a"
  | (onward) r b where "sse_deliver q tk result ev g a = Round [format_event ev] r g b" "app_repo b = app_repo a"
      "ev_event ev \<noteq> ''done''" "ev_event ev \<noteq> ''error''"
proof -
  have "(\<exists>r b. sse_deliver q tk result ev g a = Leave [] r b \<and> app_repo b = app_repo a) \<or>
    (\<exists>r b. sse_deliver q tk result ev g a = Leave [format_event ev] r b \<and> app_repo b = app_repo a) \<or>
    (\<exists>r b. sse_deliver q tk result ev g a = Round [format_event ev] r g b \<and> app_repo b = app_repo a \<and>
      ev_event ev \<noteq> ''done'' \<and> ev_event ev \<noteq> ''error'')"
    by (simp add: sse_deliver_def sse_cancelled_def Let_def)
  with that show thesis by blast
qed

lemma sse_last_yield_Leave: "\<exists>r' b. sse_last_yield q d sent r a = Leave [sent] r' b \<and> app_repo b = app_repo a"
  by (simp add: sse_last_yield_def sse_cancelled_def)

text \<open>The ways a pass can go.\<close>

lemma sse_pass_cases:
  fixes a :: "('s, 'n) app" and tk :: "'n tick"
  defines "b0 \<equiv> on_app_io (\<lambda>w. w\<lparr>clock := clock w + max 0 (tk_pause tk)\<rparr>) a"
  assumes n: "stream_next svc (sse_session_id q) (sse_message q) (sse_request_id q) (sse_trace_id q) g b0 = (y, g1, a1)"
  obtains (cut) r b where "sse_pass svc q started tk result g a = Leave [] r b" "app_repo b = app_repo a"
  | (late) r b where "sse_pass svc q started tk result g a = Leave [format_event timeout_event] r b" "app_repo b = app_repo a"
  | (ended) "y = StopAsyncIteration"
  | (event) ev where "y = Event ev" "sse_pass svc q started tk result g a = sse_deliver q tk result ev g1 a1"
proof -
  let ?rem = "sse_timeout q - (clock (app_io b0) - started)"
  let ?late1 = "sse_last_yield q (tk_disturb tk) (format_event timeout_event) ''timeout''
             (on_app_io (observe_stream_error ''STREAM_TIMEOUT'') b0)"
  let ?cut = "sse_cancelled q [] (on_app_io (\<lambda>w. w\<lparr>net := tk_cut_net tk\<rparr>) b0)"
  let ?late2 = "sse_last_yield q (tk_disturb tk) (format_event timeout_event) ''timeout''
                 (on_app_io (stream_log ''WARNING'' ''stream timeout exceeded'' q
                     [(''result'', VStr ''timeout''), (''status'', VStr ''error''),
                      (''stream_status'', VStr ''timeout''), (''error_code'', VStr ''STREAM_TIMEOUT'')]
                   \<circ> observe_stream_error ''STREAM_TIMEOUT''
                   \<circ> (\<lambda>w. w\<lparr>net := tk_cut_net tk, clock := clock w + ?rem\<rparr>)) b0)"
  have pass: "sse_pass svc q started tk result g a =
      (if ?rem \<le> 0 then ?late1 else if tk_disturb tk = CancelWait then ?cut
       else if clock (app_io a1) - clock (app_io b0) > ?rem then ?late2
       else (case y of StopAsyncIteration \<Rightarrow> Leave [] result a1
              | Event ev \<Rightarrow> sse_deliver q tk result ev g1 a1))"
    using n unfolding sse_pass_def Let_def b0_def by simp
  have repo: "app_repo b0 = app_repo a" by (simp add: b0_def)
  have timed: thesis if "sse_pass svc q started tk result g a =
      sse_last_yield q d (format_event timeout_event) r (on_app_io f b0)" for d r f
    using sse_last_yield_Leave [of q d "format_event timeout_event" r "on_app_io f b0"] that repo
    by (auto intro: late)
  show thesis
  proof (cases "?rem \<le> 0")
    case True
    with pass show thesis by (intro timed) simp
  next
    case in_time: False
    show thesis
    proof (cases "tk_disturb tk = CancelWait")
      case True
      with in_time pass repo show thesis using sse_cancelled_Leave [of q "[]" "on_app_io (\<lambda>w. w\<lparr>net := tk_cut_net tk\<rparr>) b0"]
        by (auto intro: cut)
    next
      case False
      show thesis
      proof (cases "clock (app_io a1) - clock (app_io b0) > ?rem")
        case True
        with in_time False pass show thesis by (intro timed) simp
      next
        case ok: False
        with in_time False pass show thesis by (cases y) (auto intro: ended event)
      qed
    qed
  qed
qed

context session_repository
begin

text \<open>One step of the generator inside the loop over the chunks.\<close>

lemma stream_step:
  assumes "stream_next svc (sse_session_id q) (sse_message q) rid tid g a = (y, g', a')" "in_loop g"
    and "svc_repo svc = port" "ready (app_repo a) (sse_session_id q)"
  obtains (token) d where "y = Event (token_event d (Suc (tokens_sent g)))" "d \<noteq> []" "in_loop g'"
      "tokens_sent g' = Suc (tokens_sent g)" "sent_chunks g' = sent_chunks g @ [d]"
      "history (app_repo a') = history (app_repo a)" "ready (app_repo a') = ready (app_repo a)"
  | (ending) ev where "y = Event ev" "turn_fate history svc q (sent_chunks g) (Some ev) (app_repo a) (app_repo a')"
      "g' = Finishing"
proof -
  have loop: thesis
    if n: "stream_tokens svc (sse_session_id q) (sse_message q) pending after_end n cs a0 = (y, g', a')"
      and g: "n = tokens_sent g" "cs = sent_chunks g"
      and a0: "history (app_repo a0) = history (app_repo a)" "ready (app_repo a0) = ready (app_repo a)"
    for pending after_end n cs a0
    using stream_tokens_step [of svc "sse_session_id q" "sse_message q" pending after_end n cs a0]
  proof
    assume "\<exists>d rest. stream_tokens svc (sse_session_id q) (sse_message q) pending after_end n cs a0 =
      (Event (token_event d (Suc n)), Streaming rest after_end (Suc n) (cs @ [d]), a0) \<and> d \<noteq> []"
    then obtain d rest where "stream_tokens svc (sse_session_id q) (sse_message q) pending after_end n cs a0 =
      (Event (token_event d (Suc n)), Streaming rest after_end (Suc n) (cs @ [d]), a0)" "d \<noteq> []" by blast
    with n g a0 show thesis by (intro token [of d]) auto
  next
    assume cl: "stream_tokens svc (sse_session_id q) (sse_message q) pending after_end n cs a0 =
      stream_close svc (sse_session_id q) (sse_message q) after_end cs a0"
    obtain ev b where ev: "stream_close svc (sse_session_id q) (sse_message q) after_end cs a0 = (Event ev, Finishing, b)"
      by (rule stream_close_shape)
    have rdy: "ready (app_repo a0) (sse_session_id q)" using assms(4) a0 by simp
    have "turn_fate history svc q cs (Some ev) (app_repo a) (app_repo b)"
      using ev assms(3) rdy
      by (cases rule: stream_close_history) (simp_all add: turn_fate_def Let_def a0)
    with n cl ev g show thesis by (intro ending [of ev]) auto
  qed
  show thesis
  proof (cases g)
    case Started
    have kept: "turn_fate history svc q [] (Some (failure_event e)) s s'" if "history s' = history s" for e s s'
      using that by (simp add: turn_fate_def Let_def)
    show thesis
    proof (cases "py_strip (sse_message q) = []")
      case True
      with Started assms(1) kept show thesis
        by (intro ending [of "failure_event empty_message_error"]) (auto simp: stream_open_def stream_fail_def)
    next
      case False
      obtain r s1 where get: "repo_get_history port (sse_session_id q) (app_repo a) = (r, s1)" by fastforce
      note same = get_keeps [OF get]
      show thesis
      proof (cases r)
        case (Inl e)
        with Started False assms(1,3) get kept same show thesis
          by (intro ending [of "failure_event e"]) (auto simp: stream_open_def stream_fail_def)
      next
        case (Inr h)
        obtain chunks after_end w1 where c: "reply_chunks svc (build_prompt_history h (sse_message q) (svc_max_history_turns svc))
            (app_io a) = ((chunks, after_end), w1)" by (metis surj_pair)
        with Started False assms(1,3) get Inr show thesis
          by (intro loop [of chunks after_end 0 "[]" "a\<lparr>app_repo := s1, app_io := w1\<rparr>"])
            (simp_all add: stream_open_def same)
      qed
    qed
  next
    case (Streaming rest after_end n cs)
    with assms(1) show thesis by (intro loop [of rest after_end n cs a]) simp_all
  qed (use assms(2) in simp_all)
qed

text \<open>One pass of the loop that writes the events.\<close>

lemma sse_pass_step:
  assumes "in_loop g" "svc_repo svc = port" "ready (app_repo a) (sse_session_id q)"
  obtains (leave) ds ending r b where "sse_pass svc q started tk result g a =
        Leave (map format_event (token_events (tokens_sent g) ds @ option_list ending)) r b"
      "[] \<notin> set ds" "turn_fate history svc q (sent_chunks g @ ds) ending (app_repo a) (app_repo b)"
  | (round) d r g' b where "sse_pass svc q started tk result g a =
        Round [format_event (token_event d (Suc (tokens_sent g)))] r g' b" "d \<noteq> []" "in_loop g'"
      "tokens_sent g' = Suc (tokens_sent g)" "sent_chunks g' = sent_chunks g @ [d]"
      "history (app_repo b) = history (app_repo a)" "ready (app_repo b) = ready (app_repo a)"
proof -
  let ?a = "on_app_io (\<lambda>w. w\<lparr>clock := clock w + max 0 (tk_pause tk)\<rparr>) a"
  let ?pass = "sse_pass svc q started tk result g a"
  have kept: "turn_fate history svc q cs None s s'" "turn_fate history svc q cs (Some timeout_event) s s'"
    if "history s' = history s" for cs s s'
    using that by (simp_all add: turn_fate_def Let_def)
  have silent: thesis if "?pass = Leave [] r b" "history (app_repo b) = history (app_repo a)" for r b
    using that kept(1) by (intro leave [of "[]" None r b]) simp_all
  have timed: thesis if "?pass = Leave [format_event timeout_event] r b" "history (app_repo b) = history (app_repo a)" for r b
    using that kept(2) by (intro leave [of "[]" "Some timeout_event" r b]) simp_all
  obtain y g1 a1 where n: "stream_next svc (sse_session_id q) (sse_message q) (sse_request_id q) (sse_trace_id q) g ?a
      = (y, g1, a1)" by (metis surj_pair)
  consider (cut) r b where "?pass = Leave [] r b" "app_repo b = app_repo a"
    | (late) r b where "?pass = Leave [format_event timeout_event] r b" "app_repo b = app_repo a"
    | (ended) "y = StopAsyncIteration"
    | (event) ev where "y = Event ev" "?pass = sse_deliver q tk result ev g1 a1"
    by (rule sse_pass_cases [OF n])
  then show thesis
  proof cases
    case cut
    then show thesis by (intro silent [of r b]) simp_all
  next
    case late
    then show thesis by (intro timed [of r b]) simp_all
  next
    case ended
    have "ready (app_repo ?a) (sse_session_id q)" using assms(3) by simp
    from n assms(1,2) this show thesis
      by (cases rule: stream_step) (simp_all add: ended)
  next
    case (event ev)
    have "ready (app_repo ?a) (sse_session_id q)" using assms(3) by simp
    from n assms(1,2) this show thesis
    proof (cases rule: stream_step)
      case (token d)
      then have ev: "ev = token_event d (Suc (tokens_sent g))" using event by simp
      show thesis
      proof (cases rule: sse_deliver_cases [of q tk result ev g1 a1])
        case (unsent r b)
        with event token show thesis by (intro silent [of r b]) simp_all
      next
        case (last_sent r b)
        with event token ev kept(1) show thesis
          by (intro leave [of "[d]" None r b]) simp_all
      next
        case (onward r b)
        with event token ev show thesis by (intro round [of d r g1 b]) simp_all
      qed
    next
      case (ending ev')
      then have ev: "ev' = ev" using event by simp
      have fate: "turn_fate history svc q (sent_chunks g) None (app_repo a) (app_repo a1)"
        using ending(2) by (auto simp: turn_fate_def Let_def)
      show thesis
      proof (cases rule: sse_deliver_cases [of q tk result ev g1 a1])
        case (unsent r b)
        with event fate show thesis by (intro leave [of "[]" None r b]) simp_all
      next
        case (last_sent r b)
        with event ending(2) ev show thesis by (intro leave [of "[]" "Some ev" r b]) simp_all
      next
        case (onward r b)
        with ending(2) ev show thesis by (auto simp: turn_fate_def Let_def)
      qed
    qed
  qed
qed

end

context session_repository
begin

lemma sse_loop_transcript:
  assumes "sse_loop svc q started env i result g a = (out, r, b)" "in_loop g"
    and "svc_repo svc = port" "ready (app_repo a) (sse_session_id q)"
  shows "\<exists>ds ending. out = map format_event (token_events (tokens_sent g) ds @ option_list ending) \<and> [] \<notin> set ds \<and>
    turn_fate history svc q (sent_chunks g @ ds) ending (app_repo a) (app_repo b)"
  using assms
proof (induction svc q started env i result g a arbitrary: out r b rule: sse_loop.induct)
  case (1 svc q started env i result g a)
  note loop = 1(2) [unfolded sse_loop.simps [of svc q started env i result g a]]
  from 1(3,4,5) show ?case
  proof (cases rule: sse_pass_step [where started = started and tk = "env i" and result = result])
    case (leave ds ending r1 b1)
    with loop have "out = map format_event (token_events (tokens_sent g) ds @ option_list ending)" "b = b1" by simp_all
    with leave show ?thesis by blast
  next
    case (round d r1 g1 b1)
    obtain out1 r2 b2 where rest: "sse_loop svc q started env (Suc i) r1 g1 b1 = (out1, r2, b2)"
      by (metis surj_pair)
    have "ready (app_repo b1) (sse_session_id q)" using round(7) 1(5) by simp
    from 1(1) [OF round(1) rest round(3) 1(4) this] obtain ds ending where tail:
      "out1 = map format_event (token_events (tokens_sent g1) ds @ option_list ending)" "[] \<notin> set ds"
      "turn_fate history svc q (sent_chunks g1 @ ds) ending (app_repo b1) (app_repo b2)" by blast
    have "out = format_event (token_event d (Suc (tokens_sent g))) # out1" "b = b2"
      using loop round(1) rest by simp_all
    with tail round show ?thesis
      by (intro exI [of _ "d # ds"] exI [of _ ending]) (simp add: turn_fate_def)
  qed
qed

text \<open>The whole response.\<close>

lemma event_generator_transcript:
  assumes "event_generator svc q env a = (out, result, a')" "svc_repo svc = port"
    and "ready (app_repo a) (sse_session_id q)"
  obtains (unstarted) "out = [] \<or> out = [format_event timeout_event]" "history (app_repo a') = history (app_repo a)"
  | (started) ds ending where "out = map format_event
        (start_event (sse_request_id q) (sse_trace_id q) (sse_session_id q) # token_events 0 ds @ option_list ending)"
      "[] \<notin> set ds" "turn_fate history svc q ds ending (app_repo a) (app_repo a')"
proof -
  let ?st = "clock (app_io a)"
  let ?start = "start_event (sse_request_id q) (sse_trace_id q) (sse_session_id q)"
  obtain a1 a2 where loop: "sse_loop svc q ?st env 0 ''success'' Unstarted a1 = (out, result, a2)"
    and repo: "app_repo a1 = app_repo a" "app_repo a' = app_repo a2"
    using assms(1) by (auto simp: event_generator_def Let_def split: prod.splits)
  let ?b = "on_app_io (\<lambda>w. w\<lparr>clock := clock w + max 0 (tk_pause (env 0))\<rparr>) a1"
  have n: "stream_next svc (sse_session_id q) (sse_message q) (sse_request_id q) (sse_trace_id q) Unstarted ?b
      = (Event ?start, Started, ?b)" by simp
  note unfold = sse_loop.simps [of svc q ?st env 0 "''success''" Unstarted a1]
  show thesis
  proof (cases rule: sse_pass_cases [OF n, of ?st "''success''"])
    case (1 r b)
    with loop repo show thesis by (intro unstarted) (simp_all add: unfold)
  next
    case (2 r b)
    with loop repo show thesis by (intro unstarted) (simp_all add: unfold)
  next
    case 3
    then show thesis by simp
  next
    case (4 ev)
    then have ev: "ev = ?start" by simp
    show thesis
    proof (cases rule: sse_deliver_cases [of q "env 0" "''success''" ev Started ?b])
      case (unsent r b)
      with 4 loop repo show thesis by (intro unstarted) (simp_all add: unfold)
    next
      case (last_sent r b)
      with 4 loop repo ev show thesis
        by (intro started [of "[]" None]) (simp_all add: unfold turn_fate_def)
    next
      case (onward r b)
      obtain out1 r1 b1 where rest: "sse_loop svc q ?st env (Suc 0) r Started b = (out1, r1, b1)" by (metis surj_pair)
      have "ready (app_repo b) (sse_session_id q)" using onward(2) repo assms(3) by simp
      with sse_loop_transcript [OF rest _ assms(2)] obtain ds ending where tail:
        "out1 = map format_event (token_events 0 ds @ option_list ending)" "[] \<notin> set ds"
        "turn_fate history svc q ds ending (app_repo b) (app_repo b1)" by auto
      have "out = format_event ?start # out1" "b1 = a2"
        using loop 4 onward(1) rest ev by (simp_all add: unfold)
      with tail onward(2) repo show thesis by (intro started [of ds ending]) simp_all
    qed
  qed
qed

end

subsection \<open>What a stream counts\<close>

text \<open>A port whose chunks move no gauge and no counter, as those of the two clients.\<close>

definition uncounted_llm :: "'n llm_port \<Rightarrow> bool" where
  "uncounted_llm llm \<longleftrightarrow> (\<forall>ms w. counts (snd (llm_generate llm ms w)) = counts w) \<and>
     (\<forall>gen ms w. llm_generate_stream llm = Some gen \<longrightarrow> counts (snd (gen ms w)) = counts w)"

lemma uncounted_vllm: "uncounted_llm (VLLMHTTPClient post get aclose cfg)"
  by (auto simp: uncounted_llm_def VLLMHTTPClient_def vllm_generate_counts vllm_generate_stream_def
      stream_of_generate_def split: prod.splits sum.splits dest!: arg_cong [where f = snd])

text \<open>The active connections, and the finished streams by result.\<close>

definition io_counts :: "'n io \<Rightarrow> int \<times> (string list \<Rightarrow> nat)" where
  "io_counts w = (gauge ''chat_stream_active_connections'' (metrics w),
     (\<lambda>ls. counter ''chat_stream_request_total'' ls (metrics w)))"

abbreviation stream_counts :: "('s, 'n) app \<Rightarrow> int \<times> (string list \<Rightarrow> nat)" where
  "stream_counts a \<equiv> io_counts (app_io a)"

lemma stream_counts_cong: "counts (app_io b) = counts (app_io a) \<Longrightarrow> stream_counts b = stream_counts a"
  by (simp add: io_counts_def counts_def fun_eq_iff)

lemma reply_chunks_counts:
  assumes "uncounted_llm (svc_llm svc)"
  shows "counts (snd (reply_chunks svc ms w)) = counts w"
  using assms
  by (auto simp: reply_chunks_def uncounted_llm_def split: option.splits prod.splits sum.splits) (metis snd_conv)+

lemma failure_log_counts [simp]: "counts (failure_log sid e w) = counts w"
  by (simp add: failure_log_def)

lemma stream_tokens_counts:
  "counts (app_io (snd (snd (stream_tokens svc sid um pending after_end n cs a)))) = counts (app_io a)"
proof (induction pending)
  case Nil
  then show ?case
    by (cases after_end) (simp_all add: stream_finish_def stream_fail_def Let_def split: prod.splits sum.splits)
qed simp

lemma stream_next_counts:
  assumes "uncounted_llm (svc_llm svc)"
  shows "counts (app_io (snd (snd (stream_next svc sid um rid tid g a)))) = counts (app_io a)"
proof (cases g)
  case Started
  have "counts w1 = counts (app_io a)" if "reply_chunks svc ms (app_io a) = (c, w1)" for ms c w1
    using reply_chunks_counts [OF assms, of ms "app_io a"] that by simp
  then show ?thesis
    by (auto simp: Started stream_open_def stream_fail_def Let_def stream_tokens_counts split: prod.splits sum.splits)
qed (simp_all add: stream_tokens_counts)

lemma io_counts_frame [simp]:
  "io_counts (observe_stream_error c w) = io_counts w" "io_counts (observe_stream_disconnect r w) = io_counts w"
  "io_counts (stream_log l m q fs w) = io_counts w" "io_counts (w\<lparr>clock := t\<rparr>) = io_counts w"
  "io_counts (w\<lparr>net := n\<rparr>) = io_counts w"
  by (simp_all add: io_counts_def observe_defs stream_log_def frame_simps)

fun pass_app :: "('s, 'n) pass \<Rightarrow> ('s, 'n) app" where
  "pass_app (Leave out r b) = b"
| "pass_app (Round out r g b) = b"

fun pass_result :: "('s, 'n) pass \<Rightarrow> string" where
  "pass_result (Leave out r b) = r"
| "pass_result (Round out r g b) = r"

definition stream_results :: "string set" where
  "stream_results = {''success'', ''error'', ''timeout'', ''disconnect''}"

lemma sse_cancelled_counts [simp]: "stream_counts (pass_app (sse_cancelled q out a)) = stream_counts a"
  "pass_result (sse_cancelled q out a) = ''disconnect''"
  by (simp_all add: sse_cancelled_def)

lemma sse_last_yield_counts [simp]: "stream_counts (pass_app (sse_last_yield q d sent r a)) = stream_counts a"
  "pass_result (sse_last_yield q d sent ''timeout'' a) \<in> stream_results"
  by (simp_all add: sse_last_yield_def stream_results_def)

lemma sse_deliver_counts: "stream_counts (pass_app (sse_deliver q tk r ev g a)) = stream_counts a"
  "r \<in> stream_results \<Longrightarrow> pass_result (sse_deliver q tk r ev g a) \<in> stream_results"
  by (simp_all add: sse_deliver_def Let_def stream_results_def)



lemma sse_pass_counts:
  assumes "uncounted_llm (svc_llm svc)" "r \<in> stream_results"
  shows "stream_counts (pass_app (sse_pass svc q started tk r g a)) = stream_counts a \<and>
    pass_result (sse_pass svc q started tk r g a) \<in> stream_results"
proof -
  let ?b = "on_app_io (\<lambda>w. w\<lparr>clock := clock w + max 0 (tk_pause tk)\<rparr>) a"
  obtain y g1 a1 where n: "stream_next svc (sse_session_id q) (sse_message q) (sse_request_id q) (sse_trace_id q) g ?b
      = (y, g1, a1)" by (metis surj_pair)
  have a1: "stream_counts a1 = stream_counts a"
    using stream_counts_cong [of a1 ?b]
      stream_next_counts [OF assms(1), of "sse_session_id q" "sse_message q" "sse_request_id q" "sse_trace_id q" g ?b] n
    by simp

  have dis: "''disconnect'' \<in> stream_results" by (simp add: stream_results_def)
  show ?thesis
    unfolding sse_pass_def Let_def n prod.case
    by (cases y) (simp_all add: dis sse_deliver_counts a1 assms(2))
qed

lemma sse_loop_counts:
  assumes "sse_loop svc q started env i r g a = (out, r', b)" "uncounted_llm (svc_llm svc)" "r \<in> stream_results"
  shows "stream_counts b = stream_counts a \<and> r' \<in> stream_results"
  using assms
proof (induction svc q started env i r g a arbitrary: out r' b rule: sse_loop.induct)
  case (1 svc q started env i r g a)
  note pass = sse_pass_counts [OF 1(3,4), of q started "env i" g a]
  show ?case
  proof (cases "sse_pass svc q started (env i) r g a")
    case (Leave out1 r1 b1)
    with 1(2) pass show ?thesis by (simp add: sse_loop.simps [of svc q started env i r g a])
  next
    case (Round out1 r1 g1 b1)
    obtain out2 r2 b2 where rest: "sse_loop svc q started env (Suc i) r1 g1 b1 = (out2, r2, b2)" by (metis surj_pair)
    with 1(2) Round have "r2 = r'" "b2 = b" by (simp_all add: sse_loop.simps [of svc q started env i r g a])
    with 1(1) [OF Round rest 1(3)] pass Round show ?thesis by simp
  qed
qed

subsection \<open>Properties\<close>

text \<open>
  C13: whatever happens to a stream (a model that fails, a timeout, a client that leaves, a
  task that is cancelled, a generator that is closed), it counts as one finished stream, with
  one of the four results, and gives back the connection it counted as active.
\<close>

theorem stream_accounted:
  "case event_generator (ChatOrchestrationService (VLLMHTTPClient post get aclose cfg) tts repo turns chunk_size) q env a of
     (out, result, a') \<Rightarrow> result \<in> {''success'', ''error'', ''timeout'', ''disconnect''} \<and>
       gauge ''chat_stream_active_connections'' (metrics (app_io a')) =
         gauge ''chat_stream_active_connections'' (metrics (app_io a)) \<and>
       (\<forall>ls. counter ''chat_stream_request_total'' ls (metrics (app_io a')) =
         counter ''chat_stream_request_total'' ls (metrics (app_io a)) + (if ls = [result] then 1 else 0))"
proof -
  let ?svc = "ChatOrchestrationService (VLLMHTTPClient post get aclose cfg) tts repo turns chunk_size"
  have llm: "uncounted_llm (svc_llm ?svc)" by (simp add: ChatOrchestrationService_def uncounted_vllm)
  let ?a1 = "on_app_io (stream_log ''INFO'' ''stream request started'' q
       [(''result'', VStr ''success''), (''status'', VStr ''ok''), (''stream_status'', VStr ''start'')]
     \<circ> stream_connection_opened) a"
  obtain out result b where loop: "sse_loop ?svc q (clock (app_io a)) env 0 ''success'' Unstarted ?a1 = (out, result, b)"
    by (metis surj_pair)
  have "stream_counts b = stream_counts ?a1 \<and> result \<in> stream_results"
    using sse_loop_counts [OF loop llm] by (simp add: stream_results_def)
  then show ?thesis
    unfolding event_generator_def Let_def loop prod.case
    by (simp add: stream_results_def io_counts_def fun_eq_iff stream_log_def observe_defs frame_simps)
qed


text \<open>
  C21: the text of a stream decodes to its events: splitting it into lines gives back, in order
  and without loss, the name and the JSON text of each event sent, whatever characters the
  reply, the ids and the error messages hold; the data of each event is as the schema that
  \<open>schemas/streaming.py\<close> declares for its name.
\<close>

theorem stream_decodes:
  "\<exists>events. fst (event_generator (over_memory svc) q env a) = map format_event events \<and> list_all event_schema events \<and>
     sse_decode (concat (fst (event_generator (over_memory svc) q env a))) =
       map (\<lambda>ev. (ev_event ev, json_dumps (ev_data ev))) events"
proof -
  obtain out result a' where run: "event_generator (over_memory svc) q env a = (out, result, a')" by (metis surj_pair)
  have timeout: "one_line timeout_event" "event_schema timeout_event" by (simp_all add: timeout_event_def)
  have toks: "\<forall>ev \<in> set (token_events n ds). one_line ev \<and> event_schema ev" for n ds
    by (induction n ds rule: token_events.induct) auto
  have "svc_repo (over_memory svc) = InMemorySessionRepository" by simp
  from run this TrueI have "\<exists>events. out = map format_event events \<and> (\<forall>ev \<in> set events. one_line ev \<and> event_schema ev)"
  proof (cases rule: mem.event_generator_transcript)
    case unstarted
    with timeout show ?thesis by (auto intro: exI [of _ "[]"] exI [of _ "[timeout_event]"])
  next
    case (started ds ending)
    have "\<forall>ev \<in> set (option_list ending). one_line ev \<and> event_schema ev"
      using started(3) by (auto simp: turn_fate_def Let_def split: option.splits)
    with started(1) toks show ?thesis
      by (intro exI [of _ "start_event (sse_request_id q) (sse_trace_id q) (sse_session_id q) # token_events 0 ds @ option_list ending"])
        auto
  qed
  then show ?thesis using sse_decode_events by (auto simp: run list_all_iff)
qed

end
