(* ===== verification/Application.thy ===== *)
theory Application
  imports Bootstrap Chat_Routes
begin

text \<open>
  The application (\<open>app/main.py\<close>): the exception handlers, the two middlewares around every
  request, and the chat endpoint put together from its dependency, its route and the handlers.
\<close>

subsection \<open>Requests and responses\<close>

record http_response =
  rs_status :: int
  rs_headers :: "(string \<times> string) list"
  rs_body :: json

text \<open>
  The head of a request; \<open>hd_fresh_request_id\<close> and \<open>hd_fresh_trace_id\<close> are the values that
  \<open>uuid.uuid4\<close> would give.
\<close>

record request_head =
  hd_method :: string
  hd_path :: string
  hd_request_id :: "string option"
  hd_trace_id :: "string option"
  hd_fresh_request_id :: string
  hd_fresh_trace_id :: string

text \<open>\<open>request.headers.get(name) or str(uuid.uuid4())\<close>\<close>

definition header_or :: "string option \<Rightarrow> string \<Rightarrow> string" where
  "header_or h fresh = (case h of None \<Rightarrow> fresh | Some v \<Rightarrow> if v = [] then fresh else v)"

definition request_id :: "request_head \<Rightarrow> string" where
  "request_id h = header_or (hd_request_id h) (hd_fresh_request_id h)"

definition trace_id :: "request_head \<Rightarrow> string" where
  "trace_id h = header_or (hd_trace_id h) (hd_fresh_trace_id h)"

definition error_response :: "request_head \<Rightarrow> int \<Rightarrow> string \<Rightarrow> string \<Rightarrow> http_response" where
  "error_response h status code message = \<lparr>rs_status = status, rs_headers = [],
     rs_body = JDict [(''error'', JDict [(''code'', JStr code), (''message'', JStr message),
       (''request_id'', JStr (request_id h)), (''trace_id'', JStr (trace_id h))])]\<rparr>"

text \<open>\<open>ErrorResponse\<close> of \<open>app/api/schemas/common.py\<close>: every body of an error has this form.\<close>

definition ErrorDetail :: "json \<Rightarrow> bool" where
  "ErrorDetail d \<longleftrightarrow> str_field ''code'' d \<and> str_field ''message'' d \<and> str_field ''request_id'' d \<and> str_field ''trace_id'' d"

definition ErrorResponse :: "json \<Rightarrow> bool" where
  "ErrorResponse d \<longleftrightarrow> (case dict_field ''error'' d of None \<Rightarrow> False | Some e \<Rightarrow> ErrorDetail e)"

lemma error_response_schema: "ErrorResponse (rs_body (error_response h status code message))"
  by (simp add: error_response_def ErrorResponse_def ErrorDetail_def str_field_def dict_field_def)

subsection \<open>The exception handlers\<close>

definition request_validation_exception_handler :: "request_head \<Rightarrow> http_response" where
  "request_validation_exception_handler h =
     error_response h 422 ''INVALID_ARGUMENT'' ''invalid request payload''"

definition domain_status :: "exn \<Rightarrow> int" where
  "domain_status exc =
     (if isinstance exc ValidationError then 422
      else if isinstance exc UnauthorizedError then 401
      else if isinstance exc ForbiddenError then 403
      else if isinstance exc RateLimitExceededError then 429
      else if isinstance exc InfraError then 503
      else 400)"

definition domain_exception_handler :: "request_head \<Rightarrow> exn \<Rightarrow> 'n io \<Rightarrow> http_response \<times> 'n io" where
  "domain_exception_handler h exc w =
     (let status_code = domain_status exc; code = error_code_or ''DOMAIN_ERROR'' exc
      in (error_response h status_code code (exn_msg exc),
          log_event_exc ''ERROR'' ''domain exception''
            [(''path'', VStr (hd_path h)), (''status'', VStr ''error''), (''result'', VStr ''failure''),
             (''error_code'', VStr code), (''error_type'', VStr (class_name (exn_cls exc))),
             (''error_message'', VStr (exn_msg exc)), (''status_code'', VInt status_code)] (status_code \<ge> 500) w))"

definition unhandled_exception_handler :: "request_head \<Rightarrow> exn \<Rightarrow> 'n io \<Rightarrow> http_response \<times> 'n io" where
  "unhandled_exception_handler h exc w =
     (error_response h 500 ''INTERNAL_ERROR'' ''internal server error'',
      log_event_exc ''ERROR'' ''unhandled exception''
        [(''path'', VStr (hd_path h)), (''status'', VStr ''error''), (''result'', VStr ''failure''),
         (''error_type'', VStr (class_name (exn_cls exc))), (''error_message'', VStr (exn_msg exc)),
         (''status_code'', VInt 500)] True w)"

subsection \<open>The middlewares\<close>

text \<open>
  A handler of requests acts on the whole site. The domain handler runs inside both
  middlewares; an exception outside the hierarchy goes through them and is answered by the
  unhandled handler outside, as the framework orders them.
\<close>

type_synonym ('s, 'l, 'n) handler = "('s, 'l, 'n) site \<Rightarrow> (exn + http_response) \<times> ('s, 'l, 'n) site"

abbreviation on_site_io :: "('n io \<Rightarrow> 'n io) \<Rightarrow> ('s, 'l, 'n) site \<Rightarrow> ('s, 'l, 'n) site" where
  "on_site_io f st \<equiv> st\<lparr>site_io := f (site_io st)\<rparr>"

definition with_domain_handler :: "request_head \<Rightarrow> ('s, 'l, 'n) handler \<Rightarrow> ('s, 'l, 'n) handler" where
  "with_domain_handler h next_handler st = (case next_handler st of
       (Inr resp, st1) \<Rightarrow> (Inr resp, st1)
     | (Inl e, st1) \<Rightarrow>
         if is_domain e then (let (resp, w) = domain_exception_handler h e (site_io st1) in (Inr resp, st1\<lparr>site_io := w\<rparr>))
         else (Inl e, st1))"

definition metrics_middleware :: "request_head \<Rightarrow> ('s, 'l, 'n) handler \<Rightarrow> ('s, 'l, 'n) handler" where
  "metrics_middleware h next_handler st =
     (let start = clock (site_io st);
          (r, st1) = next_handler (on_site_io (emit [GaugeInc ''app_request_in_progress'']) st);
          status_code = (case r of Inl _ \<Rightarrow> 500 | Inr resp \<Rightarrow> rs_status resp);
          duration = clock (site_io st1) - start
      in (r, on_site_io (emit [Inc ''app_request_total'' [hd_method h, hd_path h, py_str_int status_code],
               Observe ''app_request_latency_seconds'' [hd_method h, hd_path h] duration,
               GaugeDec ''app_request_in_progress'']) st1))"

definition request_context_middleware :: "request_head \<Rightarrow> ('s, 'l, 'n) handler \<Rightarrow> ('s, 'l, 'n) handler" where
  "request_context_middleware h next_handler st =
     (let started = clock (site_io st) in
      case next_handler st of
        (Inl e, st1) \<Rightarrow> (Inl e, st1)
      | (Inr resp, st1) \<Rightarrow>
          let latency_ms = py_round2 ((clock (site_io st1) - started) * 1000) in
          (Inr (resp\<lparr>rs_headers := rs_headers resp @ [(''x-request-id'', request_id h), (''x-trace-id'', trace_id h)]\<rparr>),
           on_site_io (log_event ''INFO'' ''http request handled''
             [(''path'', VStr (hd_path h)), (''latency_ms'', VReal latency_ms), (''status'', VStr (py_str_int (rs_status resp))),
              (''result'', VStr (if rs_status resp < 500 then ''success'' else ''failure''))]) st1))"

definition handle_request :: "request_head \<Rightarrow> ('s, 'l, 'n) handler \<Rightarrow> ('s, 'l, 'n) site \<Rightarrow> http_response \<times> ('s, 'l, 'n) site" where
  "handle_request h route st =
     (case request_context_middleware h (metrics_middleware h (with_domain_handler h route)) st of
        (Inr resp, st1) \<Rightarrow> (resp, st1)
      | (Inl e, st1) \<Rightarrow> (let (resp, w) = unhandled_exception_handler h e (site_io st1) in (resp, st1\<lparr>site_io := w\<rparr>)))"

subsection \<open>The chat endpoint\<close>

definition chat_response_json :: "chat_response \<Rightarrow> json" where
  "chat_response_json r = JDict
     [(''status'', JStr (resp_status r)), (''message'', JStr (resp_message r)),
      (''request_id'', JStr (resp_request_id r)), (''trace_id'', JStr (resp_trace_id r)),
      (''data'', JDict [(''text'', JStr (resp_text r)), (''audio_url'', json_opt_str (resp_audio_url r)),
         (''response_mode'', JStr (resp_response_mode r))])]"

text \<open>\<open>Depends(get_chat_service)\<close>: the service of the application's container.\<close>

abbreviation get_chat_service :: "('s, 'l, 'n) container \<Rightarrow> ('s, 'n) chat_service" where
  "get_chat_service ct \<equiv> ct_service ct"

text \<open>\<open>POST /api/v1/chat\<close> on a valid body: the dependency, then the route.\<close>

definition chat_endpoint ::
  "('s, 'l, 'n) container \<Rightarrow> settings \<Rightarrow> request_head \<Rightarrow> http_request \<Rightarrow> int \<Rightarrow> chat_request \<Rightarrow> ('s, 'l, 'n) handler" where
  "chat_endpoint ct settings h rq now payload st =
     (case auth_dependency (ct_limiter ct) settings ''chat_sync'' rq now
             \<lparr>gate_limiter = site_limiter st, gate_io = site_io st\<rparr> of
        (Inl e, rst, g) \<Rightarrow> (Inl e, st\<lparr>site_limiter := gate_limiter g, site_io := gate_io g\<rparr>)
      | (Inr access, rst, g) \<Rightarrow>
          (case chat_route (get_chat_service ct) (request_id h) (trace_id h) access rst payload
                  \<lparr>app_repo = site_repo st, app_io = gate_io g\<rparr> of
             (Inl e, a) \<Rightarrow>
               (Inl e, st\<lparr>site_limiter := gate_limiter g, site_repo := app_repo a, site_io := app_io a\<rparr>)
           | (Inr (resp, headers), a) \<Rightarrow>
               (Inr \<lparr>rs_status = 200, rs_headers = headers, rs_body = chat_response_json resp\<rparr>,
                st\<lparr>site_limiter := gate_limiter g, site_repo := app_repo a, site_io := app_io a\<rparr>)))"

subsection \<open>The streaming endpoint\<close>

text \<open>
  \<open>POST /api/v1/chat/stream\<close> on a valid body: once the dependency lets the request in, the
  answer is a 200 whose headers and generator are made before any event exists; the framework
  runs the generator afterwards. The dependency takes the settings of the container, but the
  time limit of the stream is that of \<open>get_settings()\<close>, here \<open>cached\<close>.
\<close>

record streaming_response =
  sr_status :: int
  sr_media_type :: string
  sr_headers :: "(string \<times> string) list"
  sr_generator :: sse_request

definition stream_query :: "settings \<Rightarrow> request_head \<Rightarrow> access_context \<Rightarrow> stream_request \<Rightarrow> sse_request" where
  "stream_query cached h access payload = \<lparr>sse_session_id = sreq_session_id payload, sse_message = sreq_message payload,
     sse_request_id = request_id h, sse_trace_id = trace_id h, sse_tenant = acc_tenant_id access,
     sse_timeout = STREAM_TOTAL_TIMEOUT_SEC cached\<rparr>"

definition stream_endpoint ::
  "('s, 'l, 'n) container \<Rightarrow> settings \<Rightarrow> settings \<Rightarrow> request_head \<Rightarrow> http_request \<Rightarrow> int \<Rightarrow> stream_request \<Rightarrow> ('s, 'l, 'n) site \<Rightarrow>
     (exn + streaming_response) \<times> ('s, 'l, 'n) site" where
  "stream_endpoint ct settings cached h rq now payload st =
     (case auth_dependency (ct_limiter ct) settings ''chat_stream'' rq now
             \<lparr>gate_limiter = site_limiter st, gate_io = site_io st\<rparr> of
        (Inl e, rst, g) \<Rightarrow> (Inl e, st\<lparr>site_limiter := gate_limiter g, site_io := gate_io g\<rparr>)
      | (Inr access, rst, g) \<Rightarrow>
          (Inr \<lparr>sr_status = 200, sr_media_type = ''text/event-stream'', sr_headers = stream_headers rst,
             sr_generator = stream_query cached h access payload\<rparr>,
           st\<lparr>site_limiter := gate_limiter g, site_io := gate_io g\<rparr>))"

text \<open>The generator of a response, run by the framework against what happens around each pass.\<close>

definition stream_body ::
  "('s, 'l, 'n) container \<Rightarrow> (nat \<Rightarrow> 'n tick) \<Rightarrow> streaming_response \<Rightarrow> ('s, 'l, 'n) site \<Rightarrow> string list \<times> ('s, 'l, 'n) site" where
  "stream_body ct env resp st =
     (let (out, result, a) = event_generator (get_chat_service ct) (sr_generator resp) env \<lparr>app_repo = site_repo st, app_io = site_io st\<rparr>
      in (out, st\<lparr>site_repo := app_repo a, site_io := app_io a\<rparr>))"

subsection \<open>What the parts raise\<close>

lemma domain_status_class:
  "exn_cls e = ValidationError \<Longrightarrow> domain_status e = 422"
  "exn_cls e = UnauthorizedError \<Longrightarrow> domain_status e = 401"
  "exn_cls e = RateLimitExceededError \<Longrightarrow> domain_status e = 429"
  "exn_cls e \<in> {LLMTimeoutError, LLMBadResponseError, TTSTimeoutError, TTSBadResponseError, ExternalServiceError,
     SessionStoreError} \<Longrightarrow> domain_status e = 503"
  by (auto simp: domain_status_def isinstance_def is_subclass.simps)

text \<open>The errors of the dependency, where the tokens are ASCII.\<close>

lemma authenticate_raises:
  assumes "authenticate limiter settings route rq now g = (Inl e, g')"
    and "\<forall>(t, k) \<in> set (parse_tenant_api_keys (AUTH_TENANT_API_KEYS settings)). \<forall>c \<in> set k. py_isascii c"
    and "\<forall>c \<in> set (bearer_token_of rq). py_isascii c"
  shows "exn_cls e \<in> {UnauthorizedError, RateLimitExceededError}"
proof -
  have "match_tenant (parse_tenant_api_keys (AUTH_TENANT_API_KEYS settings)) (bearer_token_of rq) \<noteq> Inl e'" for e'
    using match_tenant_first [OF assms(2,3)] by simp
  with assms(1) obtain res m where "auth_refuse limiter settings rq route now res m g = (Inl e, g')"
    by (auto simp: authenticate_def bearer_token_of_def Let_def split: if_splits option.splits sum.splits)
  then show ?thesis using auth_refuse_Inl by fastforce
qed

lemma rate_limit_tenant_raises:
  "rate_limit_tenant limiter settings route rq now t ok st g = (Inl e, st', g') \<Longrightarrow> exn_cls e = RateLimitExceededError"
  by (auto simp: rate_limit_tenant_def Let_def split: if_splits prod.splits sum.splits)

lemma auth_dependency_raises:
  assumes "auth_dependency limiter settings route rq now g = (Inl e, st, g')"
    and "\<forall>(t, k) \<in> set (parse_tenant_api_keys (AUTH_TENANT_API_KEYS settings)). \<forall>c \<in> set k. py_isascii c"
    and "\<forall>c \<in> set (bearer_token_of rq). py_isascii c"
  shows "exn_cls e \<in> {UnauthorizedError, RateLimitExceededError}"
  using assms(1)
  by (auto simp: auth_dependency_def split: prod.splits sum.splits
      dest: rate_limit_tenant_raises authenticate_raises [OF _ assms(2,3)])

text \<open>A service over the HTTP clients and a store that raises only \<open>SessionStoreError\<close>.\<close>

definition http_service ::
  "'n transport \<Rightarrow> vllm_config \<Rightarrow> gsv_config \<Rightarrow> 's session_port \<Rightarrow> int \<Rightarrow> int \<Rightarrow> ('s, 'n) chat_service" where
  "http_service tr vcfg gcfg repo turns chunk_size = ChatOrchestrationService
     (VLLMHTTPClient (tr_post tr) (tr_get tr) (tr_aclose tr) vcfg)
     (GPTSoVITSHTTPClient (tr_post tr) (tr_get tr) (tr_aclose tr) gcfg) repo turns chunk_size"

text \<open>What the clients of a service raise.\<close>

definition provider_errors :: "('s, 'n) chat_service \<Rightarrow> bool" where
  "provider_errors svc \<longleftrightarrow>
     (\<forall>ms w e. fst (llm_generate (svc_llm svc) ms w) = Inl e \<longrightarrow> exn_cls e \<in> {LLMTimeoutError, LLMBadResponseError}) \<and>
     (\<forall>args w e. fst (tts_synthesize (svc_tts svc) args w) = Inl e \<longrightarrow> exn_cls e \<in> {TTSTimeoutError, TTSBadResponseError})"

lemma provider_errors_http [simp]: "provider_errors (http_service tr vcfg gcfg repo turns chunk_size)"
proof -
  have "exn_cls e \<in> {LLMTimeoutError, LLMBadResponseError}" if "fst (vllm_generate (tr_post tr) vcfg ms w) = Inl e" for ms w e
    using vllm_generate_raises [of "tr_post tr" vcfg ms w] that by simp
  moreover have "exn_cls e \<in> {TTSTimeoutError, TTSBadResponseError}" if "fst (gsv_synthesize (tr_post tr) gcfg args w) = Inl e" for args w e
    using gsv_synthesize_raises [of "tr_post tr" gcfg args w] that by simp
  ultimately show ?thesis
    by (simp add: provider_errors_def http_service_def ChatOrchestrationService_def VLLMHTTPClient_def GPTSoVITSHTTPClient_def)
qed

lemma http_service_repo [simp]: "svc_repo (http_service tr vcfg gcfg repo turns chunk_size) = repo"
  by (simp add: http_service_def ChatOrchestrationService_def)

context session_repository
begin

lemma chat_raises:
  assumes "chat svc sid um au v a = (Inl e, a')" "svc_repo svc = port" "provider_errors svc"
  shows "exn_cls e \<in> {ValidationError, ExternalServiceError, LLMTimeoutError, LLMBadResponseError, TTSTimeoutError,
    TTSBadResponseError, SessionStoreError}"
proof -
  have llm: "exn_cls e \<in> {LLMTimeoutError, LLMBadResponseError}" if "llm_generate (svc_llm svc) ms w = (Inl e, w')" for ms w w'
    using assms(3) that unfolding provider_errors_def by (metis fst_conv)
  have tts: "exn_cls e \<in> {TTSTimeoutError, TTSBadResponseError}" if "tts_synthesize (svc_tts svc) args w = (Inl e, w')" for args w w'
    using assms(3) that unfolding provider_errors_def by (metis fst_conv)
  show ?thesis
    using assms(1) unfolding chat_def Let_def
    by (auto split: if_splits prod.splits sum.splits dest!: llm tts store_turn_Inl(2) [OF assms(2)] get_Inl [folded assms(2)])
qed

end

lemma chat_route_Inl:
  assumes "chat_route svc rid tid access st payload a = (Inl e, a')"
  shows "\<exists>a1 v. chat svc (req_session_id payload) (req_message payload) (req_response_mode payload = ''text_audio'') v a = (Inl e, a1)"
  using assms by (auto simp: chat_route_def Let_def split: prod.splits sum.splits)

lemma handle_request_cases:
  "fst (handle_request h route st) = (case fst (route (on_site_io (emit [GaugeInc ''app_request_in_progress'']) st)) of
     Inr resp \<Rightarrow> resp\<lparr>rs_headers := rs_headers resp @ [(''x-request-id'', request_id h), (''x-trace-id'', trace_id h)]\<rparr>
   | Inl e \<Rightarrow>
       if is_domain e
       then (error_response h (domain_status e) (error_code_or ''DOMAIN_ERROR'' e) (exn_msg e))
              \<lparr>rs_headers := [(''x-request-id'', request_id h), (''x-trace-id'', trace_id h)]\<rparr>
       else error_response h 500 ''INTERNAL_ERROR'' ''internal server error'')"
  by (simp add: handle_request_def request_context_middleware_def metrics_middleware_def with_domain_handler_def
      domain_exception_handler_def unhandled_exception_handler_def error_response_def Let_def
      split: prod.splits sum.splits)

text \<open>The statuses of the chat endpoint over a store that keeps the contract.\<close>

context session_repository
begin

lemma endpoint_statuses:
  assumes "svc_repo (ct_service ct) = port" "provider_errors (ct_service ct)"
    and "\<forall>(t, k) \<in> set (parse_tenant_api_keys (AUTH_TENANT_API_KEYS settings)). \<forall>c \<in> set k. py_isascii c"
    and "\<forall>c \<in> set (bearer_token_of rq). py_isascii c"
  shows "rs_status (fst (handle_request h (chat_endpoint ct settings h rq now payload) st)) \<in> {200, 401, 422, 429, 503}"
proof -
  let ?st = "on_site_io (emit [GaugeInc ''app_request_in_progress'']) st"
  let ?route = "chat_endpoint ct settings h rq now payload"
  obtain r rst g where dep: "auth_dependency (ct_limiter ct) settings ''chat_sync'' rq now
      \<lparr>gate_limiter = site_limiter ?st, gate_io = site_io ?st\<rparr> = (r, rst, g)" by (metis surj_pair)
  have raised: "exn_cls e \<in> {UnauthorizedError, RateLimitExceededError} \<or>
      exn_cls e \<in> {ValidationError, ExternalServiceError, LLMTimeoutError, LLMBadResponseError, TTSTimeoutError,
        TTSBadResponseError, SessionStoreError}" if e: "fst (?route ?st) = Inl e" for e
  proof (cases r)
    case (Inl e')
    with e dep have "e' = e" by (simp add: chat_endpoint_def)
    with auth_dependency_raises [OF dep [unfolded Inl] assms(3,4)] show ?thesis by simp
  next
    case (Inr access)
    with e dep obtain a' where "chat_route (ct_service ct) (request_id h) (trace_id h) access rst payload
        \<lparr>app_repo = site_repo ?st, app_io = gate_io g\<rparr> = (Inl e, a')"
      by (auto simp: chat_endpoint_def split: prod.splits sum.splits)
    then obtain a1 v where "chat (ct_service ct) (req_session_id payload) (req_message payload)
        (req_response_mode payload = ''text_audio'') v \<lparr>app_repo = site_repo ?st, app_io = gate_io g\<rparr> = (Inl e, a1)"
      using chat_route_Inl by blast
    from chat_raises [OF this assms(1,2)] show ?thesis by simp
  qed
  show ?thesis
  proof (cases "fst (?route ?st)")
    case (Inl e)
    have "is_domain e" using raised [OF Inl] by (auto simp: is_domain_iff)
    moreover have "domain_status e \<in> {401, 422, 429, 503}"
      using raised [OF Inl] domain_status_class [of e] by auto
    ultimately show ?thesis by (simp add: handle_request_cases Inl error_response_def)
  next
    case (Inr resp)
    then have "rs_status resp = 200" by (auto simp: chat_endpoint_def split: prod.splits sum.splits)
    with Inr show ?thesis by (simp add: handle_request_cases)
  qed
qed

end

subsection \<open>Properties\<close>

text \<open>
  The HTTP status and the error code of each exception of the hierarchy: every
  infrastructure error is a 503, so that a failing provider or store is never reported as the
  client's fault.
\<close>

theorem error_status_table:
  "map (\<lambda>c. (domain_status (mk_exn c m), error_code_or ''DOMAIN_ERROR'' (mk_exn c m)))
     [ValidationError, UnauthorizedError, ForbiddenError, RateLimitExceededError, InfraError, ExternalServiceError,
      LLMTimeoutError, LLMBadResponseError, TTSTimeoutError, TTSBadResponseError, SessionStoreError, DomainError] =
   [(422, ''INVALID_ARGUMENT''), (401, ''UNAUTHORIZED''), (403, ''FORBIDDEN''), (429, ''RATE_LIMIT_EXCEEDED''),
    (503, ''INFRA_ERROR''), (503, ''EXTERNAL_SERVICE_ERROR''), (503, ''LLM_TIMEOUT''), (503, ''LLM_BAD_RESPONSE''),
    (503, ''TTS_TIMEOUT''), (503, ''TTS_BAD_RESPONSE''), (503, ''SESSION_STORE_ERROR''), (400, ''DOMAIN_ERROR'')]"
  by (simp add: domain_status_def isinstance_def is_subclass.simps error_code_or_def)

text \<open>
  What a request is answered, for any route: its response with the ids of the request;
  for a domain error its status, code and message with the ids; for any other exception a 500
  whose body says nothing of the exception, and whose headers do not carry the ids.
\<close>

theorem request_answer:
  "case fst (route (on_site_io (emit [GaugeInc ''app_request_in_progress'']) st)) of
     Inr resp \<Rightarrow> rs_status (fst (handle_request h route st)) = rs_status resp \<and>
       rs_body (fst (handle_request h route st)) = rs_body resp \<and>
       map_of (rs_headers (fst (handle_request h route st))) ''x-request-id'' \<noteq> None
   | Inl e \<Rightarrow>
       if is_domain e
       then fst (handle_request h route st) =
         (error_response h (domain_status e) (error_code_or ''DOMAIN_ERROR'' e) (exn_msg e))
           \<lparr>rs_headers := [(''x-request-id'', request_id h), (''x-trace-id'', trace_id h)]\<rparr>
       else fst (handle_request h route st) = error_response h 500 ''INTERNAL_ERROR'' ''internal server error'' \<and>
         map_of (rs_headers (fst (handle_request h route st))) ''x-request-id'' = None"
  by (simp add: handle_request_cases error_response_def map_add_def split: sum.splits option.splits)

text \<open>
  C38: each request is counted once, under the status it is answered with, and gives back its
  place among the requests in progress, even where the route raises; the route itself is
  assumed to leave these two metrics alone.
\<close>

theorem request_accounted:
  assumes "\<And>st. gauge ''app_request_in_progress'' (metrics (site_io (snd (route st)))) =
      gauge ''app_request_in_progress'' (metrics (site_io st))"
    and "\<And>st ls. counter ''app_request_total'' ls (metrics (site_io (snd (route st)))) =
      counter ''app_request_total'' ls (metrics (site_io st))"
  shows "case handle_request h route st of (resp, st') \<Rightarrow>
    gauge ''app_request_in_progress'' (metrics (site_io st')) = gauge ''app_request_in_progress'' (metrics (site_io st)) \<and>
    (\<forall>ls. counter ''app_request_total'' ls (metrics (site_io st')) =
      counter ''app_request_total'' ls (metrics (site_io st)) +
      (if ls = [hd_method h, hd_path h, py_str_int (rs_status resp)] then 1 else 0))"
proof -
  let ?st = "on_site_io (emit [GaugeInc ''app_request_in_progress'']) st"
  obtain r st1 where run: "route ?st = (r, st1)" by fastforce
  have before: "gauge ''app_request_in_progress'' (metrics (site_io st1)) = gauge ''app_request_in_progress'' (metrics (site_io st)) + 1"
    "counter ''app_request_total'' ls (metrics (site_io st1)) = counter ''app_request_total'' ls (metrics (site_io st))" for ls
    using assms(1) [of ?st] assms(2) [of ls ?st] by (simp_all add: run frame_simps)
  show ?thesis
    by (auto simp: handle_request_def request_context_middleware_def metrics_middleware_def with_domain_handler_def
        domain_exception_handler_def unhandled_exception_handler_def error_response_def Let_def run before frame_simps
        split: sum.splits)
qed

text \<open>
  With the HTTP clients, the in-memory store and the in-memory limiter, and tokens in
  ASCII, the chat endpoint answers 200, 401, 422, 429 or 503 and nothing else, whatever the
  providers do: no failure of theirs becomes a 500 or a 400.
\<close>

theorem chat_endpoint_statuses:
  assumes "ct_service ct = http_service tr vcfg gcfg InMemorySessionRepository turns chunk_size"
    and "\<forall>(t, k) \<in> set (parse_tenant_api_keys (AUTH_TENANT_API_KEYS settings)). \<forall>c \<in> set k. py_isascii c"
    and "\<forall>c \<in> set (bearer_token_of rq). py_isascii c"
  shows "rs_status (fst (handle_request h (chat_endpoint ct settings h rq now payload) st)) \<in> {200, 401, 422, 429, 503}"
  by (rule mem.endpoint_statuses [OF _ _ assms(2,3)]) (simp_all add: assms(1))

text \<open>A route that raises, and a site whose servers refuse every connection.\<close>

definition demo_head :: request_head where
  "demo_head = \<lparr>hd_method = ''POST'', hd_path = ''/api/v1/chat'', hd_request_id = None, hd_trace_id = None,
     hd_fresh_request_id = ''r1'', hd_fresh_trace_id = ''t1''\<rparr>"

definition demo_site :: "(mem_store, counters, unit) site" where
  "demo_site = \<lparr>site_repo = Map.empty, site_limiter = Map.empty,
     site_io = \<lparr>clock = 0, draws = [], lags = [], net = (), metrics = [], logs = []\<rparr>, site_cache = Map.empty\<rparr>"

theorem request_accounted_witness:
  "case handle_request demo_head (\<lambda>st. (Inl digest_error, st)) demo_site of (resp, st') \<Rightarrow>
    gauge ''app_request_in_progress'' (metrics (site_io st')) = 0 \<and>
    counter ''app_request_total'' [''POST'', ''/api/v1/chat'', ''500''] (metrics (site_io st')) = 1"
proof -
  let ?route = "\<lambda>st :: (mem_store, counters, unit) site. (Inl digest_error, st)"
  have status: "rs_status (fst (handle_request demo_head ?route demo_site)) = 500"
    by (simp add: handle_request_cases is_domain_iff error_response_def)
  have str: "py_str_int 500 = ''500''" by code_simp
  show ?thesis
    using request_accounted [where route = ?route and h = demo_head and st = demo_site] status
    by (auto simp: str demo_head_def demo_site_def split: prod.splits)
qed

definition refusing_transport :: "unit transport" where
  "refusing_transport = \<lparr>tr_post = (\<lambda>_ _ n. (HttpNetworkError, 1, n)), tr_get = (\<lambda>_ n. (HttpNetworkError, 1, n)),
     tr_aclose = (\<lambda>w. (Inr (), w))\<rparr>"

definition demo_container :: "(mem_store, counters, unit) container" where
  "demo_container = (let vcfg = VLLMHTTPClient_init ''u'' ''m'' ''0.7'' 16 0 0.2 2 False 0 8;
       gcfg = GPTSoVITSHTTPClient_init ''u'' 0 0.2 2 False 0 8 False
     in \<lparr>ct_llm = VLLMHTTPClient (tr_post refusing_transport) (tr_get refusing_transport) (tr_aclose refusing_transport) vcfg,
         ct_tts = GPTSoVITSHTTPClient (tr_post refusing_transport) (tr_get refusing_transport) (tr_aclose refusing_transport) gcfg,
         ct_repo = InMemorySessionRepository, ct_limiter = InMemoryRateLimiter,
         ct_service = http_service refusing_transport vcfg gcfg InMemorySessionRepository 10 12\<rparr>)"

definition demo_payload :: chat_request where
  "demo_payload = \<lparr>req_session_id = ''s'', req_message = ''hi'', req_response_mode = ''text'', req_voice_id = None,
     req_speaker = None, req_language = None, req_reference_audio_url = None\<rparr>"

theorem chat_endpoint_statuses_witness:
  "rs_status (fst (handle_request demo_head
     (chat_endpoint demo_container demo_settings demo_head (demo_request ''Bearer k1'') 61 demo_payload) demo_site)) \<in> {200, 401, 422, 429, 503}"
proof (rule chat_endpoint_statuses)
  show "ct_service demo_container = http_service refusing_transport (VLLMHTTPClient_init ''u'' ''m'' ''0.7'' 16 0 0.2 2 False 0 8)
      (GPTSoVITSHTTPClient_init ''u'' 0 0.2 2 False 0 8 False) InMemorySessionRepository 10 12"
    by (simp add: demo_container_def Let_def)
  show "\<forall>(t, k) \<in> set (parse_tenant_api_keys (AUTH_TENANT_API_KEYS demo_settings)). \<forall>c \<in> set k. py_isascii c"
    by (simp add: demo_keys py_isascii_def)
  have "bearer_token_of (demo_request ''Bearer k1'') = ''k1''"
    using bearer_header [of "''k1''"] by (simp add: bearer_token_of_def demo_request_def)
  then show "\<forall>c \<in> set (bearer_token_of (demo_request ''Bearer k1'')). py_isascii c"
    by (simp add: py_isascii_def)
qed

end
