(* ===== verification/Postgres_Store.thy ===== *)
theory Postgres_Store
  imports Session_Store
begin

text \<open>
  The Postgres session store (\<open>postgres_session_repository.py\<close> over the tables of
  \<open>deploy/migrations/0001_create_chat_session_tables.sql\<close>). The rows are lists in insertion
  order; every call to the server may fail, as a list of faults decides; a transaction that
  fails leaves the tables as they were. Time stands still inside an operation. \<open>Postgres_Locking\<close>
  takes the transactions apart, with time passing and answers to COMMIT lost.
\<close>

subsection \<open>The tables and the state of the repository\<close>

record session_row =
  sr_id :: int
  sr_session_id :: string
  sr_expires_at :: "real option"

record message_row =
  mr_session_pk :: int
  mr_turn_index :: int
  mr_role :: string
  mr_content :: string

text \<open>
  The tables, the next value of the sequence behind \<open>chat_sessions.id\<close>, the time, whether
  \<open>_pool\<close> is set, and the outcomes of the calls to come (\<^const>\<open>True\<close> fails; none left: all
  succeed).
\<close>

record pg =
  pg_sessions :: "session_row list"
  pg_messages :: "message_row list"
  pg_next_id :: int
  pg_now :: real
  pg_pool :: bool
  pg_faults :: "bool list"

record pg_config =
  pgc_expiration_sec :: int
  pgc_max_history_turns :: int

subsection \<open>Calls to the server\<close>

text \<open>An action gives \<^const>\<open>None\<close> where it raises.\<close>

type_synonym 'a sql = "pg \<Rightarrow> 'a option \<times> pg"

definition sql_bind :: "'a sql \<Rightarrow> ('a \<Rightarrow> 'b sql) \<Rightarrow> 'b sql" where
  "sql_bind m f s = (case m s of (None, s1) \<Rightarrow> (None, s1) | (Some x, s1) \<Rightarrow> f x s1)"

definition sql_return :: "'a \<Rightarrow> 'a sql" where
  "sql_return x s = (Some x, s)"

text \<open>A statement raises when the call fails or when the server refuses it.\<close>

definition statement :: "(pg \<Rightarrow> ('a \<times> pg) option) \<Rightarrow> 'a sql" where
  "statement f s =
     (let s0 = s\<lparr>pg_faults := tl (pg_faults s)\<rparr>
      in if pg_faults s \<noteq> [] \<and> hd (pg_faults s) then (None, s0)
         else (case f s0 of None \<Rightarrow> (None, s0) | Some (x, s1) \<Rightarrow> (Some x, s1)))"

text \<open>\<open>async with conn.transaction()\<close>: BEGIN, the body, COMMIT, or ROLLBACK on an exception.\<close>

definition rollback :: "pg \<Rightarrow> pg \<Rightarrow> pg" where
  "rollback s s1 = s1\<lparr>pg_sessions := pg_sessions s, pg_messages := pg_messages s\<rparr>"

definition transaction :: "'a sql \<Rightarrow> 'a sql" where
  "transaction body s = (case statement (\<lambda>s. Some ((), s)) s of
       (None, s1) \<Rightarrow> (None, s1)
     | (Some _, s1) \<Rightarrow> (case body s1 of
           (None, s2) \<Rightarrow> (None, rollback s s2)
         | (Some x, s2) \<Rightarrow> (case statement (\<lambda>s. Some ((), s)) s2 of
               (None, s3) \<Rightarrow> (None, rollback s s3)
             | (Some _, s3) \<Rightarrow> (Some x, s3))))"

definition ensure_pool :: "unit sql" where
  "ensure_pool s = (if pg_pool s then (Some (), s) else statement (\<lambda>s. Some ((), s\<lparr>pg_pool := True\<rparr>)) s)"

text \<open>\<open>pool = await self._ensure_pool(); async with pool.acquire() as conn: ...\<close>\<close>

definition with_connection :: "'a sql \<Rightarrow> 'a sql" where
  "with_connection body = sql_bind ensure_pool (\<lambda>_. sql_bind (statement (\<lambda>s. Some ((), s))) (\<lambda>_. body))"

subsection \<open>The statements\<close>

text \<open>Text parameters may not hold a NUL character.\<close>

definition pg_text :: "string \<Rightarrow> bool" where
  "pg_text t \<longleftrightarrow> CHR 0x00 \<notin> set t"

definition pg_expired :: "pg \<Rightarrow> session_row \<Rightarrow> bool" where
  "pg_expired s r = (case sr_expires_at r of None \<Rightarrow> False | Some t \<Rightarrow> t \<le> pg_now s)"

definition pg_find :: "pg \<Rightarrow> string \<Rightarrow> session_row option" where
  "pg_find s session_id = find (\<lambda>r. sr_session_id r = session_id) (pg_sessions s)"

definition rows_of :: "pg \<Rightarrow> int \<Rightarrow> message_row list" where
  "rows_of s pk = filter (\<lambda>m. mr_session_pk m = pk) (pg_messages s)"

definition select_history :: "string \<Rightarrow> pg \<Rightarrow> (message_row list \<times> pg) option" where
  "select_history session_id s =
     (if \<not> pg_text session_id then None
      else Some (sort_key mr_turn_index
        (case pg_find s session_id of None \<Rightarrow> [] | Some r \<Rightarrow> if pg_expired s r then [] else rows_of s (sr_id r)), s))"

text \<open>
  The insert draws a value of the sequence even where the row exists. A session id longer than
  \<open>VARCHAR(128)\<close> is refused (the request schemas keep it within 128 characters).
\<close>

definition upsert_session :: "string \<Rightarrow> real \<Rightarrow> pg \<Rightarrow> (int \<times> pg) option" where
  "upsert_session session_id expires_at s =
     (if \<not> pg_text session_id \<or> 128 < length session_id then None
      else let s0 = s\<lparr>pg_next_id := pg_next_id s + 1\<rparr> in
        case pg_find s session_id of
          None \<Rightarrow> Some (pg_next_id s, s0\<lparr>pg_sessions := pg_sessions s @
            [\<lparr>sr_id = pg_next_id s, sr_session_id = session_id, sr_expires_at = Some expires_at\<rparr>]\<rparr>)
        | Some r \<Rightarrow> Some (sr_id r, s0\<lparr>pg_sessions :=
            map (\<lambda>q. if sr_session_id q = session_id then q\<lparr>sr_expires_at := Some expires_at\<rparr> else q) (pg_sessions s)\<rparr>))"

definition lock_session :: "int \<Rightarrow> pg \<Rightarrow> (unit \<times> pg) option" where
  "lock_session pk s = Some ((), s)"

definition next_turn :: "int \<Rightarrow> pg \<Rightarrow> (int \<times> pg) option" where
  "next_turn pk s = Some (case map mr_turn_index (rows_of s pk) of [] \<Rightarrow> - 1 | i # js \<Rightarrow> fold max js i, s)"

definition message_payload :: "int \<Rightarrow> int \<Rightarrow> chat_message list \<Rightarrow> message_row list" where
  "message_payload pk first ms = map (\<lambda>(i, m). \<lparr>mr_session_pk = pk, mr_turn_index = first + int i,
     mr_role = role m, mr_content = content m\<rparr>) (enumerate 0 ms)"

text \<open>\<open>role VARCHAR(16)\<close>, \<open>turn_index INTEGER\<close>, and the unique index on the session and the turn.\<close>

definition row_fits :: "pg \<Rightarrow> message_row \<Rightarrow> bool" where
  "row_fits s r \<longleftrightarrow> pg_text (mr_role r) \<and> length (mr_role r) \<le> 16 \<and> pg_text (mr_content r) \<and>
     mr_turn_index r < 2 ^ 31 \<and> mr_turn_index r \<notin> mr_turn_index ` set (rows_of s (mr_session_pk r))"

definition insert_messages :: "message_row list \<Rightarrow> pg \<Rightarrow> (unit \<times> pg) option" where
  "insert_messages rows s =
     (if list_all (row_fits s) rows then Some ((), s\<lparr>pg_messages := pg_messages s @ rows\<rparr>) else None)"

definition trim_messages :: "int \<Rightarrow> int \<Rightarrow> pg \<Rightarrow> (unit \<times> pg) option" where
  "trim_messages pk bound s = Some ((), s\<lparr>pg_messages :=
     filter (\<lambda>m. \<not> (mr_session_pk m = pk \<and> mr_turn_index m \<le> bound)) (pg_messages s)\<rparr>)"

definition delete_messages :: "int \<Rightarrow> pg \<Rightarrow> (unit \<times> pg) option" where
  "delete_messages pk s = Some ((), s\<lparr>pg_messages := filter (\<lambda>m. mr_session_pk m \<noteq> pk) (pg_messages s)\<rparr>)"

subsection \<open>The operations\<close>

definition store_error :: "string \<Rightarrow> exn" where
  "store_error message = mk_exn SessionStoreError message"

text \<open>\<open>[ChatMessage(role=row["role"], content=row["content"]) for row in rows]\<close>\<close>

fun load_rows :: "message_row list \<Rightarrow> chat_message list option" where
  "load_rows [] = Some []"
| "load_rows (r # rs) = (case ChatMessage (mr_role r) (mr_content r) of
       Inl _ \<Rightarrow> None
     | Inr m \<Rightarrow> map_option (\<lambda>ms. m # ms) (load_rows rs))"

definition pg_get_history :: "string \<Rightarrow> pg \<Rightarrow> (exn + chat_message list) \<times> pg" where
  "pg_get_history session_id s = (case with_connection (statement (select_history session_id)) s of
       (None, s1) \<Rightarrow> (Inl (store_error ''failed to load session history from postgres''), s1)
     | (Some rows, s1) \<Rightarrow> (case load_rows rows of
           None \<Rightarrow> (Inl (store_error ''failed to load session history from postgres''), s1)
         | Some h \<Rightarrow> (Inr h, s1)))"

definition resolve_max_messages :: "pg_config \<Rightarrow> int option \<Rightarrow> int option" where
  "resolve_max_messages cfg max_messages = (case max_messages of
       Some n \<Rightarrow> Some (max 0 n)
     | None \<Rightarrow> if pgc_max_history_turns cfg > 0 then Some (pgc_max_history_turns cfg * 2) else None)"

text \<open>The body of the transaction of \<open>append_messages\<close>.\<close>

definition append_body :: "pg_config \<Rightarrow> string \<Rightarrow> chat_message list \<Rightarrow> int option \<Rightarrow> real \<Rightarrow> unit sql" where
  "append_body cfg session_id messages max_messages expires_at =
     sql_bind (statement (upsert_session session_id expires_at)) (\<lambda>session_pk.
     sql_bind (statement (lock_session session_pk)) (\<lambda>_.
     sql_bind (statement (next_turn session_pk)) (\<lambda>last_index.
     sql_bind (statement (insert_messages (message_payload session_pk (last_index + 1) messages))) (\<lambda>_.
     case resolve_max_messages cfg max_messages of
       None \<Rightarrow> sql_return ()
     | Some limit \<Rightarrow> statement (trim_messages session_pk (last_index + int (length messages) - limit))))))"

definition pg_append_messages ::
  "pg_config \<Rightarrow> string \<Rightarrow> chat_message list \<Rightarrow> int option \<Rightarrow> pg \<Rightarrow> (exn + unit) \<times> pg" where
  "pg_append_messages cfg session_id messages max_messages s =
     (if messages = [] then (Inr (), s)
      else let expires_at = pg_now s + of_int (pgc_expiration_sec cfg)
        in case with_connection (transaction (append_body cfg session_id messages max_messages expires_at)) s of
            (None, s1) \<Rightarrow> (Inl (store_error ''failed to append session history to postgres''), s1)
          | (Some _, s1) \<Rightarrow> (Inr (), s1))"

definition normalize_messages :: "pg_config \<Rightarrow> chat_message list \<Rightarrow> chat_message list" where
  "normalize_messages cfg messages =
     (let max_messages = max 0 (pgc_max_history_turns cfg * 2)
      in if max_messages = 0 then [] else py_neg_slice max_messages messages)"

definition set_body :: "string \<Rightarrow> chat_message list \<Rightarrow> real \<Rightarrow> unit sql" where
  "set_body session_id normalized expires_at =
     sql_bind (statement (upsert_session session_id expires_at)) (\<lambda>session_pk.
     sql_bind (statement (delete_messages session_pk)) (\<lambda>_.
     if normalized = [] then sql_return ()
     else statement (insert_messages (message_payload session_pk 0 normalized))))"

definition pg_set_history :: "pg_config \<Rightarrow> string \<Rightarrow> chat_message list \<Rightarrow> pg \<Rightarrow> (exn + unit) \<times> pg" where
  "pg_set_history cfg session_id messages s =
     (let expires_at = pg_now s + of_int (pgc_expiration_sec cfg)
      in case with_connection (transaction (set_body session_id (normalize_messages cfg messages) expires_at)) s of
          (None, s1) \<Rightarrow> (Inl (store_error ''failed to set session history in postgres''), s1)
        | (Some _, s1) \<Rightarrow> (Inr (), s1))"

definition pg_ping :: "pg \<Rightarrow> bool \<times> pg" where
  "pg_ping s = (case with_connection (statement (\<lambda>s. Some ((), s))) s of
       (None, s1) \<Rightarrow> (False, s1) | (Some _, s1) \<Rightarrow> (True, s1))"

definition pg_close :: "pg \<Rightarrow> (exn + unit) \<times> pg" where
  "pg_close s =
     (if pg_pool s
      then (case statement (\<lambda>s. Some ((), s\<lparr>pg_pool := False\<rparr>)) s of
          (None, s1) \<Rightarrow> (Inl (mk_exn (BuiltinError ''PostgresError'') ''close failed''), s1)
        | (Some _, s1) \<Rightarrow> (Inr (), s1))
      else (Inr (), s))"

definition PostgresSessionRepository :: "pg_config \<Rightarrow> pg session_port" where
  "PostgresSessionRepository cfg = \<lparr>repo_get_history = pg_get_history,
     repo_append_messages = pg_append_messages cfg, repo_set_history = pg_set_history cfg,
     repo_ping = pg_ping, repo_close = pg_close\<rparr>"

lemma pg_port_sel [simp]:
  "repo_get_history (PostgresSessionRepository cfg) = pg_get_history"
  "repo_append_messages (PostgresSessionRepository cfg) = pg_append_messages cfg"
  "repo_set_history (PostgresSessionRepository cfg) = pg_set_history cfg"
  "repo_ping (PostgresSessionRepository cfg) = pg_ping"
  "repo_close (PostgresSessionRepository cfg) = pg_close"
  by (simp_all add: PostgresSessionRepository_def)

subsection \<open>Rows numbered without a gap\<close>

fun numbered :: "int \<Rightarrow> message_row list \<Rightarrow> bool" where
  "numbered k [] \<longleftrightarrow> True"
| "numbered k (r # rs) \<longleftrightarrow> mr_turn_index r = k \<and> numbered (k + 1) rs"

definition consecutive :: "message_row list \<Rightarrow> bool" where
  "consecutive rows \<longleftrightarrow> (case rows of [] \<Rightarrow> True | r # _ \<Rightarrow> 0 \<le> mr_turn_index r \<and> numbered (mr_turn_index r) rows)"

lemma consecutiveI: "numbered k rows \<Longrightarrow> 0 \<le> k \<Longrightarrow> consecutive rows"
  by (cases rows) (auto simp: consecutive_def)

lemma consecutiveE:
  assumes "consecutive rows"
  obtains k where "0 \<le> k" "numbered k rows" "rows = [] \<Longrightarrow> k = 0"
  using assms by (cases rows) (auto simp: consecutive_def)

lemma numbered_append: "numbered k (xs @ ys) \<longleftrightarrow> numbered k xs \<and> numbered (k + int (length xs)) ys"
  by (induction xs arbitrary: k) (auto simp: algebra_simps)

lemma numbered_bounds: "numbered k xs \<Longrightarrow> m \<in> set xs \<Longrightarrow> k \<le> mr_turn_index m \<and> mr_turn_index m < k + int (length xs)"
  by (induction xs arbitrary: k) fastforce+

lemma numbered_drop: "numbered k xs \<Longrightarrow> numbered (k + int j) (drop j xs)"
proof (induction xs arbitrary: k j)
  case (Cons x xs)
  show ?case
  proof (cases j)
    case (Suc i)
    with Cons.prems Cons.IH [of "k + 1" i] show ?thesis by (simp add: algebra_simps)
  qed (use Cons.prems in simp)
qed simp

lemma filter_numbered: "numbered k xs \<Longrightarrow> filter (\<lambda>m. b < mr_turn_index m) xs = drop (nat (b + 1 - k)) xs"
proof (induction xs arbitrary: k)
  case (Cons x xs)
  then have IH: "filter (\<lambda>m. b < mr_turn_index m) xs = drop (nat (b - k)) xs"
    using Cons.IH [of "k + 1"] by (simp add: algebra_simps)
  have step: "nat (b + 1 - k) = (if b < k then 0 else Suc (nat (b - k)))" by auto
  show ?case using Cons.prems by (simp only: step) (simp add: IH)
qed simp

lemma numbered_sorted: "numbered k xs \<Longrightarrow> sorted (map mr_turn_index xs)"
proof (induction xs arbitrary: k)
  case (Cons x xs)
  then show ?case using numbered_bounds [of "k + 1" xs] by fastforce
qed simp

lemma sort_consecutive: "consecutive xs \<Longrightarrow> sort_key mr_turn_index xs = xs"
  by (erule consecutiveE) (simp add: sort_key_id_if_sorted numbered_sorted)

lemma fold_max_numbered: "numbered k xs \<Longrightarrow> i \<le> k \<Longrightarrow>
  fold max (map mr_turn_index xs) i = (if xs = [] then i else k + int (length xs) - 1)"
  by (induction xs arbitrary: k i) (auto simp: max_def algebra_simps)

lemma next_turn_numbered: "numbered k (rows_of s pk) \<Longrightarrow> (rows_of s pk = [] \<Longrightarrow> k = 0) \<Longrightarrow>
  next_turn pk s = Some (k + int (length (rows_of s pk)) - 1, s)"
  by (cases "rows_of s pk") (auto simp: next_turn_def fold_max_numbered [of "k + 1"])

lemma numbered_payload: "numbered k (message_payload pk k ms)"
proof -
  have "numbered (k + int n) (map (\<lambda>(i, m). \<lparr>mr_session_pk = pk, mr_turn_index = k + int i,
      mr_role = role m, mr_content = content m\<rparr>) (enumerate n ms))" for n
  proof (induction ms arbitrary: n)
    case (Cons m ms)
    show ?case using Cons.IH [of "Suc n"] by (simp add: algebra_simps)
  qed simp
  from this [of 0] show ?thesis by (simp add: message_payload_def)
qed

definition row_message :: "message_row \<Rightarrow> chat_message" where
  "row_message r = \<lparr>role = mr_role r, content = mr_content r\<rparr>"

lemma payload_simps [simp]:
  "length (message_payload pk k ms) = length ms"
  "message_payload pk k ms = [] \<longleftrightarrow> ms = []"
  "map row_message (message_payload pk k ms) = ms"
proof -
  have "map row_message (message_payload pk k ms) = map snd (enumerate 0 ms)"
    by (simp add: message_payload_def row_message_def case_prod_unfold del: map_snd_enumerate)
  then show "map row_message (message_payload pk k ms) = ms" by simp
qed (simp_all add: message_payload_def enumerate_eq_zip)

lemma payload_pk: "m \<in> set (message_payload pk k ms) \<Longrightarrow> mr_session_pk m = pk"
  by (auto simp: message_payload_def)

lemma payload_rows: "filter (\<lambda>m. mr_session_pk m = p) (message_payload pk k ms) =
  (if p = pk then message_payload pk k ms else [])"
  by (auto simp: filter_id_conv filter_empty_conv dest: payload_pk)

subsection \<open>What the clients see\<close>

definition visible_rows :: "pg \<Rightarrow> string \<Rightarrow> message_row list" where
  "visible_rows s session_id = (case pg_find s session_id of
       None \<Rightarrow> []
     | Some r \<Rightarrow> if pg_expired s r then [] else rows_of s (sr_id r))"

definition pg_history :: "pg \<Rightarrow> string \<Rightarrow> chat_message list" where
  "pg_history s session_id = map row_message (sort_key mr_turn_index (visible_rows s session_id))"

text \<open>The invariant of the tables that the operations keep.\<close>

definition pg_ok :: "pg \<Rightarrow> bool" where
  "pg_ok s \<longleftrightarrow> distinct (map sr_session_id (pg_sessions s)) \<and> distinct (map sr_id (pg_sessions s)) \<and>
     list_all (\<lambda>r. sr_id r < pg_next_id s) (pg_sessions s) \<and>
     list_all (\<lambda>m. mr_session_pk m \<in> sr_id ` set (pg_sessions s)) (pg_messages s) \<and>
     list_all (\<lambda>r. consecutive (rows_of s (sr_id r))) (pg_sessions s)"

text \<open>Rows of the session that a read hides because the session is expired.\<close>

definition hidden_rows :: "pg \<Rightarrow> string \<Rightarrow> bool" where
  "hidden_rows s session_id = (case pg_find s session_id of
       None \<Rightarrow> False
     | Some r \<Rightarrow> pg_expired s r \<and> rows_of s (sr_id r) \<noteq> [])"

definition pg_ready :: "pg_config \<Rightarrow> pg \<Rightarrow> string \<Rightarrow> bool" where
  "pg_ready cfg s session_id \<longleftrightarrow> pg_ok s \<and> 0 < pgc_expiration_sec cfg \<and> \<not> hidden_rows s session_id"

text \<open>The part of the state that the readers look at.\<close>

definition tables :: "pg \<Rightarrow> session_row list \<times> message_row list \<times> real" where
  "tables s = (pg_sessions s, pg_messages s, pg_now s)"

lemma tables_eq: "tables s = tables s' \<longleftrightarrow>
  pg_sessions s = pg_sessions s' \<and> pg_messages s = pg_messages s' \<and> pg_now s = pg_now s'"
  by (auto simp: tables_def)

lemma tables_read:
  assumes "tables s = tables s'"
  shows "pg_find s = pg_find s'" "rows_of s = rows_of s'" "pg_expired s = pg_expired s'"
    "visible_rows s = visible_rows s'" "pg_history s = pg_history s'" "hidden_rows s = hidden_rows s'"
proof -
  have eqs: "pg_sessions s = pg_sessions s'" "pg_messages s = pg_messages s'" "pg_now s = pg_now s'"
    using assms by (simp_all add: tables_eq)
  show f: "pg_find s = pg_find s'" and r: "rows_of s = rows_of s'" and e: "pg_expired s = pg_expired s'"
    by (simp_all add: pg_find_def rows_of_def pg_expired_def fun_eq_iff eqs split: option.split)
  show v: "visible_rows s = visible_rows s'" by (rule ext) (simp only: visible_rows_def f r e)
  show "pg_history s = pg_history s'" by (rule ext) (simp only: pg_history_def v)
  show "hidden_rows s = hidden_rows s'" by (rule ext) (simp only: hidden_rows_def f r e)
qed

lemma tables_ok:
  assumes "tables s = tables s'" "pg_next_id s \<le> pg_next_id s'" "pg_ok s"
  shows "pg_ok s'"
proof -
  have "pg_sessions s = pg_sessions s'" "pg_messages s = pg_messages s'"
    using assms(1) by (simp_all add: tables_eq)
  moreover have "list_all (\<lambda>r. sr_id r < pg_next_id s') (pg_sessions s)"
    using assms(2,3) by (fastforce simp: pg_ok_def list_all_iff)
  ultimately show ?thesis using assms(3) by (simp add: pg_ok_def tables_read(2) [OF assms(1)])
qed

lemma tables_ready:
  "tables s = tables s' \<Longrightarrow> pg_next_id s \<le> pg_next_id s' \<Longrightarrow> pg_ready cfg s x \<Longrightarrow> pg_ready cfg s' x"
  by (simp add: pg_ready_def tables_ok [of s s'] tables_read(6) [of s s'])

subsection \<open>Runs of actions\<close>

lemma sql_bind_Some: "sql_bind m f s = (Some y, s') \<longleftrightarrow> (\<exists>x s1. m s = (Some x, s1) \<and> f x s1 = (Some y, s'))"
  by (auto simp: sql_bind_def split: prod.splits option.splits)

lemma sql_bind_None: "sql_bind m f s = (None, s') \<longleftrightarrow>
  m s = (None, s') \<or> (\<exists>x s1. m s = (Some x, s1) \<and> f x s1 = (None, s'))"
  by (auto simp: sql_bind_def split: prod.splits option.splits)

lemma statement_Some: "statement f s = (Some x, s') \<longleftrightarrow>
  (pg_faults s = [] \<or> \<not> hd (pg_faults s)) \<and> f (s\<lparr>pg_faults := tl (pg_faults s)\<rparr>) = Some (x, s')"
  by (auto simp: statement_def Let_def split: option.splits)

lemma statement_None: "statement f s = (None, s') \<Longrightarrow> s' = s\<lparr>pg_faults := tl (pg_faults s)\<rparr>"
  by (auto simp: statement_def Let_def split: if_splits option.splits)

text \<open>Actions that leave the clock alone and never lower the sequence.\<close>

definition monotone_sql :: "'a sql \<Rightarrow> bool" where
  "monotone_sql m \<longleftrightarrow> (\<forall>s. pg_now (snd (m s)) = pg_now s \<and> pg_next_id s \<le> pg_next_id (snd (m s)))"

lemma monotone_return: "monotone_sql (sql_return x)"
  by (simp add: monotone_sql_def sql_return_def)

lemma monotone_bind: "monotone_sql m \<Longrightarrow> (\<And>x. monotone_sql (f x)) \<Longrightarrow> monotone_sql (sql_bind m f)"
  by (auto simp: monotone_sql_def sql_bind_def split: prod.splits option.splits)
    (metis snd_conv order.trans)+

lemma monotone_statement:
  assumes "\<And>s x s'. f s = Some (x, s') \<Longrightarrow> pg_now s' = pg_now s \<and> pg_next_id s \<le> pg_next_id s'"
  shows "monotone_sql (statement f)"
proof -
  have "pg_now (snd (statement f s)) = pg_now s \<and> pg_next_id s \<le> pg_next_id (snd (statement f s))" for s
    using assms [of "s\<lparr>pg_faults := tl (pg_faults s)\<rparr>"]
    by (auto simp: statement_def Let_def split: option.splits)
  then show ?thesis by (simp add: monotone_sql_def)
qed

lemma monotone_statements [intro]:
  "monotone_sql (statement (upsert_session sid t))" "monotone_sql (statement (lock_session pk))"
  "monotone_sql (statement (next_turn pk))" "monotone_sql (statement (insert_messages rows))"
  "monotone_sql (statement (trim_messages pk b))" "monotone_sql (statement (delete_messages pk))"
  by (rule monotone_statement; auto simp: upsert_session_def lock_session_def next_turn_def
      insert_messages_def trim_messages_def delete_messages_def Let_def split: if_splits option.splits)+

lemma monotone_append_body: "monotone_sql (append_body cfg sid ms n t)"
  unfolding append_body_def
  by (intro monotone_bind monotone_statements) (auto intro: monotone_return split: option.split)

lemma monotone_set_body: "monotone_sql (set_body sid ms t)"
  unfolding set_body_def by (intro monotone_bind monotone_statements) (auto intro: monotone_return)

text \<open>Taking a connection changes nothing that a reader sees.\<close>

lemma ensure_pool_tables: "ensure_pool s = (r, s') \<Longrightarrow> tables s' = tables s \<and> pg_next_id s' = pg_next_id s"
  by (auto simp: ensure_pool_def statement_def tables_eq Let_def split: if_splits)

lemma skip_tables: "statement (\<lambda>s. Some (x, s)) s = (r, s') \<Longrightarrow> tables s' = tables s \<and> pg_next_id s' = pg_next_id s"
  by (auto simp: statement_def tables_eq Let_def split: if_splits)

lemma with_connection_cases:
  assumes "with_connection body s = (r, s')"
  obtains (refused) "r = None" "tables s' = tables s" "pg_next_id s' = pg_next_id s"
  | (run) s1 where "tables s1 = tables s" "pg_next_id s1 = pg_next_id s" "body s1 = (r, s')"
proof -
  obtain u s0 where p: "ensure_pool s = (u, s0)" by fastforce
  obtain v s1 where q: "statement (\<lambda>s. Some ((), s)) s0 = (v, s1)" by fastforce
  note t = ensure_pool_tables [OF p] skip_tables [OF q]
  show thesis
  proof (cases "u = None \<or> v = None")
    case True
    with assms p q t show thesis
      by (auto intro!: refused simp: with_connection_def sql_bind_def split: option.splits)
  next
    case False
    with assms p q t show thesis
      by (intro run [of s1]) (auto simp: with_connection_def sql_bind_def)
  qed
qed

text \<open>A transaction that fails leaves the tables as they were; one that succeeds is its body.\<close>

lemma transaction_None:
  assumes "transaction body s = (None, s')" "monotone_sql body"
  shows "tables s' = tables s \<and> pg_next_id s \<le> pg_next_id s'"
proof -
  obtain u s1 where p: "statement (\<lambda>s. Some ((), s)) s = (u, s1)" by fastforce
  obtain v s2 where q: "body s1 = (v, s2)" by fastforce
  obtain w s3 where c: "statement (\<lambda>s. Some ((), s)) s2 = (w, s3)" by fastforce
  have m: "pg_now s2 = pg_now s1 \<and> pg_next_id s1 \<le> pg_next_id s2"
    using assms(2) q unfolding monotone_sql_def by (metis snd_conv)
  show ?thesis
    using assms(1) p q c m skip_tables [OF p] skip_tables [OF c]
    by (auto simp: transaction_def rollback_def tables_eq split: option.splits)
qed

lemma transaction_Some:
  assumes "transaction body s = (Some x, s')"
  obtains s1 s2 where "tables s1 = tables s" "pg_next_id s1 = pg_next_id s" "body s1 = (Some x, s2)"
    "tables s' = tables s2" "pg_next_id s' = pg_next_id s2"
proof -
  obtain u s1 where p: "statement (\<lambda>s. Some ((), s)) s = (u, s1)" by fastforce
  obtain v s2 where q: "body s1 = (v, s2)" by fastforce
  obtain w s3 where c: "statement (\<lambda>s. Some ((), s)) s2 = (w, s3)" by fastforce
  show thesis
    using assms p q c skip_tables [OF p] skip_tables [OF c]
    by (intro that [of s1 s2]) (auto simp: transaction_def split: option.splits)
qed

text \<open>The two together: how a write ends.\<close>

lemma write_None:
  assumes "with_connection (transaction body) s = (None, s')" "monotone_sql body"
  shows "tables s' = tables s \<and> pg_next_id s \<le> pg_next_id s'"
  using assms(1)
proof (cases rule: with_connection_cases)
  case (run s1)
  with transaction_None [OF run(3) assms(2)] show ?thesis by simp
qed simp

lemma write_Some:
  assumes "with_connection (transaction body) s = (Some x, s')"
  obtains s1 s2 where "tables s1 = tables s" "pg_next_id s1 = pg_next_id s" "body s1 = (Some x, s2)"
    "tables s' = tables s2" "pg_next_id s' = pg_next_id s2"
  using assms
proof (cases rule: with_connection_cases)
  case (run s1)
  from run(3) show thesis
  proof (cases rule: transaction_Some)
    case (1 s2 s3)
    with run(1,2) show thesis by (intro that [of s2 s3]) simp_all
  qed
qed simp

subsection \<open>The upsert and the writes to the rows of one session\<close>

lemma find_map_upd: "(\<And>r. key (g r) = key r) \<Longrightarrow>
  find (\<lambda>r. key r = y) (map (\<lambda>q. if key q = x then g q else q) xs) =
    map_option (\<lambda>q. if y = x then g q else q) (find (\<lambda>r. key r = y) xs)"
  by (induction xs) auto

lemma find_app: "find P (xs @ ys) = (case find P xs of None \<Rightarrow> find P ys | Some r \<Rightarrow> Some r)"
  by (induction xs) auto

lemma pg_find_mem: "pg_find s sid = Some r \<Longrightarrow> r \<in> set (pg_sessions s) \<and> sr_session_id r = sid"
  by (auto simp: pg_find_def find_Some_iff)

lemma pg_find_inj:
  assumes "pg_ok s" "pg_find s x = Some r" "pg_find s y = Some q" "sr_id r = sr_id q"
  shows "x = y"
proof -
  have "r \<in> set (pg_sessions s)" "q \<in> set (pg_sessions s)" "inj_on sr_id (set (pg_sessions s))"
    using assms(1) pg_find_mem [OF assms(2)] pg_find_mem [OF assms(3)] by (simp_all add: pg_ok_def distinct_map)
  then have "r = q" using assms(4) by (simp add: inj_on_def)
  then show ?thesis using pg_find_mem [OF assms(2)] pg_find_mem [OF assms(3)] by simp
qed

lemma rows_of_fresh: "pg_ok s \<Longrightarrow> pg_next_id s \<le> pk \<Longrightarrow> rows_of s pk = []"
  by (fastforce simp: rows_of_def filter_empty_conv pg_ok_def list_all_iff)

lemma rows_of_consecutive: "pg_ok s \<Longrightarrow> consecutive (rows_of s pk)"
proof (cases "pk \<in> sr_id ` set (pg_sessions s)")
  case False
  assume "pg_ok s"
  with False have "rows_of s pk = []"
    by (auto simp: rows_of_def filter_empty_conv pg_ok_def list_all_iff)
  then show ?thesis by (simp add: consecutive_def)
qed (auto simp: pg_ok_def list_all_iff)

lemma pg_ok_ids: "pg_ok s \<longleftrightarrow> distinct (map sr_session_id (pg_sessions s)) \<and> distinct (map sr_id (pg_sessions s)) \<and>
  (\<forall>i \<in> set (map sr_id (pg_sessions s)). i < pg_next_id s \<and> consecutive (rows_of s i)) \<and>
  (\<forall>m \<in> set (pg_messages s). mr_session_pk m \<in> set (map sr_id (pg_sessions s)))"
  by (auto simp: pg_ok_def list_all_iff)

text \<open>The session row after the upsert: the one found, or a new one with no messages.\<close>

lemma upsert_effect:
  assumes "upsert_session sid t s = Some (pk, s1)" "pg_ok s"
  shows "pg_ok s1" "pg_messages s1 = pg_messages s" "pg_now s1 = pg_now s"
    "\<exists>r. pg_find s1 sid = Some r \<and> sr_id r = pk \<and> sr_expires_at r = Some t"
    "x \<noteq> sid \<Longrightarrow> pg_find s1 x = pg_find s x"
    "rows_of s pk = (case pg_find s sid of None \<Rightarrow> [] | Some r \<Rightarrow> rows_of s (sr_id r))"
proof -
  let ?g = "\<lambda>q. q\<lparr>sr_expires_at := Some t\<rparr>"
  show m: "pg_messages s1 = pg_messages s" and "pg_now s1 = pg_now s"
    using assms(1) by (auto simp: upsert_session_def Let_def split: if_splits option.splits)
  then have rows: "rows_of s1 = rows_of s" by (simp add: rows_of_def fun_eq_iff)
  show "rows_of s pk = (case pg_find s sid of None \<Rightarrow> [] | Some r \<Rightarrow> rows_of s (sr_id r))"
    using assms by (auto simp: upsert_session_def Let_def rows_of_fresh split: if_splits option.splits)
  show "\<exists>r. pg_find s1 sid = Some r \<and> sr_id r = pk \<and> sr_expires_at r = Some t"
    and "x \<noteq> sid \<Longrightarrow> pg_find s1 x = pg_find s x"
    using assms(1)
    by (auto simp: upsert_session_def pg_find_def Let_def find_map_upd [where key = sr_session_id and g = ?g]
        find_app option.map_ident split: if_splits option.splits)
  show "pg_ok s1"
  proof (cases "pg_find s sid")
    case None
    then have new: "sid \<notin> sr_session_id ` set (pg_sessions s)"
      by (auto simp: pg_find_def find_None_iff)
    have le: "sr_id r \<le> pg_next_id s" if "r \<in> set (pg_sessions s)" for r
      using assms(2) that by (fastforce simp: pg_ok_def list_all_iff)
    have "pg_next_id s \<notin> sr_id ` set (pg_sessions s)"
      using assms(2) by (auto simp: pg_ok_def list_all_iff)
    with assms None new rows m show ?thesis
      by (auto simp: upsert_session_def Let_def pg_ok_def list_all_iff rows_of_fresh [OF assms(2)] consecutive_def
          intro: le split: if_splits)
  next
    case (Some r)
    then have s1: "pg_sessions s1 = map (\<lambda>q. if sr_session_id q = sid then ?g q else q) (pg_sessions s)"
      "pg_next_id s1 = pg_next_id s + 1"
      using assms(1) by (auto simp: upsert_session_def Let_def split: if_splits)
    have "map sr_session_id (pg_sessions s1) = map sr_session_id (pg_sessions s)"
      "map sr_id (pg_sessions s1) = map sr_id (pg_sessions s)"
      by (simp_all add: s1)
    with assms(2) show ?thesis by (simp only: pg_ok_ids rows m s1(2)) auto
  qed
qed

text \<open>Writing the rows of one live session: only its history changes.\<close>

lemma write_rows_effect:
  assumes "pg_ok s1" "pg_find s1 sid = Some r" "\<not> pg_expired s1 r"
    and s2: "pg_sessions s2 = pg_sessions s1" "pg_now s2 = pg_now s1" "pg_next_id s2 = pg_next_id s1"
    and others: "\<And>pk. pk \<noteq> sr_id r \<Longrightarrow> rows_of s2 pk = rows_of s1 pk"
    and own: "consecutive (rows_of s2 (sr_id r))"
  shows "pg_ok s2"
    "pg_history s2 = (pg_history s1)(sid := map row_message (rows_of s2 (sr_id r)))"
    "hidden_rows s2 = (hidden_rows s1)(sid := False)"
proof -
  have f: "pg_find s2 = pg_find s1" and e: "pg_expired s2 = pg_expired s1"
    by (simp_all add: pg_find_def pg_expired_def fun_eq_iff s2 split: option.split)
  have own_id: "sr_id r \<in> sr_id ` set (pg_sessions s1)" using pg_find_mem [OF assms(2)] by simp
  have "mr_session_pk m \<in> sr_id ` set (pg_sessions s1)" if "m \<in> set (pg_messages s2)" for m
  proof (cases "mr_session_pk m = sr_id r")
    case False
    have "m \<in> set (rows_of s2 (mr_session_pk m))" using that by (simp add: rows_of_def)
    then have "m \<in> set (rows_of s1 (mr_session_pk m))" by (simp only: others [OF False])
    then show ?thesis using assms(1) by (auto simp: rows_of_def pg_ok_def list_all_iff)
  qed (use own_id in simp)
  moreover have "consecutive (rows_of s2 pk)" for pk
    using others [of pk] own rows_of_consecutive [OF assms(1), of pk] by (cases "pk = sr_id r") simp_all
  ultimately show "pg_ok s2" using assms(1) by (simp add: pg_ok_def s2 list_all_iff)
  have other: "visible_rows s2 x = visible_rows s1 x \<and> hidden_rows s2 x = hidden_rows s1 x" if "x \<noteq> sid" for x
  proof (cases "pg_find s1 x")
    case (Some q)
    with that assms(1,2) have "sr_id q \<noteq> sr_id r" using pg_find_inj by blast
    with Some show ?thesis by (simp add: visible_rows_def hidden_rows_def f e others)
  qed (simp add: visible_rows_def hidden_rows_def f)
  have "visible_rows s2 sid = rows_of s2 (sr_id r)" "\<not> hidden_rows s2 sid"
    using assms(2,3) by (simp_all add: visible_rows_def hidden_rows_def f e)
  with other own show "pg_history s2 = (pg_history s1)(sid := map row_message (rows_of s2 (sr_id r)))"
    "hidden_rows s2 = (hidden_rows s1)(sid := False)"
    by (auto simp: pg_history_def fun_eq_iff sort_consecutive)
qed

text \<open>What the upsert does to the histories: it only brings the hidden rows of its session back.\<close>

definition stored_rows :: "pg \<Rightarrow> string \<Rightarrow> message_row list" where
  "stored_rows s session_id = (case pg_find s session_id of None \<Rightarrow> [] | Some r \<Rightarrow> rows_of s (sr_id r))"

definition pg_stored :: "pg \<Rightarrow> string \<Rightarrow> chat_message list" where
  "pg_stored s session_id = map row_message (stored_rows s session_id)"

lemma stored_visible: "pg_ok s \<Longrightarrow> \<not> hidden_rows s sid \<Longrightarrow> pg_history s sid = pg_stored s sid"
  using rows_of_consecutive [of s]
  by (auto simp: pg_history_def pg_stored_def stored_rows_def visible_rows_def hidden_rows_def sort_consecutive
      split: option.splits)

lemma upsert_histories:
  assumes "upsert_session sid t s = Some (pk, s1)" "pg_ok s" "x \<noteq> sid"
  shows "pg_history s1 x = pg_history s x" "hidden_rows s1 x = hidden_rows s x"
proof -
  note u = upsert_effect [OF assms(1,2)]
  have "rows_of s1 = rows_of s" "pg_expired s1 = pg_expired s"
    using u(2,3) by (simp_all add: rows_of_def pg_expired_def fun_eq_iff split: option.split)
  then show "pg_history s1 x = pg_history s x" "hidden_rows s1 x = hidden_rows s x"
    by (simp_all only: pg_history_def visible_rows_def hidden_rows_def u(5) [OF assms(3)])
qed

text \<open>The rows after the insert and the trim.\<close>

lemma trimmed_rows:
  assumes "numbered k rows" "0 \<le> k" "0 \<le> n"
    and last: "last_index = k + int (length rows) - 1"
    and new: "numbered (last_index + 1) new"
  shows "filter (\<lambda>m. last_index + int (length new) - n < mr_turn_index m) (rows @ new) =
    drop (length rows + length new - nat n) (rows @ new)"
proof -
  have num: "numbered k (rows @ new)" using assms(1) new by (simp add: numbered_append last algebra_simps)
  have "nat (last_index + int (length new) - n + 1 - k) = length rows + length new - nat n"
    using assms(2,3) by (simp add: last)
  then show ?thesis by (simp only: filter_numbered [OF num])
qed

subsection \<open>The effect of an append\<close>

lemma trim_rows:
  "filter (\<lambda>m. mr_session_pk m = p) (filter (\<lambda>m. mr_session_pk m = pk \<longrightarrow> \<not> mr_turn_index m \<le> b) xs) =
   (if p = pk then filter (\<lambda>m. b < mr_turn_index m) (filter (\<lambda>m. mr_session_pk m = p) xs)
    else filter (\<lambda>m. mr_session_pk m = p) xs)"
  by (induction xs) auto

lemma consecutive_limited: "numbered k xs \<Longrightarrow> 0 \<le> k \<Longrightarrow> consecutive (limited limit xs)"
  by (auto simp: limited_def keep_recent_def intro!: consecutiveI numbered_drop split: option.split)

text \<open>
  A successful run of the body: the session holds its stored rows, hidden or not, and the new
  messages, trimmed to the limit where there is one.
\<close>

lemma append_body_effect:
  assumes "append_body cfg sid ms max_messages t s = (Some (), s')" "pg_ok s" "pg_now s < t"
  shows "pg_ok s'"
    "pg_history s' = (pg_history s)(sid := limited (resolve_max_messages cfg max_messages) (pg_stored s sid @ ms))"
    "hidden_rows s' = (hidden_rows s)(sid := False)"
proof -
  obtain pk s1 un s2 last s3 un2 s4 where
      u: "statement (upsert_session sid t) s = (Some pk, s1)"
    and l: "statement (lock_session pk) s1 = (Some un, s2)"
    and nt: "statement (next_turn pk) s2 = (Some last, s3)"
    and i: "statement (insert_messages (message_payload pk (last + 1) ms)) s3 = (Some un2, s4)"
    and tr: "(case resolve_max_messages cfg max_messages of None \<Rightarrow> sql_return ()
       | Some limit \<Rightarrow> statement (trim_messages pk (last + int (length ms) - limit))) s4 = (Some (), s')"
    using assms(1) unfolding append_body_def sql_bind_Some by blast
  define s0 where "s0 = s\<lparr>pg_faults := tl (pg_faults s)\<rparr>"
  have same: "tables s0 = tables s" "pg_next_id s0 = pg_next_id s" by (simp_all add: s0_def tables_eq)
  have ok0: "pg_ok s0" using tables_ok [OF same(1) [symmetric]] assms(2) same(2) by simp
  have u0: "upsert_session sid t s0 = Some (pk, s1)" using u by (simp add: statement_Some s0_def)
  note up = upsert_effect [OF u0 ok0]
  obtain r where r: "pg_find s1 sid = Some r" "sr_id r = pk" "sr_expires_at r = Some t" using up(4) by blast
  have live: "\<not> pg_expired s1 r" using r(3) up(3) assms(3) same(1) by (simp add: pg_expired_def tables_eq)
  have s3: "tables s3 = tables s1" "pg_next_id s3 = pg_next_id s1"
    using l nt by (auto simp: statement_Some lock_session_def next_turn_def tables_eq)
  let ?rows = "rows_of s0 pk" and ?new = "message_payload pk (last + 1) ms"
  let ?lim = "resolve_max_messages cfg max_messages"
  have rows1: "rows_of s1 = rows_of s0" using up(2) by (simp add: rows_of_def fun_eq_iff)
  obtain k where k: "0 \<le> k" "numbered k ?rows" "?rows = [] \<Longrightarrow> k = 0"
    using rows_of_consecutive [OF ok0] by (rule consecutiveE) blast
  have rows2: "rows_of (s2\<lparr>pg_faults := tl (pg_faults s2)\<rparr>) pk = ?rows"
    using l up(2) by (auto simp: statement_Some lock_session_def rows_of_def)
  have last: "last = k + int (length ?rows) - 1"
    using nt next_turn_numbered [of k "s2\<lparr>pg_faults := tl (pg_faults s2)\<rparr>" pk] k(2,3)
    by (simp add: statement_Some rows2)
  have s4: "pg_sessions s4 = pg_sessions s1" "pg_now s4 = pg_now s1" "pg_next_id s4 = pg_next_id s1"
    "pg_messages s4 = pg_messages s1 @ ?new"
    using i s3 by (auto simp: statement_Some insert_messages_def tables_eq split: if_splits)
  have s': "pg_sessions s' = pg_sessions s1" "pg_now s' = pg_now s1" "pg_next_id s' = pg_next_id s1"
    "pg_messages s' = (case ?lim of None \<Rightarrow> pg_messages s4 | Some n \<Rightarrow>
       filter (\<lambda>m. \<not> (mr_session_pk m = pk \<and> mr_turn_index m \<le> last + int (length ms) - n)) (pg_messages s4))"
    using tr s4 by (auto simp: sql_return_def statement_Some trim_messages_def split: option.splits)
  have others: "rows_of s' p = rows_of s1 p" if "p \<noteq> pk" for p
  proof -
    have "filter (\<lambda>m. mr_session_pk m = p) ?new = []" using that by (simp add: payload_rows)
    then show ?thesis using that
      by (cases ?lim) (simp_all add: rows_of_def s' s4 trim_rows del: filter_filter)
  qed
  have own: "rows_of s' pk = limited ?lim (?rows @ ?new)"
  proof (cases ?lim)
    case None
    then show ?thesis using rows1 by (simp add: rows_of_def fun_eq_iff s' s4 payload_rows limited_def)
  next
    case (Some n)
    then have "0 \<le> n" by (auto simp: resolve_max_messages_def split: option.splits if_splits)
    have "rows_of s' pk = filter (\<lambda>m. last + int (length ?new) - n < mr_turn_index m) (rows_of s1 pk @ ?new)"
      using Some by (simp add: rows_of_def s' s4 trim_rows payload_rows del: filter_filter)
    with trimmed_rows [OF k(2,1) \<open>0 \<le> n\<close> last numbered_payload [of "last + 1" pk ms]] Some show ?thesis
      by (simp add: limited_def keep_recent_def rows1)
  qed
  have "consecutive (limited ?lim (?rows @ ?new))"
  proof -
    have "numbered k (?rows @ ?new)" using k(2) numbered_payload [of "last + 1" pk ms] by (simp add: numbered_append last)
    then show ?thesis using k(1) by (rule consecutive_limited)
  qed
  then have cons: "consecutive (rows_of s' (sr_id r))" by (simp add: own r(2))
  have eff: "pg_ok s'" "pg_history s' = (pg_history s1)(sid := map row_message (rows_of s' (sr_id r)))"
    "hidden_rows s' = (hidden_rows s1)(sid := False)"
    using write_rows_effect [OF up(1) r(1) live s'(1,2,3) _ cons] others r(2) by blast+
  then show "pg_ok s'" by simp
  have "?rows = stored_rows s sid" using up(6) by (simp only: stored_rows_def tables_read(1,2) [OF same(1)])
  then have "map row_message (rows_of s' pk) = limited ?lim (pg_stored s sid @ ms)"
    unfolding own by (auto simp: limited_def keep_recent_def pg_stored_def drop_map [symmetric] split: option.split)
  with eff upsert_histories [OF u0 ok0] tables_read(5,6) [OF same(1)] r(2)
  show "pg_history s' = (pg_history s)(sid := limited ?lim (pg_stored s sid @ ms))"
    "hidden_rows s' = (hidden_rows s)(sid := False)"
    by (simp_all add: fun_eq_iff)
qed

lemma set_body_effect:
  assumes "set_body sid ms t s = (Some (), s')" "pg_ok s" "pg_now s < t"
  shows "pg_ok s'" "pg_history s' = (pg_history s)(sid := ms)" "hidden_rows s' = (hidden_rows s)(sid := False)"
proof -
  obtain pk s1 un s2 where
      u: "statement (upsert_session sid t) s = (Some pk, s1)"
    and d: "statement (delete_messages pk) s1 = (Some un, s2)"
    and i: "(if ms = [] then sql_return () else statement (insert_messages (message_payload pk 0 ms))) s2 = (Some (), s')"
    using assms(1) unfolding set_body_def sql_bind_Some by blast
  define s0 where "s0 = s\<lparr>pg_faults := tl (pg_faults s)\<rparr>"
  have same: "tables s0 = tables s" "pg_next_id s0 = pg_next_id s" by (simp_all add: s0_def tables_eq)
  have ok0: "pg_ok s0" using tables_ok [OF same(1) [symmetric]] assms(2) same(2) by simp
  have u0: "upsert_session sid t s0 = Some (pk, s1)" using u by (simp add: statement_Some s0_def)
  note up = upsert_effect [OF u0 ok0]
  obtain r where r: "pg_find s1 sid = Some r" "sr_id r = pk" "sr_expires_at r = Some t" using up(4) by blast
  have live: "\<not> pg_expired s1 r" using r(3) up(3) assms(3) same(1) by (simp add: pg_expired_def tables_eq)
  have s': "pg_sessions s' = pg_sessions s1" "pg_now s' = pg_now s1" "pg_next_id s' = pg_next_id s1"
    "pg_messages s' = filter (\<lambda>m. mr_session_pk m \<noteq> pk) (pg_messages s1) @ message_payload pk 0 ms"
    using d i by (auto simp: statement_Some delete_messages_def insert_messages_def sql_return_def message_payload_def
        split: if_splits)
  have rows: "rows_of s' p = (if p = pk then message_payload pk 0 ms else rows_of s1 p)" for p
    by (auto simp: rows_of_def s' payload_rows filter_empty_conv intro!: filter_cong)
  have cons: "consecutive (rows_of s' (sr_id r))" by (simp add: rows r(2) consecutiveI [OF numbered_payload])
  have eff: "pg_ok s'" "pg_history s' = (pg_history s1)(sid := map row_message (rows_of s' (sr_id r)))"
    "hidden_rows s' = (hidden_rows s1)(sid := False)"
    using write_rows_effect [OF up(1) r(1) live s'(1,2,3) _ cons] rows r(2) by simp_all
  then show "pg_ok s'" by simp
  from eff upsert_histories [OF u0 ok0] tables_read(5,6) [OF same(1)] r(2)
  show "pg_history s' = (pg_history s)(sid := ms)" "hidden_rows s' = (hidden_rows s)(sid := False)"
    by (simp_all add: fun_eq_iff rows)
qed

subsection \<open>The operations against the contract\<close>

lemma pg_append_Inr:
  assumes "pg_append_messages cfg sid ms limit s = (Inr (), s')" "pg_ok s" "0 < pgc_expiration_sec cfg" "ms \<noteq> []"
  shows "pg_ok s'"
    "pg_history s' = (pg_history s)(sid := limited (resolve_max_messages cfg limit) (pg_stored s sid @ ms))"
    "hidden_rows s' = (hidden_rows s)(sid := False)"
proof -
  let ?t = "pg_now s + of_int (pgc_expiration_sec cfg)"
  obtain u where "with_connection (transaction (append_body cfg sid ms limit ?t)) s = (Some u, s')"
    using assms(1,4) by (auto simp: pg_append_messages_def Let_def split: prod.splits option.splits)
  then obtain s1 s2 where run: "tables s1 = tables s" "pg_next_id s1 = pg_next_id s"
      "append_body cfg sid ms limit ?t s1 = (Some (), s2)" "tables s' = tables s2" "pg_next_id s' = pg_next_id s2"
    by (rule write_Some) auto
  have "pg_ok s1" using tables_ok [OF run(1) [symmetric]] run(2) assms(2) by simp
  moreover have "pg_now s1 < ?t" using run(1) assms(3) by (simp add: tables_eq)
  ultimately have eff: "pg_ok s2"
    "pg_history s2 = (pg_history s1)(sid := limited (resolve_max_messages cfg limit) (pg_stored s1 sid @ ms))"
    "hidden_rows s2 = (hidden_rows s1)(sid := False)"
    using append_body_effect [OF run(3)] by blast+
  have stored: "pg_stored s1 = pg_stored s"
    by (rule ext) (simp only: pg_stored_def stored_rows_def tables_read(1,2) [OF run(1)])
  show "pg_ok s'" using tables_ok [OF run(4) [symmetric]] run(5) eff(1) by simp
  show "pg_history s' = (pg_history s)(sid := limited (resolve_max_messages cfg limit) (pg_stored s sid @ ms))"
    "hidden_rows s' = (hidden_rows s)(sid := False)"
    by (simp_all only: tables_read(5,6) [OF run(4)] eff tables_read(5,6) [OF run(1)] stored)
qed

lemma pg_append_Inl:
  assumes "pg_append_messages cfg sid ms limit s = (Inl e, s')"
  shows "tables s' = tables s" "pg_next_id s \<le> pg_next_id s'"
    "e = store_error ''failed to append session history to postgres''"
  using assms write_None [OF _ monotone_append_body]
  by (auto simp: pg_append_messages_def Let_def split: if_splits prod.splits option.splits)

lemma pg_set_Inr:
  assumes "pg_set_history cfg sid ms s = (Inr (), s')" "pg_ok s" "0 < pgc_expiration_sec cfg"
  shows "pg_ok s'" "pg_history s' = (pg_history s)(sid := normalize_messages cfg ms)"
proof -
  let ?t = "pg_now s + of_int (pgc_expiration_sec cfg)"
  obtain u where "with_connection (transaction (set_body sid (normalize_messages cfg ms) ?t)) s = (Some u, s')"
    using assms(1) by (auto simp: pg_set_history_def Let_def split: prod.splits option.splits)
  then obtain s1 s2 where run: "tables s1 = tables s" "pg_next_id s1 = pg_next_id s"
      "set_body sid (normalize_messages cfg ms) ?t s1 = (Some (), s2)" "tables s' = tables s2" "pg_next_id s' = pg_next_id s2"
    by (rule write_Some) auto
  have "pg_ok s1" using tables_ok [OF run(1) [symmetric]] run(2) assms(2) by simp
  moreover have "pg_now s1 < ?t" using run(1) assms(3) by (simp add: tables_eq)
  ultimately have eff: "pg_ok s2" "pg_history s2 = (pg_history s1)(sid := normalize_messages cfg ms)"
    using set_body_effect [OF run(3)] by blast+
  show "pg_ok s'" using tables_ok [OF run(4) [symmetric]] run(5) eff(1) by simp
  show "pg_history s' = (pg_history s)(sid := normalize_messages cfg ms)"
    by (simp only: tables_read(5) [OF run(4)] eff tables_read(5) [OF run(1)])
qed

lemma pg_set_Inl:
  assumes "pg_set_history cfg sid ms s = (Inl e, s')"
  shows "tables s' = tables s" "pg_next_id s \<le> pg_next_id s'"
    "e = store_error ''failed to set session history in postgres''"
  using assms write_None [OF _ monotone_set_body]
  by (auto simp: pg_set_history_def Let_def split: if_splits prod.splits option.splits)

lemma load_rows_Some: "load_rows rows = Some h \<Longrightarrow> h = map row_message rows"
  by (induction rows arbitrary: h) (auto simp: ChatMessage_def row_message_def split: if_splits)

lemma select_history_Some: "select_history sid s = Some (rows, s') \<Longrightarrow>
  s' = s \<and> rows = sort_key mr_turn_index (visible_rows s sid)"
  by (auto simp: select_history_def visible_rows_def split: if_splits)

lemma pg_get_effect:
  assumes "pg_get_history sid s = (r, s')"
  shows "tables s' = tables s" "pg_next_id s' = pg_next_id s" "\<And>h. r = Inr h \<Longrightarrow> h = pg_history s sid"
    "\<And>e. r = Inl e \<Longrightarrow> e = store_error ''failed to load session history from postgres''"
proof -
  obtain o1 s1 where run: "with_connection (statement (select_history sid)) s = (o1, s1)" by fastforce
  have eff: "tables s1 = tables s \<and> pg_next_id s1 = pg_next_id s \<and>
    (\<forall>rows. o1 = Some rows \<longrightarrow> rows = sort_key mr_turn_index (visible_rows s sid))"
    using run
  proof (cases rule: with_connection_cases)
    case (run s2)
    let ?s3 = "s2\<lparr>pg_faults := tl (pg_faults s2)\<rparr>"
    have t: "tables ?s3 = tables s" "pg_next_id ?s3 = pg_next_id s" using run(1,2) by (simp_all add: tables_eq)
    show ?thesis
    proof (cases o1)
      case None
      with run(3) statement_None [of "select_history sid" s2 s1] t show ?thesis by simp
    next
      case (Some rows)
      with run(3) have "select_history sid ?s3 = Some (rows, s1)" by (simp add: statement_Some)
      from select_history_Some [OF this] Some t tables_read(4) [OF t(1)] show ?thesis by simp
    qed
  qed simp
  with assms run show "tables s' = tables s" "pg_next_id s' = pg_next_id s"
    "\<And>h. r = Inr h \<Longrightarrow> h = pg_history s sid"
    "\<And>e. r = Inl e \<Longrightarrow> e = store_error ''failed to load session history from postgres''"
    by (auto simp: pg_get_history_def pg_history_def split: option.splits dest!: load_rows_Some)
qed

lemma pg_append_nil [simp]: "pg_append_messages cfg sid [] limit s = (Inr (), s)"
  by (simp add: pg_append_messages_def)

lemma limited_max: "limited (resolve_max_messages cfg (Some n)) xs = keep_recent n xs"
  by (cases "0 \<le> n") (simp_all add: resolve_max_messages_def limited_def keep_recent_def)

lemma pg_append_contract:
  assumes "pg_append_messages cfg sid ms (Some n) s = (Inr (), s')" "pg_ready cfg s sid"
  shows "pg_history s' = (pg_history s)(sid := appended n (pg_history s sid) ms)"
proof (cases "ms = []")
  case False
  have "pg_history s sid = pg_stored s sid" using assms(2) by (intro stored_visible) (auto simp: pg_ready_def)
  with pg_append_Inr(2) [OF assms(1)] assms(2) False show ?thesis
    by (simp add: pg_ready_def limited_max appended_def)
qed (use assms(1) in \<open>auto simp: appended_def\<close>)

lemma pg_append_keeps_ready:
  assumes "pg_append_messages cfg sid ms limit s = (u, s')" "pg_ready cfg s x"
  shows "pg_ready cfg s' x"
proof (cases u)
  case (Inl e)
  with pg_append_Inl [of cfg sid ms limit s e s'] assms(1) have "tables s = tables s'" "pg_next_id s \<le> pg_next_id s'"
    by simp_all
  then show ?thesis using assms(2) by (rule tables_ready)
next
  case (Inr v)
  show ?thesis
  proof (cases "ms = []")
    case False
    with pg_append_Inr [of cfg sid ms limit s s'] Inr assms show ?thesis by (simp add: pg_ready_def)
  qed (use assms in auto)
qed

interpretation postgres: session_repository "PostgresSessionRepository cfg" pg_history "pg_ready cfg" for cfg
proof unfold_locales
  fix sid s r s'
  assume g: "repo_get_history (PostgresSessionRepository cfg) sid s = (r, s')"
  then have t: "tables s' = tables s" "pg_next_id s' = pg_next_id s" using pg_get_effect by simp_all
  have "pg_ready cfg s' x = pg_ready cfg s x" for x
    using tables_ready [OF t(1)] tables_ready [OF t(1) [symmetric]] t(2) by auto
  then show "pg_history s' = pg_history s \<and> pg_ready cfg s' = pg_ready cfg s"
    using tables_read(5) [OF t(1)] by (simp add: fun_eq_iff)
next
  fix sid ms n s e s'
  assume "repo_append_messages (PostgresSessionRepository cfg) sid ms (Some n) s = (Inl e, s')"
  then have "pg_append_messages cfg sid ms (Some n) s = (Inl e, s')" by simp
  note failed = pg_append_Inl [OF this]
  show "pg_history s' = pg_history s \<and> exn_cls e = SessionStoreError \<and> wf_exn e"
    by (simp add: tables_read(5) [OF failed(1)] failed(3) store_error_def)
next
  fix sid s e s'
  assume "repo_get_history (PostgresSessionRepository cfg) sid s = (Inl e, s')"
  then show "exn_cls e = SessionStoreError \<and> wf_exn e"
    using pg_get_effect(4) [of sid s "Inl e" s' e] by (simp add: store_error_def)
next
  fix sid s h s'
  assume "repo_get_history (PostgresSessionRepository cfg) sid s = (Inr h, s')"
  then show "h = pg_history s sid" using pg_get_effect(3) [of sid s "Inr h" s' h] by simp
qed (simp_all add: pg_append_contract pg_append_keeps_ready)

subsection \<open>The states that a running service reaches\<close>

text \<open>
  From empty tables, by the operations of the repository (with messages that pass the
  validation of \<open>ChatMessage\<close>), by time passing, and by the server choosing which calls fail.
\<close>

definition empty_pg :: "real \<Rightarrow> bool list \<Rightarrow> pg" where
  "empty_pg now faults = \<lparr>pg_sessions = [], pg_messages = [], pg_next_id = 1, pg_now = now,
     pg_pool = False, pg_faults = faults\<rparr>"

abbreviation valid_messages :: "chat_message list \<Rightarrow> bool" where
  "valid_messages \<equiv> list_all (\<lambda>m. valid_role (role m))"

inductive pg_reach :: "pg_config \<Rightarrow> pg \<Rightarrow> bool" for cfg :: pg_config where
  start: "pg_reach cfg (empty_pg now faults)"
| get: "pg_reach cfg s \<Longrightarrow> pg_get_history sid s = (r, s') \<Longrightarrow> pg_reach cfg s'"
| append: "pg_reach cfg s \<Longrightarrow> valid_messages ms \<Longrightarrow> pg_append_messages cfg sid ms limit s = (u, s') \<Longrightarrow> pg_reach cfg s'"
| set: "pg_reach cfg s \<Longrightarrow> valid_messages ms \<Longrightarrow> pg_set_history cfg sid ms s = (u, s') \<Longrightarrow> pg_reach cfg s'"
| ping: "pg_reach cfg s \<Longrightarrow> pg_ping s = (b, s') \<Longrightarrow> pg_reach cfg s'"
| close: "pg_reach cfg s \<Longrightarrow> pg_close s = (u, s') \<Longrightarrow> pg_reach cfg s'"
| tick: "pg_reach cfg s \<Longrightarrow> 0 \<le> d \<Longrightarrow> pg_reach cfg (s\<lparr>pg_now := pg_now s + d\<rparr>)"
| fault: "pg_reach cfg s \<Longrightarrow> pg_reach cfg (s\<lparr>pg_faults := faults\<rparr>)"

lemma pg_ping_tables: "pg_ping s = (b, s') \<Longrightarrow> tables s' = tables s \<and> pg_next_id s' = pg_next_id s"
proof -
  assume p: "pg_ping s = (b, s')"
  obtain v s1 where run: "with_connection (statement (\<lambda>s. Some ((), s))) s = (v, s1)" by fastforce
  from run have "tables s1 = tables s \<and> pg_next_id s1 = pg_next_id s"
  proof (cases rule: with_connection_cases)
    case (run s2)
    with skip_tables [OF run(3)] show ?thesis by simp
  qed simp
  with p run show ?thesis by (auto simp: pg_ping_def split: option.splits)
qed

lemma pg_close_tables: "pg_close s = (u, s') \<Longrightarrow> tables s' = tables s \<and> pg_next_id s' = pg_next_id s"
  by (auto simp: pg_close_def statement_def tables_eq Let_def split: if_splits option.splits)

lemma pg_ok_empty: "pg_ok (empty_pg now faults)"
  by (simp add: pg_ok_def empty_pg_def)

lemma pg_ok_env: "pg_ok (s\<lparr>pg_now := t\<rparr>) = pg_ok s" "pg_ok (s\<lparr>pg_faults := fs\<rparr>) = pg_ok s"
  by (simp_all add: pg_ok_def rows_of_def)

lemma pg_append_ok:
  assumes "pg_append_messages cfg sid ms limit s = (u, s')" "pg_ok s" "0 < pgc_expiration_sec cfg"
  shows "pg_ok s'"
proof (cases u)
  case (Inl e)
  with assms(1) have a: "pg_append_messages cfg sid ms limit s = (Inl e, s')" by simp
  show ?thesis using tables_ok [OF pg_append_Inl(1) [OF a, symmetric] pg_append_Inl(2) [OF a] assms(2)] .
next
  case (Inr v)
  then show ?thesis using assms pg_append_Inr(1) [of cfg sid ms limit s s'] by (cases "ms = []") auto
qed

lemma pg_set_ok:
  assumes "pg_set_history cfg sid ms s = (u, s')" "pg_ok s" "0 < pgc_expiration_sec cfg"
  shows "pg_ok s'"
proof (cases u)
  case (Inl e)
  with assms(1) have a: "pg_set_history cfg sid ms s = (Inl e, s')" by simp
  show ?thesis using tables_ok [OF pg_set_Inl(1) [OF a, symmetric] pg_set_Inl(2) [OF a] assms(2)] .
next
  case (Inr v)
  then show ?thesis using assms pg_set_Inr(1) [of cfg sid ms s s'] by auto
qed

text \<open>The roles of the stored rows stay valid.\<close>

definition roles_ok :: "pg \<Rightarrow> bool" where
  "roles_ok s \<longleftrightarrow> list_all (\<lambda>r. valid_role (mr_role r)) (pg_messages s)"

definition keeps_roles :: "'a sql \<Rightarrow> bool" where
  "keeps_roles m \<longleftrightarrow> (\<forall>s. roles_ok s \<longrightarrow> roles_ok (snd (m s)))"

lemma roles_bind: "keeps_roles m \<Longrightarrow> (\<And>x. keeps_roles (f x)) \<Longrightarrow> keeps_roles (sql_bind m f)"
  unfolding keeps_roles_def sql_bind_def by (fastforce split: prod.splits option.splits)

lemma roles_return: "keeps_roles (sql_return x)"
  by (simp add: keeps_roles_def sql_return_def)

lemma roles_statement:
  assumes "\<And>s x s'. f s = Some (x, s') \<Longrightarrow> roles_ok s \<Longrightarrow> roles_ok s'"
  shows "keeps_roles (statement f)"
proof -
  have "roles_ok (s\<lparr>pg_faults := fs\<rparr>) = roles_ok s" for s fs by (simp add: roles_ok_def)
  with assms show ?thesis
    by (auto simp: keeps_roles_def statement_def Let_def split: option.splits)
qed

lemma roles_payload: "valid_messages ms \<Longrightarrow> list_all (\<lambda>r. valid_role (mr_role r)) (message_payload pk k ms)"
  by (auto simp: message_payload_def list_all_iff in_set_enumerate_eq)

lemma roles_statements:
  "keeps_roles (statement (upsert_session sid t))" "keeps_roles (statement (lock_session pk))"
  "keeps_roles (statement (next_turn pk))" "keeps_roles (statement (trim_messages pk b))"
  "keeps_roles (statement (delete_messages pk))"
  "valid_messages ms \<Longrightarrow> keeps_roles (statement (insert_messages (message_payload pk k ms)))"
  by (rule roles_statement; auto simp: upsert_session_def lock_session_def next_turn_def roles_ok_def list_all_iff
      trim_messages_def delete_messages_def insert_messages_def Let_def roles_payload [unfolded list_all_iff]
      split: if_splits option.splits)+

lemma roles_append_body: "valid_messages ms \<Longrightarrow> keeps_roles (append_body cfg sid ms limit t)"
  unfolding append_body_def
  by (intro roles_bind roles_statements) (auto intro: roles_return roles_statements split: option.split)

lemma roles_set_body: "valid_messages ms \<Longrightarrow> keeps_roles (set_body sid ms t)"
  unfolding set_body_def by (intro roles_bind roles_statements) (auto intro: roles_return roles_statements)

lemma roles_tables: "tables s = tables s' \<Longrightarrow> roles_ok s = roles_ok s'"
  by (simp add: roles_ok_def tables_eq)

lemma roles_write:
  assumes "with_connection (transaction body) s = (v, s')" "keeps_roles body" "monotone_sql body" "roles_ok s"
  shows "roles_ok s'"
proof (cases v)
  case None
  with assms write_None [of body s s'] show ?thesis using roles_tables [of s' s] by auto
next
  case (Some x)
  from assms(1) [unfolded Some] show ?thesis
  proof (rule write_Some)
    fix s1 s2
    assume run: "tables s1 = tables s" "body s1 = (Some x, s2)" "tables s' = tables s2"
    then have "roles_ok s1" using assms(4) roles_tables by blast
    with assms(2) run(2) have "roles_ok s2" unfolding keeps_roles_def by (metis snd_conv)
    with run(3) show "roles_ok s'" using roles_tables by blast
  qed
qed

lemma normalize_valid: "valid_messages ms \<Longrightarrow> valid_messages (normalize_messages cfg ms)"
  by (auto simp: normalize_messages_def list_all_iff Let_def py_neg_slice_pos dest: in_set_dropD)

lemma pg_reach_roles: "pg_reach cfg s \<Longrightarrow> roles_ok s"
proof (induction rule: pg_reach.induct)
  case (append s ms sid limit u s')
  from append.hyps(3) append.IH show ?case
    by (auto simp: pg_append_messages_def Let_def split: if_splits prod.splits option.splits
        dest: roles_write [OF _ roles_append_body [OF append.hyps(2)] monotone_append_body])
next
  case (set s ms sid u s')
  from set.hyps(3) set.IH show ?case
    by (auto simp: pg_set_history_def Let_def split: if_splits prod.splits option.splits
        dest: roles_write [OF _ roles_set_body [OF normalize_valid [OF set.hyps(2)]] monotone_set_body])
qed (auto simp: roles_ok_def empty_pg_def tables_eq dest: pg_get_effect(1) pg_ping_tables pg_close_tables)

lemma pg_reach_ok: "pg_reach cfg s \<Longrightarrow> 0 < pgc_expiration_sec cfg \<Longrightarrow> pg_ok s"
proof (induction rule: pg_reach.induct)
  case (get s sid r s')
  then show ?case using tables_ok [of s s'] pg_get_effect(1,2) [of sid s r s'] by simp
next
  case (ping s b s')
  then show ?case using tables_ok [of s s'] pg_ping_tables by simp
next
  case (close s u s')
  then show ?case using tables_ok [of s s'] pg_close_tables by simp
qed (auto simp: pg_ok_empty pg_ok_env intro: pg_append_ok pg_set_ok)

lemma load_rows_valid: "list_all (\<lambda>r. valid_role (mr_role r)) rows \<Longrightarrow> load_rows rows = Some (map row_message rows)"
  by (induction rows) (simp_all add: ChatMessage_def row_message_def)

lemma visible_roles: "roles_ok s \<Longrightarrow> list_all (\<lambda>r. valid_role (mr_role r)) (sort_key mr_turn_index (visible_rows s sid))"
  by (auto simp: roles_ok_def visible_rows_def rows_of_def list_all_iff split: option.splits if_splits)

text \<open>A read whose calls to the server succeed.\<close>

lemma pg_get_no_faults:
  assumes "pg_faults s = []" "pg_text sid" "roles_ok s"
  shows "fst (pg_get_history sid s) = Inr (pg_history s sid)"
proof -
  define s1 where "s1 = s\<lparr>pg_pool := True, pg_faults := []\<rparr>"
  have ok: "statement f x = (case f x of None \<Rightarrow> (None, x) | Some (y, z) \<Rightarrow> (Some y, z))"
    if "pg_faults x = []" for f :: "pg \<Rightarrow> ('a \<times> pg) option" and x
    using that by (cases x) (simp add: statement_def Let_def split: option.split)
  have "ensure_pool s = (Some (), s1)"
    using assms(1) by (cases s) (simp add: ensure_pool_def s1_def ok)
  moreover have t: "tables s1 = tables s" and f: "pg_faults s1 = []" by (simp_all add: s1_def tables_eq)
  moreover have "select_history sid s1 = Some (sort_key mr_turn_index (visible_rows s sid), s1)"
    using assms(2) by (simp add: select_history_def visible_rows_def [symmetric] tables_read(4) [OF t, symmetric])
  ultimately have "with_connection (statement (select_history sid)) s =
      (Some (sort_key mr_turn_index (visible_rows s sid)), s1)"
    by (simp add: with_connection_def sql_bind_def ok)
  with load_rows_valid [OF visible_roles [OF assms(3)]] show ?thesis
    by (simp add: pg_get_history_def pg_history_def)
qed

text \<open>A configuration, and the tables after one turn of a session.\<close>

definition demo_pg_config :: pg_config where
  "demo_pg_config = \<lparr>pgc_expiration_sec = 60, pgc_max_history_turns = 2\<rparr>"

definition demo_pg :: pg where
  "demo_pg = snd (pg_append_messages demo_pg_config ''s'' [user_msg ''hi'', assistant_msg ''yo''] (Some 4) (empty_pg 0 []))"

lemma demo_pg_eq: "demo_pg = \<lparr>pg_sessions = [\<lparr>sr_id = 1, sr_session_id = ''s'', sr_expires_at = Some 60\<rparr>],
  pg_messages = [\<lparr>mr_session_pk = 1, mr_turn_index = 0, mr_role = ''user'', mr_content = ''hi''\<rparr>,
    \<lparr>mr_session_pk = 1, mr_turn_index = 1, mr_role = ''assistant'', mr_content = ''yo''\<rparr>],
  pg_next_id = 2, pg_now = 0, pg_pool = True, pg_faults = []\<rparr>"
  by code_simp

text \<open>A run in which the second append fails at its insert, after \<open>BEGIN\<close> and three statements.\<close>

definition demo_ops :: "store_op list" where
  "demo_ops = [Append_Op ''s'' [user_msg ''a''] 2, Append_Op ''s'' [user_msg ''b''] 2, Get_Op ''s'',
     Append_Op ''s'' [user_msg ''c'', user_msg ''d''] 2, Get_Op ''s'']"

lemma demo_run: "fst (run_ops (PostgresSessionRepository demo_pg_config) demo_ops (empty_pg 0 (replicate 14 False @ [True]))) =
  [Appended, Failed, Got [user_msg ''a''], Appended, Got [user_msg ''c'', user_msg ''d'']]"
  by code_simp

lemma demo_expired: "hidden_rows (demo_pg\<lparr>pg_now := 100\<rparr>) ''s''"
  "pg_append_messages demo_pg_config ''s'' [user_msg ''again''] (Some 4) (demo_pg\<lparr>pg_now := 100\<rparr>) =
     (Inr (), snd (pg_append_messages demo_pg_config ''s'' [user_msg ''again''] (Some 4) (demo_pg\<lparr>pg_now := 100\<rparr>)))"
  unfolding demo_pg_eq by code_simp+

lemma demo_stored: "pg_stored (demo_pg\<lparr>pg_now := 100\<rparr>) ''s'' = [user_msg ''hi'', assistant_msg ''yo'']"
  by (simp add: demo_pg_eq pg_stored_def stored_rows_def pg_find_def rows_of_def row_message_def user_msg_def assistant_msg_def)

lemma demo_pg_reach: "pg_reach demo_pg_config demo_pg"
  unfolding demo_pg_def
  by (rule pg_reach.append [OF pg_reach.start _ surjective_pairing, where ms = "[user_msg ''hi'', assistant_msg ''yo'']"])
    (simp add: valid_role_def)

lemma numbered_upto: "numbered k xs \<Longrightarrow> map mr_turn_index xs = [k..k + int (length xs) - 1]"
  by (induction xs arbitrary: k) (auto simp: upto_rec1 algebra_simps)

lemma tables_unchanged: "tables s' = tables s \<Longrightarrow>
  pg_sessions s' = pg_sessions s \<and> pg_messages s' = pg_messages s \<and> pg_history s' = pg_history s"
  using tables_read(5) [of s' s] by (simp add: tables_eq)

lemma append_unchanged:
  "case pg_append_messages cfg sid ms limit s of
     (Inl e, s') \<Rightarrow> pg_sessions s' = pg_sessions s \<and> pg_messages s' = pg_messages s \<and>
       pg_history s' = pg_history s \<and> exn_cls e = SessionStoreError
   | (Inr _, s') \<Rightarrow> True"
proof (cases "pg_append_messages cfg sid ms limit s")
  case (Pair u s')
  show ?thesis
  proof (cases u)
    case (Inl e)
    note failed = pg_append_Inl [OF Pair [unfolded Inl]]
    show ?thesis unfolding Pair Inl using tables_unchanged [OF failed(1)] failed(3) by (simp add: store_error_def)
  qed (simp add: Pair)
qed

lemma set_unchanged:
  "case pg_set_history cfg sid ms s of
     (Inl e, s') \<Rightarrow> pg_sessions s' = pg_sessions s \<and> pg_messages s' = pg_messages s \<and>
       pg_history s' = pg_history s \<and> exn_cls e = SessionStoreError
   | (Inr _, s') \<Rightarrow> True"
proof (cases "pg_set_history cfg sid ms s")
  case (Pair u s')
  show ?thesis
  proof (cases u)
    case (Inl e)
    note failed = pg_set_Inl [OF Pair [unfolded Inl]]
    show ?thesis unfolding Pair Inl using tables_unchanged [OF failed(1)] failed(3) by (simp add: store_error_def)
  qed (simp add: Pair)
qed

subsection \<open>Properties\<close>




text \<open>
  C20: the invariant of the tables. In every state that a running service reaches, whatever
  fails and however time passes, no session id has two rows, every message belongs to a
  session, and the turn indices of a session's messages, in insertion order, run without gap
  or repetition from a non-negative start (so the unique index is never violated and a read
  ordered by turn index returns the messages in the order they were appended).
\<close>

theorem postgres_tables_ok:
  assumes "pg_reach cfg s" "0 < pgc_expiration_sec cfg"
  shows "distinct (map sr_session_id (pg_sessions s)) \<and>
    (\<forall>m \<in> set (pg_messages s). mr_session_pk m \<in> sr_id ` set (pg_sessions s)) \<and>
    (\<exists>k \<ge> 0. map mr_turn_index (rows_of s pk) = [k..k + int (length (rows_of s pk)) - 1])"
proof -
  have ok: "pg_ok s" using assms by (rule pg_reach_ok)
  obtain k where "0 \<le> k" "numbered k (rows_of s pk)" using rows_of_consecutive [OF ok] by (rule consecutiveE) blast
  then show ?thesis using ok numbered_upto by (auto simp: pg_ok_def list_all_iff)
qed

theorem postgres_tables_ok_witness:
  "pg_reach demo_pg_config demo_pg \<and> map mr_turn_index (rows_of demo_pg 1) = [0, 1] \<and>
   (\<exists>k \<ge> 0. map mr_turn_index (rows_of demo_pg 1) = [k..k + int (length (rows_of demo_pg 1)) - 1])"
  using postgres_tables_ok [OF demo_pg_reach, of 1] demo_pg_reach
  by (simp add: demo_pg_config_def) (simp add: demo_pg_eq rows_of_def)

text \<open>
  C33: what the program stores it can load. In every reachable state a read whose calls to the
  server succeed returns the stored history: no stored row fails the validation of
  \<open>ChatMessage\<close>, so a \<open>SessionStoreError\<close> of a read always stands for a failed call.
\<close>

theorem postgres_read_total:
  assumes "pg_reach cfg s" "pg_faults s = []" "pg_text sid"
  shows "fst (pg_get_history sid s) = Inr (pg_history s sid)"
  using pg_get_no_faults [OF assms(2,3) pg_reach_roles [OF assms(1)]] .

theorem postgres_read_total_witness:
  "fst (pg_get_history ''s'' demo_pg) = Inr [user_msg ''hi'', assistant_msg ''yo'']"
  using postgres_read_total [OF demo_pg_reach, of "''s''"]
  by (simp add: demo_pg_eq pg_text_def pg_history_def visible_rows_def pg_find_def pg_expired_def rows_of_def
      row_message_def user_msg_def assistant_msg_def)

text \<open>
  C37: an expired session comes back. Where a session has expired its rows are hidden from
  reads but stay in the table; an append makes the session live again without deleting them,
  so the next read returns the messages from before the expiry in front of the new ones.
\<close>

theorem postgres_expired_rows_return:
  assumes "pg_ok s" "0 < pgc_expiration_sec cfg" "hidden_rows s sid" "ms \<noteq> []"
    and "pg_append_messages cfg sid ms (Some n) s = (Inr (), s')"
  shows "pg_history s sid = [] \<and> pg_stored s sid \<noteq> [] \<and> pg_history s' sid = keep_recent n (pg_stored s sid @ ms)"
proof -
  have "pg_history s sid = [] \<and> pg_stored s sid \<noteq> []"
    using assms(3) by (auto simp: pg_history_def visible_rows_def hidden_rows_def pg_stored_def stored_rows_def
        split: option.splits)
  then show ?thesis using pg_append_Inr(2) [OF assms(5,1,2,4)] by (simp add: limited_max)
qed

theorem postgres_expired_rows_return_witness:
  "pg_history (demo_pg\<lparr>pg_now := 100\<rparr>) ''s'' = [] \<and>
   pg_history (snd (pg_append_messages demo_pg_config ''s'' [user_msg ''again''] (Some 4) (demo_pg\<lparr>pg_now := 100\<rparr>))) ''s'' =
     [user_msg ''hi'', assistant_msg ''yo'', user_msg ''again'']"
  using postgres_expired_rows_return [OF _ _ demo_expired(1) _ demo_expired(2)]
    pg_reach_ok [OF demo_pg_reach] by (simp add: demo_pg_config_def pg_ok_env demo_stored keep_recent_def)

end
