(* ===== verification/Redis_Server.thy ===== *)
theory Redis_Server
  imports Errors
begin

text \<open>
  The Redis server as the adapters use it. The server and the client library are not part of
  the program: they are a parameter, the record \<open>redis_server\<close>, and the locale \<open>redis\<close> states what
  the adapters rely on, that each command acts as its documentation says (\<open>redis_apply\<close>) on the
  keys as a client sees them, and that an exchange that fails has had no effect. An exchange
  whose answer alone is lost is not modelled. \<open>reference_server\<close> is a server with this behaviour.
\<close>

subsection \<open>Keys and commands\<close>

text \<open>A value is a list or a counter, with the time to live where one is set.\<close>

datatype redis_value = RList "string list" | RInt int

type_synonym redis_keys = "string \<rightharpoonup> redis_value \<times> int option"

datatype redis_command =
    RPUSH string "string list"
  | LTRIM string int int
  | DEL string
  | EXPIRE string int
  | LRANGE string int int
  | INCR string
  | PING

datatype redis_reply = RepInt int | RepItems "string list" | RepOk | RepError string

text \<open>The elements from \<open>start\<close> to \<open>stop\<close>, both included, negative offsets counting from the end.\<close>

definition redis_range :: "int \<Rightarrow> int \<Rightarrow> 'a list \<Rightarrow> 'a list" where
  "redis_range start stop xs =
     (let n = int (length xs);
          i = (if start < 0 then max 0 (n + start) else start);
          j = (if stop < 0 then n + stop else stop)
      in take (nat (j - i + 1)) (drop (nat i) xs))"

definition wrong_type :: redis_reply where
  "wrong_type = RepError ''WRONGTYPE Operation against a key holding the wrong kind of value''"

fun redis_apply :: "redis_command \<Rightarrow> redis_keys \<Rightarrow> redis_reply \<times> redis_keys" where
  "redis_apply (RPUSH k xs) db = (case db k of
       None \<Rightarrow> (RepInt (int (length xs)), db(k \<mapsto> (RList xs, None)))
     | Some (RList ys, t) \<Rightarrow> (RepInt (int (length ys + length xs)), db(k \<mapsto> (RList (ys @ xs), t)))
     | Some (RInt _, _) \<Rightarrow> (wrong_type, db))"
| "redis_apply (LTRIM k i j) db = (case db k of
       None \<Rightarrow> (RepOk, db)
     | Some (RList ys, t) \<Rightarrow>
         (RepOk, if redis_range i j ys = [] then db(k := None) else db(k \<mapsto> (RList (redis_range i j ys), t)))
     | Some (RInt _, _) \<Rightarrow> (wrong_type, db))"
| "redis_apply (DEL k) db = (RepInt (if db k = None then 0 else 1), db(k := None))"
| "redis_apply (EXPIRE k s) db = (case db k of
       None \<Rightarrow> (RepInt 0, db)
     | Some (v, _) \<Rightarrow> (RepInt 1, if s \<le> 0 then db(k := None) else db(k \<mapsto> (v, Some s))))"
| "redis_apply (LRANGE k i j) db = (case db k of
       None \<Rightarrow> (RepItems [], db)
     | Some (RList ys, _) \<Rightarrow> (RepItems (redis_range i j ys), db)
     | Some (RInt _, _) \<Rightarrow> (wrong_type, db))"
| "redis_apply (INCR k) db = (case db k of
       None \<Rightarrow> (RepInt 1, db(k \<mapsto> (RInt 1, None)))
     | Some (RInt n, t) \<Rightarrow>
         (if n + 1 < 2 ^ 63 then (RepInt (n + 1), db(k \<mapsto> (RInt (n + 1), t)))
          else (RepError ''ERR increment or decrement would overflow'', db))
     | Some (RList _, _) \<Rightarrow> (wrong_type, db))"
| "redis_apply PING db = (RepOk, db)"

lemma redis_range_all: "redis_range 0 (- 1) xs = xs"
  by (simp add: redis_range_def)

lemma redis_range_last: "0 < n \<Longrightarrow> redis_range (- n) (- 1) xs = drop (length xs - nat n) xs"
proof -
  assume "0 < n"
  then have "redis_range (- n) (- 1) xs = take (nat (int (length xs) - max 0 (int (length xs) - n))) (drop (nat (max 0 (int (length xs) - n))) xs)"
    by (simp add: redis_range_def algebra_simps)
  moreover have "nat (max 0 (int (length xs) - n)) = length xs - nat n" using \<open>0 < n\<close> by auto
  moreover from this have "length xs - (length xs - nat n) \<le> nat (int (length xs) - max 0 (int (length xs) - n))" by auto
  ultimately show ?thesis by simp
qed

subsection \<open>The server and the client\<close>

text \<open>
  \<open>rs_call\<close> is the effect of one command; \<open>rs_reach\<close> says whether an exchange raises before the
  server has acted; \<open>rs_close\<close> closes the client.
\<close>

record 'db redis_server =
  rs_call :: "redis_command \<Rightarrow> 'db \<Rightarrow> redis_reply \<times> 'db"
  rs_reach :: "'db \<Rightarrow> exn option \<times> 'db"
  rs_close :: "'db \<Rightarrow> (exn + unit) \<times> 'db"

definition response_error :: "string \<Rightarrow> exn" where
  "response_error m = mk_exn (BuiltinError ''ResponseError'') m"

fun run_calls :: "(redis_command \<Rightarrow> 'db \<Rightarrow> redis_reply \<times> 'db) \<Rightarrow> redis_command list \<Rightarrow> 'db \<Rightarrow> redis_reply list \<times> 'db" where
  "run_calls call [] db = ([], db)"
| "run_calls call (c # cs) db = (let (r, db1) = call c db; (rs, db2) = run_calls call cs db1 in (r # rs, db2))"

fun first_error :: "redis_reply list \<Rightarrow> string option" where
  "first_error [] = None"
| "first_error (RepError m # rs) = Some m"
| "first_error (_ # rs) = first_error rs"

text \<open>
  One command, and a pipeline sent as one transaction: the server runs all of its commands,
  and the client raises the first error among the replies.
\<close>

definition redis_pipeline :: "'db redis_server \<Rightarrow> redis_command list \<Rightarrow> 'db \<Rightarrow> (exn + redis_reply list) \<times> 'db" where
  "redis_pipeline srv cs db = (case rs_reach srv db of
       (Some e, db1) \<Rightarrow> (Inl e, db1)
     | (None, db1) \<Rightarrow> (let (rs, db2) = run_calls (rs_call srv) cs db1
         in case first_error rs of Some m \<Rightarrow> (Inl (response_error m), db2) | None \<Rightarrow> (Inr rs, db2)))"

definition redis_execute :: "'db redis_server \<Rightarrow> redis_command \<Rightarrow> 'db \<Rightarrow> (exn + redis_reply) \<times> 'db" where
  "redis_execute srv c db = (case redis_pipeline srv [c] db of
       (Inl e, db1) \<Rightarrow> (Inl e, db1) | (Inr rs, db1) \<Rightarrow> (Inr (hd rs), db1))"

definition redis_ping :: "'db redis_server \<Rightarrow> 'db \<Rightarrow> bool \<times> 'db" where
  "redis_ping srv db = (case redis_execute srv PING db of (Inl _, db1) \<Rightarrow> (False, db1) | (Inr _, db1) \<Rightarrow> (True, db1))"

subsection \<open>What the adapters rely on\<close>

locale redis =
  fixes srv :: "'db redis_server" and keys :: "'db \<Rightarrow> redis_keys"
  assumes call: "rs_call srv c db = (r, db') \<Longrightarrow> redis_apply c (keys db) = (r, keys db')"
    and reach: "rs_reach srv db = (x, db') \<Longrightarrow> keys db' = keys db"
begin

lemma run_calls_apply: "run_calls (rs_call srv) cs db = (rs, db') \<Longrightarrow> run_calls redis_apply cs (keys db) = (rs, keys db')"
proof (induction cs arbitrary: db rs)
  case (Cons c cs)
  obtain r db1 where "rs_call srv c db = (r, db1)" by fastforce
  with Cons call show ?case by (fastforce split: prod.splits)
qed simp

lemma pipeline_Inr:
  assumes "redis_pipeline srv cs db = (Inr rs, db')"
  shows "run_calls redis_apply cs (keys db) = (rs, keys db')" "first_error rs = None"
  using assms reach
  by (auto simp: redis_pipeline_def split: prod.splits option.splits dest!: run_calls_apply)

text \<open>A pipeline that raises did nothing, or ran whole and an error is among its replies.\<close>

lemma pipeline_Inl:
  assumes "redis_pipeline srv cs db = (Inl e, db')"
  obtains (unreached) "keys db' = keys db"
  | (refused) rs m where "run_calls redis_apply cs (keys db) = (rs, keys db')" "first_error rs = Some m"
  using assms reach
  by (auto simp: redis_pipeline_def split: prod.splits option.splits dest!: run_calls_apply)

lemma execute_Inr: "redis_execute srv c db = (Inr r, db') \<Longrightarrow> redis_apply c (keys db) = (r, keys db') \<and> (\<forall>m. r \<noteq> RepError m)"
proof -
  assume e: "redis_execute srv c db = (Inr r, db')"
  then obtain rs where p: "redis_pipeline srv [c] db = (Inr rs, db')" "r = hd rs"
    by (auto simp: redis_execute_def split: prod.splits sum.splits)
  from pipeline_Inr [OF p(1)] p(2) show ?thesis by (cases r) (auto split: prod.splits)
qed

lemma execute_Inl: "redis_execute srv c db = (Inl e, db') \<Longrightarrow> keys db' = keys db \<or> (\<exists>m. redis_apply c (keys db) = (RepError m, keys db'))"
proof -
  assume "redis_execute srv c db = (Inl e, db')"
  then have "redis_pipeline srv [c] db = (Inl e, db')"
    by (auto simp: redis_execute_def split: prod.splits sum.splits)
  then show ?thesis
  proof (cases rule: pipeline_Inl)
    case (refused rs m)
    then obtain r where "redis_apply c (keys db) = (r, keys db')" "rs = [r]" by (auto split: prod.splits)
    with refused(2) show ?thesis by (cases r) auto
  qed simp
qed

lemma ping_keys: "redis_ping srv db = (b, db') \<Longrightarrow> keys db' = keys db"
proof -
  assume p: "redis_ping srv db = (b, db')"
  obtain r where r: "redis_execute srv PING db = (r, db')"
    using p by (auto simp: redis_ping_def split: prod.splits sum.splits)
  show ?thesis
  proof (cases r)
    case (Inl e)
    with r execute_Inl [of PING db e db'] show ?thesis by auto
  next
    case (Inr q)
    with r execute_Inr [of PING db q db'] show ?thesis by auto
  qed
qed

end

text \<open>A command that answers with an error changes nothing.\<close>

lemma apply_error: "redis_apply c db = (RepError m, db') \<Longrightarrow> db' = db"
  by (induction c db rule: redis_apply.induct)
    (auto simp: wrong_type_def split: option.splits redis_value.splits prod.splits if_splits)

subsection \<open>A server with this behaviour\<close>

text \<open>The exchanges to come fail or not as a list says; none left: all succeed.\<close>

record redis_db =
  rdb_keys :: redis_keys
  rdb_faults :: "bool list"

definition connection_error :: exn where
  "connection_error = mk_exn (BuiltinError ''ConnectionError'') ''connection refused''"

definition reference_server :: "redis_db redis_server" where
  "reference_server = \<lparr>rs_call = (\<lambda>c db. let (r, keys) = redis_apply c (rdb_keys db) in (r, db\<lparr>rdb_keys := keys\<rparr>)),
     rs_reach = (\<lambda>db. (if rdb_faults db \<noteq> [] \<and> hd (rdb_faults db) then Some connection_error else None,
       db\<lparr>rdb_faults := tl (rdb_faults db)\<rparr>)),
     rs_close = (\<lambda>db. (Inr (), db))\<rparr>"

interpretation reference: redis reference_server rdb_keys
  by unfold_locales (auto simp: reference_server_def Let_def split: prod.splits)

end
