(* ===== verification/Redis_Session.thy ===== *)
theory Redis_Session
  imports Session_Store Redis_Server
begin

text \<open>
  The Redis session store (\<open>redis_session_repository.py\<close>): a list of encoded messages per
  session, written by pipelines that run as one transaction. The server and the JSON encoding
  of a message (\<open>model_dump_json\<close>, and the parsing that \<open>model_validate_json\<close> does before it
  validates the fields) are parameters.
\<close>

subsection \<open>The operations\<close>

record 'db redis_session =
  rds_server :: "'db redis_server"
  rds_ttl_sec :: int
  rds_dump :: "chat_message \<Rightarrow> string"
  rds_parse :: "string \<Rightarrow> (string \<times> string) option"

definition session_key :: "string \<Rightarrow> string" where
  "session_key session_id = ''chat:session:'' @ session_id"

text \<open>\<open>ChatMessage.model_validate_json(item)\<close>, for each item; \<^const>\<open>None\<close> where one raises.\<close>

definition validate_json :: "(string \<Rightarrow> (string \<times> string) option) \<Rightarrow> string \<Rightarrow> chat_message option" where
  "validate_json parse item = (case parse item of
       None \<Rightarrow> None
     | Some (r, c) \<Rightarrow> (case ChatMessage r c of Inl _ \<Rightarrow> None | Inr m \<Rightarrow> Some m))"

fun load_items :: "(string \<Rightarrow> (string \<times> string) option) \<Rightarrow> string list \<Rightarrow> chat_message list option" where
  "load_items parse [] = Some []"
| "load_items parse (x # xs) = (case validate_json parse x of
       None \<Rightarrow> None
     | Some m \<Rightarrow> map_option (\<lambda>ms. m # ms) (load_items parse xs))"

definition redis_get_history :: "'db redis_session \<Rightarrow> string \<Rightarrow> 'db \<Rightarrow> (exn + chat_message list) \<times> 'db" where
  "redis_get_history rds session_id db =
     (let key = session_key session_id;
          failed = mk_exn SessionStoreError ''failed to load session history''
      in case redis_execute (rds_server rds) (LRANGE key 0 (- 1)) db of
          (Inr (RepItems values), db1) \<Rightarrow> (case load_items (rds_parse rds) values of
              None \<Rightarrow> (Inl failed, db1)
            | Some h \<Rightarrow> (Inr h, db1))
        | (_, db1) \<Rightarrow> (Inl failed, db1))"

definition append_commands :: "'db redis_session \<Rightarrow> string \<Rightarrow> chat_message list \<Rightarrow> int option \<Rightarrow> redis_command list" where
  "append_commands rds key messages max_messages =
     [RPUSH key (map (rds_dump rds) messages)] @
     (case max_messages of None \<Rightarrow> [] | Some n \<Rightarrow> if n \<le> 0 then [DEL key] else [LTRIM key (- n) (- 1)]) @
     [EXPIRE key (rds_ttl_sec rds)]"

definition redis_append_messages ::
  "'db redis_session \<Rightarrow> string \<Rightarrow> chat_message list \<Rightarrow> int option \<Rightarrow> 'db \<Rightarrow> (exn + unit) \<times> 'db" where
  "redis_append_messages rds session_id messages max_messages db =
     (if messages = [] then (Inr (), db)
      else case redis_pipeline (rds_server rds) (append_commands rds (session_key session_id) messages max_messages) db of
          (Inl _, db1) \<Rightarrow> (Inl (mk_exn SessionStoreError ''failed to append session history''), db1)
        | (Inr _, db1) \<Rightarrow> (Inr (), db1))"

definition set_commands :: "'db redis_session \<Rightarrow> string \<Rightarrow> chat_message list \<Rightarrow> redis_command list" where
  "set_commands rds key messages =
     DEL key # (if messages = [] then []
       else [RPUSH key (map (rds_dump rds) messages), EXPIRE key (rds_ttl_sec rds)])"

definition redis_set_history :: "'db redis_session \<Rightarrow> string \<Rightarrow> chat_message list \<Rightarrow> 'db \<Rightarrow> (exn + unit) \<times> 'db" where
  "redis_set_history rds session_id messages db =
     (case redis_pipeline (rds_server rds) (set_commands rds (session_key session_id) messages) db of
          (Inl _, db1) \<Rightarrow> (Inl (mk_exn SessionStoreError ''failed to set session history''), db1)
        | (Inr _, db1) \<Rightarrow> (Inr (), db1))"

definition RedisSessionRepository :: "'db redis_session \<Rightarrow> 'db session_port" where
  "RedisSessionRepository rds = \<lparr>repo_get_history = redis_get_history rds,
     repo_append_messages = redis_append_messages rds, repo_set_history = redis_set_history rds,
     repo_ping = redis_ping (rds_server rds), repo_close = rs_close (rds_server rds)\<rparr>"

lemma redis_port_sel [simp]:
  "repo_get_history (RedisSessionRepository rds) = redis_get_history rds"
  "repo_append_messages (RedisSessionRepository rds) = redis_append_messages rds"
  "repo_set_history (RedisSessionRepository rds) = redis_set_history rds"
  by (simp_all add: RedisSessionRepository_def)

subsection \<open>The history that a key holds\<close>

text \<open>The parsing of what was dumped; an item that does not parse stands for no message.\<close>

definition decode_item :: "(string \<Rightarrow> (string \<times> string) option) \<Rightarrow> string \<Rightarrow> chat_message" where
  "decode_item parse item = (case parse item of None \<Rightarrow> user_msg '''' | Some (r, c) \<Rightarrow> \<lparr>role = r, content = c\<rparr>)"

definition key_items :: "redis_keys \<Rightarrow> string \<Rightarrow> string list" where
  "key_items keys k = (case keys k of Some (RList xs, _) \<Rightarrow> xs | _ \<Rightarrow> [])"

definition redis_history :: "(string \<Rightarrow> (string \<times> string) option) \<Rightarrow> redis_keys \<Rightarrow> string \<Rightarrow> chat_message list" where
  "redis_history parse keys session_id = map (decode_item parse) (key_items keys (session_key session_id))"

definition list_key :: "redis_keys \<Rightarrow> string \<Rightarrow> bool" where
  "list_key keys k \<longleftrightarrow> (case keys k of Some (RInt _, _) \<Rightarrow> False | _ \<Rightarrow> True)"

lemma session_key_inj [simp]: "session_key x = session_key y \<longleftrightarrow> x = y"
  by (simp add: session_key_def)

lemma load_items_Some: "load_items parse xs = Some h \<Longrightarrow> h = map (decode_item parse) xs"
  by (induction xs arbitrary: h)
    (auto simp: validate_json_def decode_item_def ChatMessage_def split: option.splits if_splits)

text \<open>The commands touch only their key.\<close>

fun key_of :: "redis_command \<Rightarrow> string" where
  "key_of (RPUSH k _) = k" | "key_of (LTRIM k _ _) = k" | "key_of (DEL k) = k" | "key_of (EXPIRE k _) = k"
| "key_of (LRANGE k _ _) = k" | "key_of (INCR k) = k" | "key_of PING = ''''"

lemma apply_frame: "redis_apply c db = (r, db') \<Longrightarrow> x \<noteq> key_of c \<Longrightarrow> db' x = db x"
  by (induction c db rule: redis_apply.induct)
    (auto split: option.splits redis_value.splits prod.splits if_splits)

lemma run_calls_frame: "run_calls redis_apply cs db = (rs, db') \<Longrightarrow> x \<notin> key_of ` set cs \<Longrightarrow> db' x = db x"
proof (induction cs arbitrary: db rs)
  case (Cons c cs)
  then show ?case by (auto split: prod.splits dest!: apply_frame)
qed simp

lemma append_commands_keys: "key_of ` set (append_commands rds k ms n) = {k}"
  by (auto simp: append_commands_def split: option.splits)

text \<open>The run of an append: on a list key it succeeds, otherwise it raises and the key holds no list still.\<close>

lemma append_run_list:
  assumes "run_calls redis_apply (append_commands rds k ms (Some n)) keys = (rs, keys')"
    and "list_key keys k" "ms \<noteq> []" "0 < rds_ttl_sec rds"
  shows "key_items keys' k = keep_recent n (key_items keys k @ map (rds_dump rds) ms)" "list_key keys' k"
proof -
  define zs where "zs = key_items keys k @ map (rds_dump rds) ms"
  obtain r t where push: "redis_apply (RPUSH k (map (rds_dump rds) ms)) keys = (RepInt r, keys(k \<mapsto> (RList zs, t)))"
    using assms(2) by (auto simp: list_key_def key_items_def zs_def split: option.splits redis_value.splits)
  have "0 < length zs" using assms(3) by (simp add: zs_def)
  then have "\<not> length zs \<le> length zs - nat n" if "0 < n" using that by linarith
  then have "key_items keys' k = keep_recent n zs \<and> list_key keys' k"
    using assms(1,4) push
    by (auto simp: append_commands_def keep_recent_def redis_range_last key_items_def list_key_def
        simp del: redis_apply.simps(1) split: if_splits)
  then show "key_items keys' k = keep_recent n (key_items keys k @ map (rds_dump rds) ms)" "list_key keys' k"
    by (simp_all add: zs_def)
qed

lemma append_run_ok:
  assumes "run_calls redis_apply (append_commands rds k ms (Some n)) keys = (rs, keys')" "list_key keys k"
  shows "first_error rs = None"
proof -
  have push: "\<exists>r t. redis_apply (RPUSH k (map (rds_dump rds) ms)) keys =
      (RepInt r, keys(k \<mapsto> (RList (key_items keys k @ map (rds_dump rds) ms), t)))"
    using assms(2) by (auto simp: list_key_def key_items_def split: option.splits redis_value.splits)
  then show ?thesis using assms(1) by (auto simp: append_commands_def split: if_splits)
qed

lemma append_run_other:
  assumes "run_calls redis_apply (append_commands rds k ms (Some n)) keys = (rs, keys')" "\<not> list_key keys k"
  shows "first_error rs \<noteq> None" "key_items keys' k = key_items keys k"
  using assms
  by (auto simp: append_commands_def list_key_def key_items_def wrong_type_def
      split: if_splits option.splits redis_value.splits prod.splits)

subsection \<open>The contract\<close>

text \<open>What the store relies on: the server, and that parsing undoes dumping.\<close>

locale redis_sessions = redis "rds_server rds" keys for rds :: "'db redis_session" and keys :: "'db \<Rightarrow> redis_keys" +
  assumes parse_dump: "rds_parse rds (rds_dump rds m) = Some (role m, content m)"
begin

abbreviation hist :: "'db \<Rightarrow> string \<Rightarrow> chat_message list" where
  "hist db \<equiv> redis_history (rds_parse rds) (keys db)"

lemma decode_dump: "map (decode_item (rds_parse rds)) (map (rds_dump rds) ms) = ms"
  by (induction ms) (simp_all add: decode_item_def parse_dump)

lemma get_effect:
  assumes "redis_get_history rds sid db = (x, db')"
  shows "keys db' = keys db" "x = Inr h \<Longrightarrow> h = hist db sid"
    "x = Inl e \<Longrightarrow> e = mk_exn SessionStoreError ''failed to load session history''"
proof -
  obtain y db1 where run: "redis_execute (rds_server rds) (LRANGE (session_key sid) 0 (- 1)) db = (y, db1)" by fastforce
  have range: "redis_apply (LRANGE k 0 (- 1)) ks = (r, ks') \<Longrightarrow>
      ks' = ks \<and> (r = RepItems (key_items ks k) \<or> r = wrong_type)" for k ks r ks'
    by (auto simp: key_items_def redis_range_all split: option.splits redis_value.splits)
  have k: "keys db1 = keys db \<and> (\<forall>vs. y = Inr (RepItems vs) \<longrightarrow> vs = key_items (keys db) (session_key sid))"
  proof (cases y)
    case (Inl z)
    with run have "keys db1 = keys db \<or> (\<exists>m. redis_apply (LRANGE (session_key sid) 0 (- 1)) (keys db) = (RepError m, keys db1))"
      using execute_Inl by blast
    with Inl show ?thesis using range by blast
  next
    case (Inr r)
    with run have r: "redis_apply (LRANGE (session_key sid) 0 (- 1)) (keys db) = (r, keys db1)" "\<forall>m. r \<noteq> RepError m"
      using execute_Inr by blast+
    with range [OF r(1)] Inr show ?thesis by (auto simp: wrong_type_def)
  qed
  with assms run show "keys db' = keys db" "x = Inr h \<Longrightarrow> h = hist db sid"
    "x = Inl e \<Longrightarrow> e = mk_exn SessionStoreError ''failed to load session history''"
    by (auto simp: redis_get_history_def Let_def redis_history_def
        split: sum.splits redis_reply.splits option.splits dest!: load_items_Some)
qed

lemma append_cases:
  assumes "redis_append_messages rds sid ms limit db = (x, db')" "ms \<noteq> []"
  obtains (ok) rs where "x = Inr ()" "run_calls redis_apply (append_commands rds (session_key sid) ms limit) (keys db) = (rs, keys db')"
      "first_error rs = None"
  | (unreached) "x = Inl (mk_exn SessionStoreError ''failed to append session history'')" "keys db' = keys db"
  | (refused) rs where "x = Inl (mk_exn SessionStoreError ''failed to append session history'')"
      "run_calls redis_apply (append_commands rds (session_key sid) ms limit) (keys db) = (rs, keys db')" "first_error rs \<noteq> None"
proof -
  obtain y where y: "redis_pipeline (rds_server rds) (append_commands rds (session_key sid) ms limit) db = (y, db')"
      "x = (case y of Inl _ \<Rightarrow> Inl (mk_exn SessionStoreError ''failed to append session history'') | Inr _ \<Rightarrow> Inr ())"
    using assms by (auto simp: redis_append_messages_def split: prod.splits sum.splits)
  show thesis
  proof (cases y)
    case (Inl e)
    with y show thesis by (auto elim!: pipeline_Inl intro: unreached refused)
  next
    case (Inr rs)
    with y pipeline_Inr ok show thesis by auto
  qed
qed

lemma history_other:
  assumes "run_calls redis_apply (append_commands rds (session_key sid) ms limit) (keys db) = (rs, keys db')" "x \<noteq> sid"
  shows "keys db' (session_key x) = keys db (session_key x)"
  using run_calls_frame [OF assms(1)] assms(2) by (simp add: append_commands_keys)

lemma append_contract:
  assumes "redis_append_messages rds sid ms (Some n) db = (Inr (), db')"
    and "list_key (keys db) (session_key sid)" "0 < rds_ttl_sec rds"
  shows "hist db' = (hist db)(sid := appended n (hist db sid) ms)"
proof (cases "ms = []")
  case True
  with assms(1) show ?thesis by (auto simp: redis_append_messages_def appended_def)
next
  case False
  from assms(1) False show ?thesis
  proof (cases rule: append_cases)
    case (ok rs)
    note own = append_run_list [OF ok(2) assms(2) False assms(3)]
    have "hist db' sid = appended n (hist db sid) ms"
      using False by (simp add: redis_history_def own(1) appended_def keep_recent_def decode_dump [unfolded map_map]
          drop_map [symmetric])
    moreover have "hist db' x = hist db x" if "x \<noteq> sid" for x
      using history_other [OF ok(2) that] by (simp add: redis_history_def key_items_def)
    ultimately show ?thesis by (auto simp: fun_eq_iff)
  qed simp_all
qed

lemma append_failure:
  assumes "redis_append_messages rds sid ms (Some n) db = (Inl e, db')"
  shows "hist db' = hist db"
proof -
  have "ms \<noteq> []" using assms(1) by (auto simp: redis_append_messages_def)
  with assms(1) show ?thesis
  proof (cases rule: append_cases)
    case (refused rs)
    show ?thesis
    proof (cases "list_key (keys db) (session_key sid)")
      case True
      with refused append_run_ok [OF refused(2) True] show ?thesis by simp
    next
      case False
      have "hist db' x = hist db x" for x
        using append_run_other(2) [OF refused(2) False] history_other [OF refused(2), of x]
        by (cases "x = sid") (simp_all add: redis_history_def key_items_def)
      then show ?thesis by (simp add: fun_eq_iff)
    qed
  qed simp_all
qed

end

context redis_sessions
begin

lemma append_keeps_lists:
  assumes "redis_append_messages rds sid ms (Some n) db = (x, db')" "list_key (keys db) (session_key y)" "0 < rds_ttl_sec rds"
  shows "list_key (keys db') (session_key y)"
proof (cases "ms = []")
  case False
  from assms(1) False show ?thesis
  proof (cases rule: append_cases)
    case (ok rs)
    show ?thesis
    proof (cases "y = sid")
      case True
      with append_run_list(2) [OF ok(2) _ False assms(3)] assms(2) show ?thesis by simp
    qed (use history_other [OF ok(2)] assms(2) in \<open>simp add: list_key_def\<close>)
  next
    case (refused rs)
    show ?thesis
    proof (cases "y = sid")
      case True
      with append_run_ok [OF refused(2)] assms(2) refused(3) show ?thesis by simp
    qed (use history_other [OF refused(2)] assms(2) in \<open>simp add: list_key_def\<close>)
  qed (use assms(2) in simp)
qed (use assms in \<open>auto simp: redis_append_messages_def\<close>)

end

text \<open>The server's contract gives the contract of the session port.\<close>

sublocale redis_sessions \<subseteq> session_repository "RedisSessionRepository rds" hist
  "\<lambda>db sid. list_key (keys db) (session_key sid) \<and> 0 < rds_ttl_sec rds"
proof unfold_locales
  fix sid ms n db db'
  assume "repo_append_messages (RedisSessionRepository rds) sid ms (Some n) db = (Inr (), db')"
    "list_key (keys db) (session_key sid) \<and> 0 < rds_ttl_sec rds"
  then show "hist db' = (hist db)(sid := appended n (hist db sid) ms)" using append_contract by simp
next
  fix sid ms n db e db'
  assume "repo_append_messages (RedisSessionRepository rds) sid ms (Some n) db = (Inl e, db')"
  then have a: "redis_append_messages rds sid ms (Some n) db = (Inl e, db')" by simp
  then have "e = mk_exn SessionStoreError ''failed to append session history''"
    by (auto simp: redis_append_messages_def split: if_splits prod.splits sum.splits)
  then show "hist db' = hist db \<and> exn_cls e = SessionStoreError \<and> wf_exn e"
    using append_failure [OF a] by simp
next
  fix sid ms n db u db' x
  assume "repo_append_messages (RedisSessionRepository rds) sid ms (Some n) db = (u, db')"
    "list_key (keys db) (session_key x) \<and> 0 < rds_ttl_sec rds"
  then show "list_key (keys db') (session_key x) \<and> 0 < rds_ttl_sec rds" using append_keeps_lists by simp
next
  fix sid db h db'
  assume "repo_get_history (RedisSessionRepository rds) sid db = (Inr h, db')"
  then show "h = hist db sid" using get_effect(2) [of sid db "Inr h" db' h] by simp
next
  fix sid db r db'
  assume "repo_get_history (RedisSessionRepository rds) sid db = (r, db')"
  then have "keys db' = keys db" using get_effect(1) by simp
  then show "hist db' = hist db \<and> (\<lambda>sid. list_key (keys db') (session_key sid) \<and> 0 < rds_ttl_sec rds) =
      (\<lambda>sid. list_key (keys db) (session_key sid) \<and> 0 < rds_ttl_sec rds)" by simp
next
  fix sid db e db'
  assume "repo_get_history (RedisSessionRepository rds) sid db = (Inl e, db')"
  then show "exn_cls e = SessionStoreError \<and> wf_exn e" using get_effect(3) [of sid db "Inl e" db' e] by simp
qed

context redis_sessions
begin

lemma refines_memory:
  assumes "0 < rds_ttl_sec rds" "keys db = Map.empty" "run_ops (RedisSessionRepository rds) ops db = (rs, db')"
  shows "map snd (completed ops rs) = fst (run_ops InMemorySessionRepository (map fst (completed ops rs)) Map.empty)"
proof -
  have "hist db = mem_bucket Map.empty"
    using assms(2) by (simp add: redis_history_def key_items_def mem_bucket_def fun_eq_iff)
  moreover have "\<forall>sid. list_key (keys db) (session_key sid) \<and> 0 < rds_ttl_sec rds"
    using assms(1,2) by (simp add: list_key_def)
  ultimately show ?thesis using run_ops_refine [OF assms(3), of Map.empty] by force
qed

end

subsection \<open>A concrete store\<close>

text \<open>An encoding with the law: the role behind its length in unary, then the content.\<close>

definition unary_dump :: "chat_message \<Rightarrow> string" where
  "unary_dump m = replicate (length (role m)) CHR ''x'' @ CHR '':'' # role m @ content m"

definition unary_parse :: "string \<Rightarrow> (string \<times> string) option" where
  "unary_parse s =
     (let n = length (takeWhile (\<lambda>c. c = CHR ''x'') s); rest = drop (Suc n) s in Some (take n rest, drop n rest))"

lemma unary_roundtrip: "unary_parse (unary_dump m) = Some (role m, content m)"
proof -
  have "takeWhile (\<lambda>c. c = CHR ''x'') (replicate n CHR ''x'' @ CHR '':'' # rest) = replicate n CHR ''x''" for n rest
    by (induction n) simp_all
  then show ?thesis by (simp add: unary_parse_def unary_dump_def Let_def)
qed

definition reference_store :: "redis_db redis_session" where
  "reference_store = \<lparr>rds_server = reference_server, rds_ttl_sec = 60, rds_dump = unary_dump, rds_parse = unary_parse\<rparr>"

interpretation refstore: redis_sessions reference_store rdb_keys
proof -
  have "redis (rds_server reference_store) rdb_keys"
    using reference.redis_axioms by (simp add: reference_store_def)
  then show "redis_sessions reference_store rdb_keys"
    by (intro redis_sessions.intro redis_sessions_axioms.intro) (simp_all add: reference_store_def unary_roundtrip)
qed

subsection \<open>Properties\<close>

text \<open>
  The Redis store implements the abstract store. Over any server that runs the commands as
  documented, from an empty database and with a positive time to live, whatever list of reads
  and appends is run and whichever exchanges fail, the operations that complete give exactly
  the results that the in-memory store gives to those operations alone.
\<close>

theorem redis_refines_memory:
  assumes "redis_sessions rds keys" "0 < rds_ttl_sec rds" "keys db = Map.empty"
    and "run_ops (RedisSessionRepository rds) ops db = (rs, db')"
  shows "map snd (completed ops rs) = fst (run_ops InMemorySessionRepository (map fst (completed ops rs)) Map.empty)"
  by (rule redis_sessions.refines_memory [OF assms])

theorem redis_refines_memory_witness:
  "fst (run_ops InMemorySessionRepository [Append_Op ''s'' [user_msg ''a''] 2, Get_Op ''s''] Map.empty) =
   [Appended, Got [user_msg ''a'']]"
proof -
  let ?ops = "[Append_Op ''s'' [user_msg ''a''] 2, Append_Op ''s'' [user_msg ''b''] 2, Get_Op ''s'']"
    and ?db = "\<lparr>rdb_keys = Map.empty, rdb_faults = [False, True]\<rparr>"
  have run: "fst (run_ops (RedisSessionRepository reference_store) ?ops ?db) = [Appended, Failed, Got [user_msg ''a'']]"
    by (simp add: reference_store_def redis_append_messages_def redis_get_history_def redis_pipeline_def redis_execute_def
        append_commands_def reference_server_def redis_range_def unary_roundtrip validate_json_def msg_valid)
  show ?thesis
    using redis_refines_memory [OF refstore.redis_sessions_axioms _ _ prod.collapse [symmetric], of ?db ?ops]
    unfolding run by (simp add: completed_def reference_store_def)
qed

end
