(* ===== verification/Redis_Limiter.thy ===== *)
theory Redis_Limiter
  imports Auth Redis_Session
begin

text \<open>
  The Redis rate limiter (\<open>redis_rate_limiter.py\<close>): a counter per tenant, route and window,
  advanced by a script that the server runs as one step. The bootstrap gives it the server that
  the Redis session store uses, so the last section is about both.
\<close>

subsection \<open>The script and the operation\<close>

text \<open>
  The Lua script of \<open>_CONSUME_SCRIPT\<close>: \<open>redis.call\<close> raises an error reply, which ends the
  script where it stands.
\<close>

definition consume_script :: "(redis_command \<Rightarrow> 'db \<Rightarrow> redis_reply \<times> 'db) \<Rightarrow> string \<Rightarrow> int \<Rightarrow> 'db \<Rightarrow> redis_reply \<times> 'db" where
  "consume_script call key window_sec db =
     (let (reply, db1) = call (INCR key) db
      in case reply of
          RepInt n \<Rightarrow> if n = 1
            then (case call (EXPIRE key window_sec) db1 of
                (RepError m, db2) \<Rightarrow> (RepError m, db2) | (_, db2) \<Rightarrow> (RepInt n, db2))
            else (RepInt n, db1)
        | r \<Rightarrow> (r, db1))"

definition redis_script ::
  "'db redis_server \<Rightarrow> ((redis_command \<Rightarrow> 'db \<Rightarrow> redis_reply \<times> 'db) \<Rightarrow> 'db \<Rightarrow> redis_reply \<times> 'db) \<Rightarrow> 'db \<Rightarrow> (exn + redis_reply) \<times> 'db" where
  "redis_script srv script db = (case rs_reach srv db of
       (Some e, db1) \<Rightarrow> (Inl e, db1)
     | (None, db1) \<Rightarrow> (case script (rs_call srv) db1 of
           (RepError m, db2) \<Rightarrow> (Inl (response_error m), db2)
         | (r, db2) \<Rightarrow> (Inr r, db2)))"

definition limiter_key :: "string \<Rightarrow> string \<Rightarrow> string \<Rightarrow> int \<Rightarrow> string" where
  "limiter_key key_prefix tenant_id route start = key_prefix @ '':'' @ rate_key tenant_id route start"

definition redis_consume :: "'db redis_server \<Rightarrow> string \<Rightarrow> 'db consume_fun" where
  "redis_consume srv key_prefix tenant_id route limit window_sec now db =
     (if window_sec = 0
      then (Inl (mk_exn (BuiltinError ''ZeroDivisionError'') ''integer modulo by zero''), db)
      else let start = window_start now window_sec;
               reset_at = start + window_sec;
               key = limiter_key key_prefix tenant_id route start
        in case redis_script srv (\<lambda>call. consume_script call key window_sec) db of
            (Inl e, db1) \<Rightarrow> (Inl e, db1)
          | (Inr (RepInt count), db1) \<Rightarrow> (Inr (rate_decision count limit reset_at), db1)
          | (Inr _, db1) \<Rightarrow> (Inl (mk_exn (BuiltinError ''TypeError'') ''int''), db1))"

definition RedisRateLimiter :: "'db redis_server \<Rightarrow> string \<Rightarrow> 'db limiter_port" where
  "RedisRateLimiter srv key_prefix = \<lparr>lim_consume = redis_consume srv key_prefix,
     lim_ping = redis_ping srv, lim_close = rs_close srv\<rparr>"

subsection \<open>The contract\<close>

definition counter_of :: "redis_keys \<Rightarrow> string \<Rightarrow> int" where
  "counter_of keys k = (case keys k of Some (RInt n, _) \<Rightarrow> n | _ \<Rightarrow> 0)"

text \<open>The script on the keys: refused without effect, or the counter is one higher.\<close>

lemma script_apply:
  assumes "consume_script redis_apply k win keys = (r, keys')" "0 < win"
  shows "(\<exists>m. r = RepError m \<and> keys' = keys) \<or>
    (r = RepInt (counter_of keys k + 1) \<and>
     keys' = keys(k \<mapsto> (RInt (counter_of keys k + 1),
       if counter_of keys k = 0 then Some win else (case keys k of Some (_, t) \<Rightarrow> t | None \<Rightarrow> None))))"
  using assms
  by (auto simp: consume_script_def counter_of_def wrong_type_def
      split: option.splits redis_value.splits prod.splits if_splits)

context redis
begin

lemma script_keys:
  assumes "consume_script (rs_call srv) k win db = (r, db')"
  shows "consume_script redis_apply k win (keys db) = (r, keys db')"
proof -
  obtain q db1 where i: "rs_call srv (INCR k) db = (q, db1)" by fastforce
  obtain p db2 where e: "rs_call srv (EXPIRE k win) db1 = (p, db2)" by fastforce
  from assms call [OF i] call [OF e] i e show ?thesis
    unfolding consume_script_def by (auto simp del: redis_apply.simps split: redis_reply.splits if_splits)
qed

lemma consume_cases:
  assumes "redis_consume srv pre t r limit win now db = (x, db')" "0 < win"
  obtains (ok) "x = Inr (rate_decision (counter_of (keys db) (limiter_key pre t r (window_start now win)) + 1) limit
        (window_start now win + win))"
      "keys db' = (keys db)(limiter_key pre t r (window_start now win) \<mapsto>
        (RInt (counter_of (keys db) (limiter_key pre t r (window_start now win)) + 1),
         if counter_of (keys db) (limiter_key pre t r (window_start now win)) = 0 then Some win
         else (case keys db (limiter_key pre t r (window_start now win)) of Some (_, t) \<Rightarrow> t | None \<Rightarrow> None)))"
  | (failed) e where "x = Inl e" "keys db' = keys db"
proof -
  let ?k = "limiter_key pre t r (window_start now win)"
  obtain u db1 where u: "rs_reach srv db = (u, db1)" by fastforce
  obtain q db2 where q: "consume_script (rs_call srv) ?k win db1 = (q, db2)" by fastforce
  note s = script_apply [OF script_keys [OF q] assms(2)]
  show thesis
  proof (cases u)
    case (Some e)
    with assms u reach [OF u] show thesis
      by (intro failed) (auto simp: redis_consume_def redis_script_def)
  next
    case None
    then show thesis using assms u q s reach [OF u]
      by (auto simp: redis_consume_def redis_script_def Let_def intro: ok failed)
  qed
qed

end

sublocale redis \<subseteq> limiter: rate_limiter "redis_consume srv key_prefix"
  "\<lambda>db k. counter_of (keys db) (key_prefix @ '':'' @ k)" "\<lambda>win. 0 < win" for key_prefix
proof
  fix t r l and win :: int and now db d db'
  assume "0 < win" "redis_consume srv key_prefix t r l win now db = (Inr d, db')"
  from this(2,1) show "(\<lambda>k. counter_of (keys db') (key_prefix @ '':'' @ k)) =
      (\<lambda>k. counter_of (keys db) (key_prefix @ '':'' @ k))
        (rate_key t r (window_start now win) := counter_of (keys db) (key_prefix @ '':'' @ rate_key t r (window_start now win)) + 1) \<and>
      d = rate_decision (counter_of (keys db') (key_prefix @ '':'' @ rate_key t r (window_start now win))) l
        (window_start now win + win)"
    by (cases rule: consume_cases) (auto simp: limiter_key_def counter_of_def fun_eq_iff)
next
  fix t r l and win :: int and now db e db'
  assume "0 < win" "redis_consume srv key_prefix t r l win now db = (Inl e, db')"
  from this(2,1) show "(\<lambda>k. counter_of (keys db') (key_prefix @ '':'' @ k)) = (\<lambda>k. counter_of (keys db) (key_prefix @ '':'' @ k))"
    by (cases rule: consume_cases) auto
qed

subsection \<open>Keys that never expire\<close>

text \<open>
  What the transaction of the store and the script of the limiter are for: no command sequence
  of the program leaves a key without a time to live.
\<close>

definition all_expire :: "redis_keys \<Rightarrow> bool" where
  "all_expire keys \<longleftrightarrow> (\<forall>v. (v, None) \<notin> ran keys)"

lemma all_expire_iff: "all_expire keys \<longleftrightarrow> (\<forall>k v. keys k \<noteq> Some (v, None))"
  by (auto simp: all_expire_def ran_def)

lemma all_expire_upd:
  assumes "all_expire keys" "\<And>x. x \<noteq> k \<Longrightarrow> keys' x = keys x" "\<And>v. keys' k \<noteq> Some (v, None)"
  shows "all_expire keys'"
  using assms by (metis all_expire_iff)

text \<open>A sequence on one key that ends in \<open>EXPIRE\<close>.\<close>

lemma expire_last: "redis_apply (EXPIRE k s) keys = (r, keys') \<Longrightarrow> keys' k \<noteq> Some (v, None)"
  by (auto split: option.splits if_splits)

lemma run_calls_append: "run_calls f (cs @ ds) db =
  (let (rs, db1) = run_calls f cs db; (qs, db2) = run_calls f ds db1 in (rs @ qs, db2))"
  by (induction cs arbitrary: db) (auto simp: Let_def split: prod.splits)

lemma append_expires:
  assumes "run_calls redis_apply (append_commands rds k ms limit) keys = (rs, keys')" "all_expire keys"
  shows "all_expire keys'"
proof (rule all_expire_upd [OF assms(2)])
  show "keys' x = keys x" if "x \<noteq> k" for x
    using run_calls_frame [OF assms(1)] that by (simp add: append_commands_keys)
  obtain cs where "append_commands rds k ms limit = cs @ [EXPIRE k (rds_ttl_sec rds)]"
    by (simp add: append_commands_def)
  with assms(1) obtain keys1 r where "redis_apply (EXPIRE k (rds_ttl_sec rds)) keys1 = (r, keys')"
    by (auto simp: run_calls_append Let_def simp del: redis_apply.simps split: prod.splits)
  then show "keys' k \<noteq> Some (v, None)" for v by (rule expire_last)
qed

lemma set_expires:
  assumes "run_calls redis_apply (set_commands rds k ms) keys = (rs, keys')" "all_expire keys"
  shows "all_expire keys'"
proof (rule all_expire_upd [OF assms(2)])
  show "keys' x = keys x" if "x \<noteq> k" for x
    using run_calls_frame [OF assms(1)] that by (auto simp: set_commands_def split: if_splits)
  show "keys' k \<noteq> Some (v, None)" for v
    using assms(1) by (auto simp: set_commands_def split: if_splits)
qed

lemma script_expires:
  assumes "consume_script redis_apply k win keys = (r, keys')" "all_expire keys"
  shows "all_expire keys'"
proof -
  have "keys' x = keys x" if "x \<noteq> k" for x
    using assms(1) that unfolding consume_script_def
    by (auto split: option.splits redis_value.splits prod.splits if_splits redis_reply.splits)
  moreover have "keys' k \<noteq> Some (v, None)" for v
  proof
    assume "keys' k = Some (v, None)"
    then show False
      using assms unfolding consume_script_def all_expire_iff
      by (auto simp: wrong_type_def split: option.splits redis_value.splits prod.splits if_splits redis_reply.splits)
  qed
  ultimately show ?thesis using all_expire_upd assms(2) by blast
qed

text \<open>
  The states of the shared server: from an empty one, by the operations of the store and of the
  limiter, whichever exchanges fail, and by keys expiring as time passes.
\<close>

inductive redis_reach :: "'db redis_session \<Rightarrow> string \<Rightarrow> ('db \<Rightarrow> redis_keys) \<Rightarrow> 'db \<Rightarrow> bool"
  for rds key_prefix keys where
  start: "keys db = Map.empty \<Longrightarrow> redis_reach rds key_prefix keys db"
| get: "redis_reach rds key_prefix keys db \<Longrightarrow> redis_get_history rds sid db = (x, db') \<Longrightarrow> redis_reach rds key_prefix keys db'"
| append: "redis_reach rds key_prefix keys db \<Longrightarrow> redis_append_messages rds sid ms limit db = (u, db') \<Longrightarrow>
    redis_reach rds key_prefix keys db'"
| set: "redis_reach rds key_prefix keys db \<Longrightarrow> redis_set_history rds sid ms db = (u, db') \<Longrightarrow>
    redis_reach rds key_prefix keys db'"
| consume: "redis_reach rds key_prefix keys db \<Longrightarrow>
    redis_consume (rds_server rds) key_prefix t r l win now db = (d, db') \<Longrightarrow> redis_reach rds key_prefix keys db'"
| ping: "redis_reach rds key_prefix keys db \<Longrightarrow> redis_ping (rds_server rds) db = (b, db') \<Longrightarrow> redis_reach rds key_prefix keys db'"
| tick: "redis_reach rds key_prefix keys db \<Longrightarrow>
    (\<And>k. keys db' k = None \<or> (\<exists>v s s'. keys db k = Some (v, Some s) \<and> keys db' k = Some (v, Some s')) \<or> keys db' k = keys db k) \<Longrightarrow>
    redis_reach rds key_prefix keys db'"

context redis_sessions
begin

lemma set_cases:
  assumes "redis_set_history rds sid ms db = (x, db')"
  shows "keys db' = keys db \<or> (\<exists>rs. run_calls redis_apply (set_commands rds (session_key sid) ms) (keys db) = (rs, keys db'))"
proof -
  obtain y where y: "redis_pipeline (rds_server rds) (set_commands rds (session_key sid) ms) db = (y, db')"
    using assms by (auto simp: redis_set_history_def split: prod.splits sum.splits)
  show ?thesis
  proof (cases y)
    case (Inl e)
    from y [unfolded Inl] show ?thesis by (cases rule: pipeline_Inl) auto
  next
    case (Inr rs)
    with y pipeline_Inr show ?thesis by blast
  qed
qed

lemma consume_script_cases:
  assumes "redis_consume (rds_server rds) pre t r l win now db = (x, db')"
  shows "keys db' = keys db \<or> (\<exists>q k. consume_script redis_apply k win (keys db) = (q, keys db'))"
proof -
  let ?k = "limiter_key pre t r (window_start now win)"
  obtain u db1 where u: "rs_reach (rds_server rds) db = (u, db1)" by fastforce
  obtain q db2 where q: "consume_script (rs_call (rds_server rds)) ?k win db1 = (q, db2)" by fastforce
  have "db' = db \<or> db' = db1 \<or> db' = db2"
    using assms u q by (auto simp: redis_consume_def redis_script_def Let_def split: if_splits option.splits redis_reply.splits)
  then show ?thesis using reach [OF u] script_keys [OF q] by auto
qed

lemma reach_expires: "redis_reach rds key_prefix keys db \<Longrightarrow> all_expire (keys db)"
proof (induction rule: redis_reach.induct)
  case (start db)
  then show ?case by (simp add: all_expire_def)
next
  case (get db sid x db')
  then show ?case using get_effect(1) by simp
next
  case (append db sid ms limit u db')
  show ?case
  proof (cases "ms = []")
    case False
    from append.hyps(2) False show ?thesis
      by (cases rule: append_cases) (auto intro: append_expires append.IH)
  qed (use append in \<open>auto simp: redis_append_messages_def\<close>)
next
  case (set db sid ms u db')
  from set_cases [OF set.hyps(2)] set.IH show ?case by (auto intro: set_expires)
next
  case (consume db t r l win now d db')
  from consume_script_cases [OF consume.hyps(2)] consume.IH show ?case by (auto intro: script_expires)
next
  case (ping db b db')
  then show ?case using ping_keys by simp
next
  case (tick db db')
  show ?case unfolding all_expire_iff
  proof (intro allI notI)
    fix k v
    assume k: "keys db' k = Some (v, None)"
    with tick.hyps(2) [of k] have "keys db k = Some (v, None)" by auto
    with tick.IH show False unfolding all_expire_iff by blast
  qed
qed

end

context redis
begin

lemma limiter_quota:
  assumes "RATE_LIMIT_ENABLED settings" "0 < RATE_LIMIT_WINDOW_SEC settings" "strict_limiter (redis_consume srv key_prefix) settings"
  shows "int (count_results (\<lambda>rq now r. let_in t r \<and> window_start now (RATE_LIMIT_WINDOW_SEC settings) = start) rqs
      (auth_run (RedisRateLimiter srv key_prefix) settings route rqs g))
    \<le> max 0 (tenant_limit settings t - counter_of (keys (gate_limiter g)) (limiter_key key_prefix t route start))"
  using limiter.tenant_quota [OF _ assms(1,2) assms(3), of "RedisRateLimiter srv key_prefix"]
  by (simp add: RedisRateLimiter_def limiter_key_def)

end

subsection \<open>Properties\<close>

text \<open>
  Nothing the program writes to Redis stays for ever. In every state of the shared server
  that the store and the limiter reach, whichever exchanges fail and however keys expire,
  every key (a session's list or a window's counter) has a time to live.
\<close>

theorem redis_keys_expire:
  assumes "redis_sessions rds keys" "redis_reach rds key_prefix keys db" "keys db k = Some (v, t)"
  shows "t \<noteq> None"
  using redis_sessions.reach_expires [OF assms(1,2)] assms(3) unfolding all_expire_iff by (cases t) simp_all

text \<open>A turn of a session and a call of the limiter, one after the other.\<close>

definition demo_redis :: redis_db where
  "demo_redis = snd (redis_consume reference_server ''rate-limit'' ''acme'' ''chat_sync'' 2 60 61
     (snd (redis_append_messages reference_store ''s'' [user_msg ''a''] (Some 2) \<lparr>rdb_keys = Map.empty, rdb_faults = []\<rparr>)))"

lemma demo_redis_reach: "redis_reach reference_store ''rate-limit'' rdb_keys demo_redis"
proof -
  have "rds_server reference_store = reference_server" by (simp add: reference_store_def)
  then show ?thesis unfolding demo_redis_def
    by (metis redis_reach.consume [OF redis_reach.append [OF redis_reach.start surjective_pairing] surjective_pairing]
        redis_db.select_convs(1))
qed

lemma demo_redis_keys:
  "rdb_keys demo_redis (session_key ''s'') = Some (RList [unary_dump (user_msg ''a'')], Some 60)"
  "rdb_keys demo_redis (limiter_key ''rate-limit'' ''acme'' ''chat_sync'' 60) = Some (RInt 1, Some 60)"
  by (simp_all add: demo_redis_def redis_consume_def redis_script_def consume_script_def reference_server_def
      redis_append_messages_def redis_pipeline_def append_commands_def reference_store_def redis_range_def
      window_start_def session_key_def limiter_key_def Let_def)

theorem redis_keys_expire_witness: "(Some 60 :: int option) \<noteq> None \<and>
  rdb_keys demo_redis (session_key ''s'') = Some (RList [unary_dump (user_msg ''a'')], Some 60)"
  using redis_keys_expire [OF refstore.redis_sessions_axioms demo_redis_reach demo_redis_keys(1)] demo_redis_keys(1) by blast

text \<open>
  The quota over Redis. With a server that runs commands and scripts as documented, a
  positive window and the fail-closed setting, a tenant is let in during one window at most as
  often as its limit leaves over the counter's value, in any run of requests and whichever
  exchanges fail.
\<close>

theorem redis_tenant_quota:
  assumes "redis srv keys" "RATE_LIMIT_ENABLED settings" "0 < RATE_LIMIT_WINDOW_SEC settings" "\<not> RATE_LIMIT_FAIL_OPEN settings"
  shows "int (count_results (\<lambda>rq now r. let_in t r \<and> window_start now (RATE_LIMIT_WINDOW_SEC settings) = start) rqs
      (auth_run (RedisRateLimiter srv key_prefix) settings route rqs g))
    \<le> max 0 (tenant_limit settings t - counter_of (keys (gate_limiter g)) (limiter_key key_prefix t route start))"
  using redis.limiter_quota [OF assms(1) assms(2,3)] assms(4) by (simp add: strict_limiter_def)

definition closed_settings :: settings where
  "closed_settings = demo_settings\<lparr>RATE_LIMIT_FAIL_OPEN := False\<rparr>"

lemma closed_settings_sel [simp]:
  "RATE_LIMIT_ENABLED closed_settings" "RATE_LIMIT_WINDOW_SEC closed_settings = 60" "\<not> RATE_LIMIT_FAIL_OPEN closed_settings"
  "tenant_limit closed_settings ''acme'' = tenant_limit demo_settings ''acme''"
proof -
  have "RATE_LIMIT_TENANT_OVERRIDES closed_settings = RATE_LIMIT_TENANT_OVERRIDES demo_settings"
    "RATE_LIMIT_REQUESTS_PER_WINDOW closed_settings = RATE_LIMIT_REQUESTS_PER_WINDOW demo_settings"
    by (simp_all add: closed_settings_def)
  then show "tenant_limit closed_settings ''acme'' = tenant_limit demo_settings ''acme''"
    by (simp only: tenant_limit_def)
qed (simp_all add: closed_settings_def demo_settings_def default_settings_def)

definition demo_redis_gate :: "(redis_db, unit) gate" where
  "demo_redis_gate = \<lparr>gate_limiter = \<lparr>rdb_keys = Map.empty, rdb_faults = [False, True, False]\<rparr>,
     gate_io = \<lparr>clock = 0, draws = [], lags = [], net = (), metrics = [], logs = []\<rparr>\<rparr>"

theorem redis_tenant_quota_witness:
  "int (count_results (\<lambda>rq now r. let_in ''acme'' r \<and> window_start now 60 = 60)
      (map (\<lambda>now. (demo_request ''Bearer k1'', now)) [61, 62, 63, 64])
      (auth_run (RedisRateLimiter reference_server ''rate-limit'') closed_settings ''chat_sync''
        (map (\<lambda>now. (demo_request ''Bearer k1'', now)) [61, 62, 63, 64]) demo_redis_gate)) \<le> 2"
  using redis_tenant_quota [OF reference.redis_axioms, of closed_settings "''acme''" 60
      "map (\<lambda>now. (demo_request ''Bearer k1'', now)) [61, 62, 63, 64]" "''rate-limit''" "''chat_sync''" demo_redis_gate]
  by (simp add: demo_redis_gate_def counter_of_def)

end
