(* ===== verification/Running_App.thy ===== *)
theory Running_App
  imports Application Bootstrap Postgres_Store Redis_Limiter
begin

text \<open>
  The application as it runs: the adapters that the bootstrap selects, each on its part of one
  state that holds all the stores, and the lifespan of \<open>create_app\<close> (\<open>main.py\<close>). The client
  library of Redis is a parameter.
\<close>

subsection \<open>An adapter on its part of the state\<close>

definition focus :: "('t \<Rightarrow> 's) \<Rightarrow> ('s \<Rightarrow> 't \<Rightarrow> 't) \<Rightarrow> ('s \<Rightarrow> 'a \<times> 's) \<Rightarrow> 't \<Rightarrow> 'a \<times> 't" where
  "focus get put f t = (case f (get t) of (x, s) \<Rightarrow> (x, put s t))"

definition session_port_on :: "('t \<Rightarrow> 's) \<Rightarrow> ('s \<Rightarrow> 't \<Rightarrow> 't) \<Rightarrow> 's session_port \<Rightarrow> 't session_port" where
  "session_port_on get put port = \<lparr>
     repo_get_history = (\<lambda>sid. focus get put (repo_get_history port sid)),
     repo_append_messages = (\<lambda>sid ms limit. focus get put (repo_append_messages port sid ms limit)),
     repo_set_history = (\<lambda>sid ms. focus get put (repo_set_history port sid ms)),
     repo_ping = focus get put (repo_ping port),
     repo_close = focus get put (repo_close port)\<rparr>"

definition limiter_port_on :: "('t \<Rightarrow> 'l) \<Rightarrow> ('l \<Rightarrow> 't \<Rightarrow> 't) \<Rightarrow> 'l limiter_port \<Rightarrow> 't limiter_port" where
  "limiter_port_on get put port = \<lparr>
     lim_consume = (\<lambda>t r limit win now. focus get put (lim_consume port t r limit win now)),
     lim_ping = focus get put (lim_ping port),
     lim_close = focus get put (lim_close port)\<rparr>"

lemma focus_eq: "focus get put f t = (x, t') \<longleftrightarrow> (\<exists>s. f (get t) = (x, s) \<and> t' = put s t)"
  by (auto simp: focus_def split: prod.splits)

lemma ports_on_sel [simp]:
  "repo_get_history (session_port_on get put port) sid = focus get put (repo_get_history port sid)"
  "repo_append_messages (session_port_on get put port) sid ms limit = focus get put (repo_append_messages port sid ms limit)"
  "repo_close (session_port_on get put port) = focus get put (repo_close port)"
  "lim_consume (limiter_port_on get put lport) t r n win now = focus get put (lim_consume lport t r n win now)"
  by (simp_all add: session_port_on_def limiter_port_on_def)

text \<open>The contracts carry over to the whole state.\<close>

locale store_part = session_repository port history ready
  for port :: "'s session_port" and history ready +
  fixes get :: "'t \<Rightarrow> 's" and put :: "'s \<Rightarrow> 't \<Rightarrow> 't"
  assumes get_put [simp]: "get (put s t) = s"

sublocale store_part \<subseteq> whole: session_repository "session_port_on get put port"
  "\<lambda>t. history (get t)" "\<lambda>t. ready (get t)"
  by unfold_locales
    (auto simp: focus_eq dest: get_Inr get_keeps get_Inl append_Inr append_Inl append_ready)

locale limiter_part = rate_limiter consume used ok_window
  for consume :: "'l consume_fun" and used ok_window +
  fixes get :: "'t \<Rightarrow> 'l" and put :: "'l \<Rightarrow> 't \<Rightarrow> 't"
  assumes get_put [simp]: "get (put s t) = s"

sublocale limiter_part \<subseteq> whole: rate_limiter "\<lambda>t r n win now. focus get put (consume t r n win now)"
  "\<lambda>t. used (get t)" ok_window
  by unfold_locales (auto simp: focus_eq dest: consume_Inr consume_Inl)

context store_part
begin

lemma on_whole_state: "session_repository (session_port_on get put port) (\<lambda>t. history (get t)) (\<lambda>t. ready (get t))"
  by (rule whole.session_repository_axioms)

end

context limiter_part
begin

lemma on_whole_state: "rate_limiter (\<lambda>t r n win now. focus get put (consume t r n win now)) (\<lambda>t. used (get t)) ok_window"
  by (rule whole.rate_limiter_axioms)

end

context redis
begin

lemma limiter_contract: "rate_limiter (redis_consume srv key_prefix)
  (\<lambda>db k. counter_of (keys db) (key_prefix @ '':'' @ k)) (\<lambda>win. 0 < win)"
  by (rule limiter.rate_limiter_axioms)

end

context redis_sessions
begin

lemma contract: "session_repository (RedisSessionRepository rds) hist
  (\<lambda>db sid. list_key (keys db) (session_key sid) \<and> 0 < rds_ttl_sec rds)"
  by (rule session_repository_axioms)

end

subsection \<open>The stores of a process\<close>

text \<open>
  The session store in each of its three places, and the counters in each of their two. The
  Redis sessions and the Redis counters are in one server, under keys with different prefixes,
  so each has its own view of it.
\<close>

record 'db stores =
  st_memory :: mem_store
  st_redis :: 'db
  st_postgres :: pg

record 'db limits =
  li_memory :: counters
  li_redis :: 'db

interpretation memory_store: store_part InMemorySessionRepository mem_bucket "\<lambda>_ _. True" st_memory
  "\<lambda>s t. t\<lparr>st_memory := s\<rparr>"
  by unfold_locales simp

interpretation postgres_store: store_part "PostgresSessionRepository cfg" pg_history "pg_ready cfg" st_postgres
  "\<lambda>s t. t\<lparr>st_postgres := s\<rparr>" for cfg
  by unfold_locales simp

interpretation memory_limits: limiter_part mem_consume mem_used "\<lambda>win. win \<noteq> 0" li_memory "\<lambda>s t. t\<lparr>li_memory := s\<rparr>"
  by unfold_locales simp

text \<open>The Redis client library: \<open>redis.from_url\<close>, and the JSON text of a message and back.\<close>

record 'db redis_library =
  rl_from_url :: "string \<Rightarrow> 'db redis_server"
  rl_dump :: "chat_message \<Rightarrow> string"
  rl_parse :: "string \<Rightarrow> (string \<times> string) option"

definition redis_store :: "'db redis_library \<Rightarrow> string \<Rightarrow> int \<Rightarrow> 'db redis_session" where
  "redis_store lib url ttl = \<lparr>rds_server = rl_from_url lib url, rds_ttl_sec = ttl, rds_dump = rl_dump lib, rds_parse = rl_parse lib\<rparr>"

definition repo_of :: "'db redis_library \<Rightarrow> session_backend \<Rightarrow> 'db stores session_port" where
  "repo_of lib backend = (case backend of
       MemorySessions \<Rightarrow> session_port_on st_memory (\<lambda>s t. t\<lparr>st_memory := s\<rparr>) InMemorySessionRepository
     | RedisSessions url ttl \<Rightarrow>
         session_port_on st_redis (\<lambda>s t. t\<lparr>st_redis := s\<rparr>) (RedisSessionRepository (redis_store lib url ttl))
     | PostgresSessions dsn min_size max_size expiration turns \<Rightarrow>
         session_port_on st_postgres (\<lambda>s t. t\<lparr>st_postgres := s\<rparr>)
           (PostgresSessionRepository \<lparr>pgc_expiration_sec = expiration, pgc_max_history_turns = turns\<rparr>))"

definition limiter_of :: "'db redis_library \<Rightarrow> limiter_backend \<Rightarrow> 'db limits limiter_port" where
  "limiter_of lib backend = (case backend of
       MemoryLimiter \<Rightarrow> limiter_port_on li_memory (\<lambda>s t. t\<lparr>li_memory := s\<rparr>) InMemoryRateLimiter
     | RedisLimiter url \<Rightarrow>
         limiter_port_on li_redis (\<lambda>s t. t\<lparr>li_redis := s\<rparr>) (RedisRateLimiter (rl_from_url lib url) ''rate-limit''))"

text \<open>
  The history that a session has in each of the places, where the contract of the store
  applies, and the units a bucket has used.
\<close>

definition history_in :: "'db redis_library \<Rightarrow> ('db \<Rightarrow> redis_keys) \<Rightarrow> session_backend \<Rightarrow> 'db stores \<Rightarrow> string \<Rightarrow> chat_message list" where
  "history_in lib keys backend t = (case backend of
       MemorySessions \<Rightarrow> mem_bucket (st_memory t)
     | RedisSessions url ttl \<Rightarrow> redis_history (rl_parse lib) (keys (st_redis t))
     | PostgresSessions dsn min_size max_size expiration turns \<Rightarrow> pg_history (st_postgres t))"

definition ready_in :: "('db \<Rightarrow> redis_keys) \<Rightarrow> session_backend \<Rightarrow> 'db stores \<Rightarrow> string \<Rightarrow> bool" where
  "ready_in keys backend t sid = (case backend of
       MemorySessions \<Rightarrow> True
     | RedisSessions url ttl \<Rightarrow> list_key (keys (st_redis t)) (session_key sid) \<and> 0 < ttl
     | PostgresSessions dsn min_size max_size expiration turns \<Rightarrow>
         pg_ready \<lparr>pgc_expiration_sec = expiration, pgc_max_history_turns = turns\<rparr> (st_postgres t) sid)"

definition count_in :: "('db \<Rightarrow> redis_keys) \<Rightarrow> limiter_backend \<Rightarrow> 'db limits \<Rightarrow> string \<Rightarrow> int" where
  "count_in keys backend l k = (case backend of
       MemoryLimiter \<Rightarrow> mem_used (li_memory l) k
     | RedisLimiter url \<Rightarrow> counter_of (keys (li_redis l)) (''rate-limit'' @ '':'' @ k))"

text \<open>What the library is relied on for: servers that run commands as documented, and a round trip.\<close>

locale redis_client =
  fixes lib :: "'db redis_library" and keys :: "'db \<Rightarrow> redis_keys"
  assumes server: "redis (rl_from_url lib url) keys"
    and dump_parse: "rl_parse lib (rl_dump lib m) = Some (role m, content m)"
    and close_keeps: "rs_close (rl_from_url lib url) db = (u, db') \<Longrightarrow> keys db' = keys db"
begin

lemma sessions: "redis_sessions (redis_store lib url ttl) keys"
proof (rule redis_sessions.intro)
  show "redis (rds_server (redis_store lib url ttl)) keys" using server by (simp add: redis_store_def)
qed (unfold_locales, simp add: redis_store_def dump_parse)

lemma repo_contract: "session_repository (repo_of lib backend) (history_in lib keys backend) (ready_in keys backend)"
proof (cases backend)
  case MemorySessions
  have "history_in lib keys backend = (\<lambda>t. mem_bucket (st_memory t))" "ready_in keys backend = (\<lambda>t sid. True)"
    by (simp_all add: fun_eq_iff history_in_def ready_in_def MemorySessions)
  then show ?thesis using memory_store.whole.session_repository_axioms by (simp add: repo_of_def MemorySessions)
next
  case (RedisSessions url ttl)
  let ?rds = "redis_store lib url ttl"
  have "session_repository (RedisSessionRepository ?rds) (\<lambda>db. redis_history (rl_parse lib) (keys db))
      (\<lambda>db sid. list_key (keys db) (session_key sid) \<and> 0 < ttl)"
    using redis_sessions.contract [OF sessions [of url ttl]] by (simp add: redis_store_def)
  then have "store_part (RedisSessionRepository ?rds) (\<lambda>db. redis_history (rl_parse lib) (keys db))
      (\<lambda>db sid. list_key (keys db) (session_key sid) \<and> 0 < ttl) st_redis (\<lambda>s t :: 'db stores. t\<lparr>st_redis := s\<rparr>)"
    by (intro store_part.intro store_part_axioms.intro) simp_all
  from store_part.on_whole_state [OF this]
  have "session_repository (repo_of lib backend) (\<lambda>t. redis_history (rl_parse lib) (keys (st_redis t)))
      (\<lambda>t sid. list_key (keys (st_redis t)) (session_key sid) \<and> 0 < ttl)"
    by (simp add: repo_of_def RedisSessions)
  moreover have "history_in lib keys backend = (\<lambda>t. redis_history (rl_parse lib) (keys (st_redis t)))"
    "ready_in keys backend = (\<lambda>t sid. list_key (keys (st_redis t)) (session_key sid) \<and> 0 < ttl)"
    by (simp_all add: fun_eq_iff history_in_def ready_in_def RedisSessions)
  ultimately show ?thesis by (simp only:)
next
  case (PostgresSessions dsn min_size max_size expiration turns)
  let ?cfg = "\<lparr>pgc_expiration_sec = expiration, pgc_max_history_turns = turns\<rparr>"
  have "history_in lib keys backend = (\<lambda>t. pg_history (st_postgres t))" "ready_in keys backend = (\<lambda>t sid. pg_ready ?cfg (st_postgres t) sid)"
    by (simp_all add: fun_eq_iff history_in_def ready_in_def PostgresSessions)
  then show ?thesis using postgres_store.whole.session_repository_axioms [of ?cfg] by (simp add: repo_of_def PostgresSessions)
qed

lemma limiter_contract: "rate_limiter (lim_consume (limiter_of lib backend)) (count_in keys backend) (\<lambda>win. 0 < win)"
proof (cases backend)
  case MemoryLimiter
  have "rate_limiter (lim_consume (limiter_of lib backend)) (\<lambda>l. mem_used (li_memory l)) (\<lambda>win. win \<noteq> 0)"
    using memory_limits.on_whole_state by (simp add: limiter_of_def MemoryLimiter limiter_port_on_def)
  then have "rate_limiter (lim_consume (limiter_of lib backend)) (\<lambda>l. mem_used (li_memory l)) (\<lambda>win. 0 < win)"
    unfolding rate_limiter_def by (metis less_irrefl)
  moreover have "count_in keys backend = (\<lambda>l. mem_used (li_memory l))"
    by (simp add: fun_eq_iff count_in_def MemoryLimiter)
  ultimately show ?thesis by (simp only:)
next
  case (RedisLimiter url)
  have "rate_limiter (redis_consume (rl_from_url lib url) ''rate-limit'')
      (\<lambda>db k. counter_of (keys db) (''rate-limit'' @ '':'' @ k)) (\<lambda>win. 0 < win)"
    by (rule redis.limiter_contract [OF server])
  then have "limiter_part (redis_consume (rl_from_url lib url) ''rate-limit'')
      (\<lambda>db k. counter_of (keys db) (''rate-limit'' @ '':'' @ k)) (\<lambda>win. 0 < win) li_redis (\<lambda>s t. t\<lparr>li_redis := s\<rparr>)"
    by (intro limiter_part.intro limiter_part_axioms.intro) simp_all
  from limiter_part.on_whole_state [OF this]
  have "rate_limiter (lim_consume (limiter_of lib backend))
      (\<lambda>l k. counter_of (keys (li_redis l)) (''rate-limit'' @ '':'' @ k)) (\<lambda>win. 0 < win)"
    by (simp add: limiter_of_def RedisLimiter limiter_port_on_def RedisRateLimiter_def)
  moreover have "count_in keys backend = (\<lambda>l k. counter_of (keys (li_redis l)) (''rate-limit'' @ '':'' @ k))"
    by (simp add: fun_eq_iff count_in_def RedisLimiter)
  ultimately show ?thesis by (simp only:)
qed

text \<open>Closing a store and starting the next process leaves what another server holds.\<close>

lemma close_keeps_history:
  assumes "backend \<noteq> MemorySessions" "repo_close (repo_of lib backend) t = (r, t')"
  shows "history_in lib keys backend t' = history_in lib keys backend t"
proof (cases backend)
  case (RedisSessions url ttl)
  then have "rs_close (rl_from_url lib url) (st_redis t) = (r, st_redis t')"
    using assms(2) by (auto simp: repo_of_def focus_eq redis_store_def RedisSessionRepository_def)
  from close_keeps [OF this] show ?thesis by (simp add: history_in_def RedisSessions)
next
  case (PostgresSessions dsn min_size max_size expiration turns)
  then have "pg_close (st_postgres t) = (r, st_postgres t')" using assms(2) by (auto simp: repo_of_def focus_eq)
  then have "tables (st_postgres t') = tables (st_postgres t)" using pg_close_tables by blast
  from tables_read(5) [OF this] show ?thesis by (simp add: history_in_def PostgresSessions)
qed (use assms(1) in simp)

end

subsection \<open>The lifespan\<close>

text \<open>
  \<open>app.state\<close>: the site and \<open>bootstrap_complete\<close>. A process starts with new adapter objects:
  empty dictionaries, no connection pool, no time stamps of probes. \<open>body\<close> is what happens
  between the start and the shutdown; it may raise.
\<close>

record ('db, 'n) process =
  ap_site :: "('db stores, 'db limits, 'n) site"
  ap_bootstrap_complete :: bool

definition start_process :: "('db, 'n) process \<Rightarrow> ('db, 'n) process" where
  "start_process p = (let st = ap_site p in p\<lparr>ap_bootstrap_complete := True, ap_site := st\<lparr>
     site_repo := (site_repo st)\<lparr>st_memory := Map.empty, st_postgres := (st_postgres (site_repo st))\<lparr>pg_pool := False\<rparr>\<rparr>,
     site_limiter := (site_limiter st)\<lparr>li_memory := Map.empty\<rparr>, site_cache := Map.empty\<rparr>\<rparr>)"

definition stop_process :: "('db stores, 'db limits, 'n) container \<Rightarrow> ('db, 'n) process \<Rightarrow> ('db, 'n) process" where
  "stop_process ct p = p\<lparr>ap_bootstrap_complete := False, ap_site := close_container ct (ap_site p)\<rparr>"

definition lifespan ::
  "'n transport \<Rightarrow> 'db redis_library \<Rightarrow> settings \<Rightarrow>
     (('db stores, 'db limits, 'n) container \<Rightarrow> ('db, 'n) process \<Rightarrow> (exn + unit) \<times> ('db, 'n) process) \<Rightarrow>
     ('db, 'n) process \<Rightarrow> (exn + unit) \<times> ('db, 'n) process" where
  "lifespan tr lib settings body p = (case build_container tr (repo_of lib) (limiter_of lib) settings of
       Inl e \<Rightarrow> (Inl e, p)
     | Inr ct \<Rightarrow> (case body ct (start_process p) of (r, p1) \<Rightarrow> (r, stop_process ct p1)))"

lemma built_parts:
  assumes "build_container tr (repo_of lib) (limiter_of lib) settings = Inr ct"
  obtains backend limiter where "build_session_repo settings = Inr backend" "build_rate_limiter settings = Inr limiter"
    "ct_repo ct = repo_of lib backend" "ct_limiter ct = limiter_of lib limiter" "svc_repo (ct_service ct) = repo_of lib backend"
    "provider_errors (ct_service ct)"
proof -
  obtain backend limiter llm tts where parts: "build_session_repo settings = Inr backend"
    "build_rate_limiter settings = Inr limiter" "build_llm_client tr settings = Inr llm" "build_tts_client tr settings = Inr tts"
    using assms by (auto simp: build_container_def split: sum.splits)
  have ct: "ct = \<lparr>ct_llm = llm, ct_tts = tts, ct_repo = repo_of lib backend, ct_limiter = limiter_of lib limiter,
      ct_service = ChatOrchestrationService llm tts (repo_of lib backend) (MAX_HISTORY_TURNS settings) (STREAM_CHUNK_SIZE settings)\<rparr>"
    using assms by (simp add: build_container_def parts)
  have "exn_cls e \<in> {LLMTimeoutError, LLMBadResponseError}" if e: "fst (llm_generate llm ms w) = Inl e" for ms w e
    using build_llm_cases [OF parts(3)]
  proof
    assume "llm = VLLMStubClient"
    with e show ?thesis by (simp add: VLLMStubClient_def stub_generate_def)
  next
    assume "\<exists>cfg. llm = VLLMHTTPClient (tr_post tr) (tr_get tr) (tr_aclose tr) cfg"
    then obtain cfg where "llm_generate llm = vllm_generate (tr_post tr) cfg" by (auto simp: VLLMHTTPClient_def)
    with e vllm_generate_raises [of "tr_post tr" cfg ms w] show ?thesis by simp
  qed
  moreover have "exn_cls e \<in> {TTSTimeoutError, TTSBadResponseError}" if e: "fst (tts_synthesize tts args w) = Inl e" for args w e
    using build_tts_cases [OF parts(4)]
  proof
    assume "tts = GPTSoVITSStubClient"
    with e show ?thesis by (simp add: GPTSoVITSStubClient_def gsv_stub_synthesize_def Let_def)
  next
    assume "\<exists>cfg. tts = GPTSoVITSHTTPClient (tr_post tr) (tr_get tr) (tr_aclose tr) cfg"
    then obtain cfg where "tts_synthesize tts = gsv_synthesize (tr_post tr) cfg" by (auto simp: GPTSoVITSHTTPClient_def)
    with e gsv_synthesize_raises [of "tr_post tr" cfg args w] show ?thesis by simp
  qed
  ultimately have "provider_errors (ct_service ct)"
    by (simp add: provider_errors_def ct ChatOrchestrationService_def)
  with parts show thesis by (intro that [of backend limiter]) (simp_all add: ct ChatOrchestrationService_def)
qed

text \<open>A library over the reference server, with the encoding in unary.\<close>

definition reference_library :: "redis_db redis_library" where
  "reference_library = \<lparr>rl_from_url = (\<lambda>_. reference_server), rl_dump = unary_dump, rl_parse = unary_parse\<rparr>"

interpretation reflib: redis_client reference_library rdb_keys
proof (rule redis_client.intro)
  show "redis (rl_from_url reference_library url) rdb_keys" for url
    using reference.redis_axioms by (simp add: reference_library_def)
qed (simp_all add: reference_library_def unary_roundtrip reference_server_def)

subsection \<open>Properties\<close>

text \<open>
  The chat endpoint of the application as built. Whatever supported settings select the
  session store, the rate limiter, the model and the synthesis, with tokens in ASCII and in any
  state, the endpoint answers 200, 401, 422, 429 or 503 whichever calls to the stores and the
  providers fail: no such failure becomes a 500 or is reported as the client's fault.
\<close>

theorem built_endpoint_statuses:
  assumes "redis_client lib keys" "build_container tr (repo_of lib) (limiter_of lib) settings = Inr ct"
    and "\<forall>(t, k) \<in> set (parse_tenant_api_keys (AUTH_TENANT_API_KEYS settings)). \<forall>c \<in> set k. py_isascii c"
    and "\<forall>c \<in> set (bearer_token_of rq). py_isascii c"
  shows "rs_status (fst (handle_request h (chat_endpoint ct settings h rq now payload) st)) \<in> {200, 401, 422, 429, 503}"
proof -
  obtain backend where "svc_repo (ct_service ct) = repo_of lib backend" "provider_errors (ct_service ct)"
    by (rule built_parts [OF assms(2)])
  from session_repository.endpoint_statuses [OF redis_client.repo_contract [OF assms(1)] this assms(3,4)] show ?thesis .
qed



text \<open>
  The witnesses: a process on Redis whose provider, limiter and store are the reference library
  and a transport that refuses every connection, and one on Postgres.
\<close>

definition redis_settings :: settings where
  "redis_settings = demo_settings\<lparr>SESSION_BACKEND := ''redis'', RATE_LIMIT_BACKEND := ''redis'', LLM_PROVIDER := ''vllm'',
     TTS_PROVIDER := ''gptsovits'', RATE_LIMIT_FAIL_OPEN := False\<rparr>"

lemma redis_settings_sel [simp]:
  "SESSION_BACKEND redis_settings = ''redis''" "RATE_LIMIT_BACKEND redis_settings = ''redis''"
  "LLM_PROVIDER redis_settings = ''vllm''" "TTS_PROVIDER redis_settings = ''gptsovits''"
  "RATE_LIMIT_ENABLED redis_settings" "RATE_LIMIT_WINDOW_SEC redis_settings = 60" "\<not> RATE_LIMIT_FAIL_OPEN redis_settings"
  "AUTH_TENANT_API_KEYS redis_settings = AUTH_TENANT_API_KEYS demo_settings"
  "tenant_limit redis_settings ''acme'' = tenant_limit demo_settings ''acme''"
proof -
  have "RATE_LIMIT_TENANT_OVERRIDES redis_settings = RATE_LIMIT_TENANT_OVERRIDES demo_settings"
    "RATE_LIMIT_REQUESTS_PER_WINDOW redis_settings = RATE_LIMIT_REQUESTS_PER_WINDOW demo_settings"
    by (simp_all add: redis_settings_def)
  then show "tenant_limit redis_settings ''acme'' = tenant_limit demo_settings ''acme''"
    by (simp only: tenant_limit_def)
qed (simp_all add: redis_settings_def)

definition redis_container :: "(redis_db stores, redis_db limits, unit) container" where
  "redis_container = projr (build_container refusing_transport (repo_of reference_library) (limiter_of reference_library) redis_settings)"

lemma redis_container_built:
  "build_container refusing_transport (repo_of reference_library) (limiter_of reference_library) redis_settings = Inr redis_container"
  by (simp add: redis_container_def build_container_def build_session_repo_def build_rate_limiter_def build_llm_client_def
      build_tts_client_def Let_def)

definition empty_redis :: "bool list \<Rightarrow> redis_db" where
  "empty_redis faults = \<lparr>rdb_keys = Map.empty, rdb_faults = faults\<rparr>"

definition redis_site :: "(redis_db stores, redis_db limits, unit) site" where
  "redis_site = \<lparr>site_repo = \<lparr>st_memory = Map.empty, st_redis = empty_redis [True], st_postgres = empty_pg 0 []\<rparr>,
     site_limiter = \<lparr>li_memory = Map.empty, li_redis = empty_redis []\<rparr>, site_io = site_io demo_site, site_cache = Map.empty\<rparr>"

theorem built_endpoint_statuses_witness:
  "rs_status (fst (handle_request demo_head
     (chat_endpoint redis_container redis_settings demo_head (demo_request ''Bearer k1'') 61 demo_payload) redis_site)) \<in>
   {200, 401, 422, 429, 503}"
proof (rule built_endpoint_statuses [OF reflib.redis_client_axioms redis_container_built])
  show "\<forall>(t, k) \<in> set (parse_tenant_api_keys (AUTH_TENANT_API_KEYS redis_settings)). \<forall>c \<in> set k. py_isascii c"
    by (simp add: demo_keys py_isascii_def)
  have "bearer_token_of (demo_request ''Bearer k1'') = ''k1''"
    using bearer_header [of "''k1''"] by (simp add: bearer_token_of_def demo_request_def)
  then show "\<forall>c \<in> set (bearer_token_of (demo_request ''Bearer k1'')). py_isascii c"
    by (simp add: py_isascii_def)
qed


text \<open>A lifespan that stores one turn in Redis.\<close>

definition one_turn :: "(redis_db stores, redis_db limits, unit) container \<Rightarrow> (redis_db, unit) process \<Rightarrow>
    (exn + unit) \<times> (redis_db, unit) process" where
  "one_turn ct p = (let st = ap_site p;
       (r, s) = repo_append_messages (ct_repo ct) ''s'' [user_msg ''hi'', assistant_msg ''yo''] (Some 20) (site_repo st)
     in (r, p\<lparr>ap_site := st\<lparr>site_repo := s\<rparr>\<rparr>))"

definition cold_process :: "(redis_db, unit) process" where
  "cold_process = \<lparr>ap_site = redis_site\<lparr>site_repo := (site_repo redis_site)\<lparr>st_redis := empty_redis []\<rparr>\<rparr>, ap_bootstrap_complete = False\<rparr>"

lemma redis_ttl [simp]: "\<not> SESSION_TTL_SEC redis_settings \<le> 0"
  by (simp add: redis_settings_def demo_settings_def default_settings_def)

lemma redis_container_repo: "ct_repo redis_container =
    repo_of reference_library (RedisSessions (REDIS_URL redis_settings) (SESSION_TTL_SEC redis_settings))"
  by (simp add: redis_container_def build_container_def build_session_repo_def build_rate_limiter_def build_llm_client_def
      build_tts_client_def Let_def)

lemma one_turn_history:
  "history_in reference_library rdb_keys (RedisSessions url ttl)
     (site_repo (ap_site (snd (one_turn redis_container (start_process cold_process))))) ''s'' = [user_msg ''hi'', assistant_msg ''yo'']"
  by (simp add: one_turn_def redis_container_repo repo_of_def focus_def start_process_def cold_process_def redis_site_def
      empty_redis_def redis_store_def reference_library_def reference_server_def redis_append_messages_def redis_pipeline_def
      append_commands_def redis_range_def history_in_def redis_history_def key_items_def decode_item_def unary_roundtrip
      user_msg_def assistant_msg_def Let_def)


end
