(* ===== verification/Endpoints.thy ===== *)
theory Endpoints
  imports Running_App
begin

text \<open>
  Every endpoint of the application behind its middlewares: \<open>/health\<close>, \<open>/ready\<close> and \<open>/metrics\<close>
  (\<open>api/routes/health.py\<close>), the chat and the stream endpoints with bodies that fail validation,
  and the start of an application in a process (\<open>create_app\<close> up to its lifespan, \<open>main.py\<close>).
\<close>

subsection \<open>The routes of \<open>health.py\<close>\<close>

text \<open>The texts that libraries make: time stamps, floats, and the exposition of the metrics.\<close>

record text_library =
  tl_stamp :: "string \<Rightarrow> string"
  tl_float :: "real \<Rightarrow> string"
  tl_content_type :: string
  tl_generate :: "metric list \<Rightarrow> string"

definition health_endpoint :: "('s, 'l, 'n) handler" where
  "health_endpoint st = (Inr \<lparr>rs_status = 200, rs_headers = [], rs_body = JDict [(''status'', JStr ''ok'')]\<rparr>, st)"

definition probe_json :: "(real \<Rightarrow> string) \<Rightarrow> probe_result \<Rightarrow> json" where
  "probe_json float_text p = JDict
     ([(''status'', JStr (pr_status p)),
       (''latency_ms'', case pr_latency_ms p of None \<Rightarrow> JNull | Some x \<Rightarrow> JFloat (float_text x)),
       (''reason'', json_opt_str (pr_reason p))] @
      (case pr_last_success_ts p of None \<Rightarrow> [] | Some ts \<Rightarrow> [(''last_success_ts'', json_opt_str ts)]))"

definition readiness_json :: "(real \<Rightarrow> string) \<Rightarrow> readiness \<Rightarrow> json" where
  "readiness_json float_text rd = JDict [(''status'', JStr (rd_status rd)),
     (''dependencies'', JDict (map (\<lambda>(key, p). (key, probe_json float_text p)) (rd_dependencies rd)))]"

definition ready_endpoint ::
  "text_library \<Rightarrow> settings \<Rightarrow> bool \<Rightarrow> ('s, 'l, 'n) container \<Rightarrow> ('s, 'l, 'n) handler" where
  "ready_endpoint texts settings bootstrap_complete ct st =
     (case ready_route (tl_stamp texts) settings bootstrap_complete ct st of
        (rd, st1) \<Rightarrow> (Inr \<lparr>rs_status = rd_http_code rd, rs_headers = [], rs_body = readiness_json (tl_float texts) rd\<rparr>, st1))"

text \<open>The body is text of its own media type.\<close>

definition metrics_endpoint :: "text_library \<Rightarrow> ('s, 'l, 'n) handler" where
  "metrics_endpoint texts st = (case metrics_response (tl_content_type texts) (tl_generate texts) (site_io st) of
     (media_type, body) \<Rightarrow> (Inr \<lparr>rs_status = 200, rs_headers = [(''content-type'', media_type)], rs_body = JStr body\<rparr>, st))"

subsection \<open>All routes\<close>

text \<open>
  A request by its route, with the parsed body where there is one: a body that is no JSON is
  refused before the dependency runs, one whose fields do not validate after it.
\<close>

datatype incoming =
    Get_Health
  | Get_Ready
  | Get_Metrics
  | Post_Chat http_request chat_request
  | Post_Stream http_request stream_request
  | Post_Unparsed
  | Post_Invalid string http_request

definition invalid_endpoint ::
  "('s, 'l, 'n) container \<Rightarrow> settings \<Rightarrow> request_head \<Rightarrow> string \<Rightarrow> http_request \<Rightarrow> int \<Rightarrow> ('s, 'l, 'n) handler" where
  "invalid_endpoint ct settings h route_id rq now st =
     (case auth_dependency (ct_limiter ct) settings route_id rq now
             \<lparr>gate_limiter = site_limiter st, gate_io = site_io st\<rparr> of
        (Inl e, rst, g) \<Rightarrow> (Inl e, st\<lparr>site_limiter := gate_limiter g, site_io := gate_io g\<rparr>)
      | (Inr access, rst, g) \<Rightarrow> (Inr (request_validation_exception_handler h),
           st\<lparr>site_limiter := gate_limiter g, site_io := gate_io g\<rparr>))"

text \<open>The head of a streaming response; its events follow as they are made.\<close>

definition stream_head_endpoint ::
  "('s, 'l, 'n) container \<Rightarrow> settings \<Rightarrow> settings \<Rightarrow> request_head \<Rightarrow> http_request \<Rightarrow> int \<Rightarrow> stream_request \<Rightarrow> ('s, 'l, 'n) handler" where
  "stream_head_endpoint ct settings cached h rq now payload st =
     (case stream_endpoint ct settings cached h rq now payload st of
        (Inl e, st1) \<Rightarrow> (Inl e, st1)
      | (Inr resp, st1) \<Rightarrow> (Inr \<lparr>rs_status = sr_status resp,
           rs_headers = sr_headers resp @ [(''content-type'', sr_media_type resp)], rs_body = JNull\<rparr>, st1))"

fun endpoint ::
  "text_library \<Rightarrow> settings \<Rightarrow> settings \<Rightarrow> bool \<Rightarrow> ('s, 'l, 'n) container \<Rightarrow> request_head \<Rightarrow> int \<Rightarrow> incoming \<Rightarrow> ('s, 'l, 'n) handler" where
  "endpoint texts settings cached booted ct h now Get_Health = health_endpoint"
| "endpoint texts settings cached booted ct h now Get_Ready = ready_endpoint texts settings booted ct"
| "endpoint texts settings cached booted ct h now Get_Metrics = metrics_endpoint texts"
| "endpoint texts settings cached booted ct h now (Post_Chat rq payload) = chat_endpoint ct settings h rq now payload"
| "endpoint texts settings cached booted ct h now (Post_Stream rq payload) = stream_head_endpoint ct settings cached h rq now payload"
| "endpoint texts settings cached booted ct h now Post_Unparsed = (\<lambda>st. (Inr (request_validation_exception_handler h), st))"
| "endpoint texts settings cached booted ct h now (Post_Invalid route_id rq) = invalid_endpoint ct settings h route_id rq now"

text \<open>The statuses of each route.\<close>

fun expected_statuses :: "incoming \<Rightarrow> int set" where
  "expected_statuses Get_Health = {200}"
| "expected_statuses Get_Ready = {200, 503}"
| "expected_statuses Get_Metrics = {200}"
| "expected_statuses (Post_Chat rq payload) = {200, 401, 422, 429, 503}"
| "expected_statuses (Post_Stream rq payload) = {200, 401, 429}"
| "expected_statuses Post_Unparsed = {422}"
| "expected_statuses (Post_Invalid route_id rq) = {401, 422, 429}"

fun authorization_of :: "incoming \<Rightarrow> http_request option" where
  "authorization_of (Post_Chat rq payload) = Some rq"
| "authorization_of (Post_Stream rq payload) = Some rq"
| "authorization_of (Post_Invalid route_id rq) = Some rq"
| "authorization_of _ = None"

subsection \<open>The start of an application\<close>

text \<open>What the process holds besides: the cache of \<open>get_settings\<close> and the root logger.\<close>

record python_process =
  py_settings :: "settings option"
  py_root :: root_logger

text \<open>
  \<open>create_app(settings)\<close> up to its lifespan: the settings the application is built with.
\<close>

definition create_app ::
  "('e \<Rightarrow> exn + settings) \<Rightarrow> 'e \<Rightarrow> settings option \<Rightarrow> python_process \<Rightarrow> (exn + settings) \<times> python_process" where
  "create_app read env given p =
     (case (case given of Some s \<Rightarrow> (Inr s, py_settings p) | None \<Rightarrow> get_settings read env (py_settings p)) of
        (Inl e, cache) \<Rightarrow> (Inl e, p\<lparr>py_settings := cache\<rparr>)
      | (Inr s, cache) \<Rightarrow> (case configure_logging (LOG_LEVEL s) (py_root p) of
            (Inl e, lg) \<Rightarrow> (Inl e, p\<lparr>py_settings := cache, py_root := lg\<rparr>)
          | (Inr _, lg) \<Rightarrow> (Inr s, p\<lparr>py_settings := cache, py_root := lg\<rparr>)))"

text \<open>\<open>app = create_app()\<close> at the import of \<open>main.py\<close>.\<close>

definition import_main :: "('e \<Rightarrow> exn + settings) \<Rightarrow> 'e \<Rightarrow> python_process \<Rightarrow> (exn + settings) \<times> python_process" where
  "import_main read env = create_app read env None"

subsection \<open>Statuses\<close>

lemma handled_response:
  assumes "fst (route (on_site_io (emit [GaugeInc ''app_request_in_progress'']) st)) = Inr resp"
  shows "rs_status (fst (handle_request h route st)) = rs_status resp \<and>
    (''x-request-id'', request_id h) \<in> set (rs_headers (fst (handle_request h route st)))"
  using assms by (simp add: handle_request_cases)

lemma handled_domain_error:
  assumes "fst (route (on_site_io (emit [GaugeInc ''app_request_in_progress'']) st)) = Inl e" "is_domain e"
  shows "rs_status (fst (handle_request h route st)) = domain_status e \<and>
    (''x-request-id'', request_id h) \<in> set (rs_headers (fst (handle_request h route st)))"
  using assms by (simp add: handle_request_cases error_response_def)

text \<open>A route that begins with the dependency and raises nothing of its own.\<close>

lemma gated_statuses:
  assumes "\<And>st. (case auth_dependency limiter settings route_id rq now \<lparr>gate_limiter = site_limiter st, gate_io = site_io st\<rparr> of
        (Inl e, rst, g) \<Rightarrow> fst (route st) = Inl e
      | (Inr access, rst, g) \<Rightarrow> \<exists>resp. fst (route st) = Inr resp \<and> rs_status resp = code)"
    and "\<forall>(t, k) \<in> set (parse_tenant_api_keys (AUTH_TENANT_API_KEYS settings)). \<forall>c \<in> set k. py_isascii c"
    and "\<forall>c \<in> set (bearer_token_of rq). py_isascii c"
  shows "rs_status (fst (handle_request h route st)) \<in> {code, 401, 429} \<and>
    (''x-request-id'', request_id h) \<in> set (rs_headers (fst (handle_request h route st)))"
proof -
  let ?st = "on_site_io (emit [GaugeInc ''app_request_in_progress'']) st"
  obtain r rst g where dep: "auth_dependency limiter settings route_id rq now
      \<lparr>gate_limiter = site_limiter ?st, gate_io = site_io ?st\<rparr> = (r, rst, g)" by (metis surj_pair)
  show ?thesis
  proof (cases r)
    case (Inl e)
    then have "fst (route ?st) = Inl e" using assms(1) [of ?st] unfolding dep by simp
    moreover have e: "exn_cls e \<in> {UnauthorizedError, RateLimitExceededError}"
      using auth_dependency_raises [OF dep [unfolded Inl] assms(2,3)] .
    moreover have "is_domain e" using e by (auto simp: is_domain_iff)
    ultimately show ?thesis
      using handled_domain_error [where route = route and st = st and h = h] domain_status_class(2,3) [of e] by auto
  next
    case (Inr access)
    then obtain resp where "fst (route ?st) = Inr resp" "rs_status resp = code" using assms(1) [of ?st] unfolding dep by auto
    with handled_response [of route st resp h] show ?thesis by simp
  qed
qed

lemma stream_head_gate:
  "case auth_dependency (ct_limiter ct) settings ''chat_stream'' rq now \<lparr>gate_limiter = site_limiter st, gate_io = site_io st\<rparr> of
     (Inl e, rst, g) \<Rightarrow> fst (stream_head_endpoint ct settings cached h rq now payload st) = Inl e
   | (Inr access, rst, g) \<Rightarrow>
       \<exists>resp. fst (stream_head_endpoint ct settings cached h rq now payload st) = Inr resp \<and> rs_status resp = 200"
  by (simp add: stream_head_endpoint_def stream_endpoint_def split: prod.split sum.split)

lemma invalid_gate:
  "case auth_dependency (ct_limiter ct) settings route_id rq now \<lparr>gate_limiter = site_limiter st, gate_io = site_io st\<rparr> of
     (Inl e, rst, g) \<Rightarrow> fst (invalid_endpoint ct settings h route_id rq now st) = Inl e
   | (Inr access, rst, g) \<Rightarrow>
       \<exists>resp. fst (invalid_endpoint ct settings h route_id rq now st) = Inr resp \<and> rs_status resp = 422"
  by (simp add: invalid_endpoint_def request_validation_exception_handler_def error_response_def split: prod.split sum.split)

lemma ready_codes: "rd_http_code (fst (ready_route stamp settings booted ct st)) \<in> {200, 503}"
  using ready_policy [where stamp = stamp and settings = settings and bootstrap_complete = booted and ct = ct and st = st] by (auto split: prod.splits if_splits)

text \<open>A chat is never answered without the ids, as its statuses leave no 500.\<close>

lemma answered_with_id:
  assumes "rs_status (fst (handle_request h route st)) \<noteq> 500"
  shows "(''x-request-id'', request_id h) \<in> set (rs_headers (fst (handle_request h route st)))"
  using assms by (auto simp: handle_request_cases error_response_def split: sum.splits if_splits)

subsection \<open>Probes of the stores and the limiter\<close>

context redis_client
begin

lemma ping_keeps_history: "repo_ping (repo_of lib backend) t = (b, t') \<Longrightarrow> history_in lib keys backend t' = history_in lib keys backend t"
proof (cases backend)
  case (RedisSessions url ttl)
  assume "repo_ping (repo_of lib backend) t = (b, t')"
  then have "redis_ping (rl_from_url lib url) (st_redis t) = (b, st_redis t')"
    by (auto simp: repo_of_def RedisSessions session_port_on_def focus_eq RedisSessionRepository_def redis_store_def)
  from redis.ping_keys [OF server this] show ?thesis by (simp add: history_in_def RedisSessions)
next
  case (PostgresSessions dsn min_size max_size expiration turns)
  assume "repo_ping (repo_of lib backend) t = (b, t')"
  then have "pg_ping (st_postgres t) = (b, st_postgres t')" by (auto simp: repo_of_def PostgresSessions session_port_on_def focus_eq)
  then have "tables (st_postgres t') = tables (st_postgres t)" using pg_ping_tables by blast
  from tables_read(5) [OF this] show ?thesis by (simp add: history_in_def PostgresSessions)
qed (auto simp: repo_of_def session_port_on_def focus_eq)

lemma ping_keeps_counts: "lim_ping (limiter_of lib backend) l = (b, l') \<Longrightarrow> count_in keys backend l' = count_in keys backend l"
proof (cases backend)
  case (RedisLimiter url)
  assume "lim_ping (limiter_of lib backend) l = (b, l')"
  then have "redis_ping (rl_from_url lib url) (li_redis l) = (b, li_redis l')"
    by (auto simp: limiter_of_def RedisLimiter limiter_port_on_def focus_eq RedisRateLimiter_def)
  from redis.ping_keys [OF server this] show ?thesis by (intro ext) (simp add: count_in_def RedisLimiter)
qed (auto simp: limiter_of_def limiter_port_on_def focus_eq)

end

lemma probe_parts:
  "site_repo (snd (probe_dependency stamp key probe st)) = site_repo (snd (probe st))"
  "site_limiter (snd (probe_dependency stamp key probe st)) = site_limiter (snd (probe st))"
  by (simp_all add: probe_dependency_def Let_def split: prod.splits)

lemma probes_frame [simp]:
  "site_repo (snd (llm_probe ct st)) = site_repo st" "site_limiter (snd (llm_probe ct st)) = site_limiter st"
  "site_repo (snd (tts_probe ct st)) = site_repo st" "site_limiter (snd (tts_probe ct st)) = site_limiter st"
  "site_repo (snd (session_probe ct st)) = snd (repo_ping (ct_repo ct) (site_repo st))"
  "site_limiter (snd (session_probe ct st)) = site_limiter st"
  "site_repo (snd (limiter_probe ct st)) = site_repo st"
  "site_limiter (snd (limiter_probe ct st)) = snd (lim_ping (ct_limiter ct) (site_limiter st))"
  by (simp_all add: llm_probe_def tts_probe_def session_probe_def limiter_probe_def split: prod.splits)

lemma ready_parts:
  "site_repo (snd (ready_route stamp settings booted ct st)) \<in> {site_repo st, snd (repo_ping (ct_repo ct) (site_repo st))} \<and>
   site_limiter (snd (ready_route stamp settings booted ct st)) \<in> {site_limiter st, snd (lim_ping (ct_limiter ct) (site_limiter st))}"
proof (cases booted)
  case True
  obtain ok1 p1 st1 where 1: "probe_dependency (stamp ''llm'') ''llm'' (llm_probe ct) st = ((ok1, p1), st1)" by (metis surj_pair)
  obtain ok2 p2 st2 where 2: "probe_dependency (stamp ''tts'') ''tts'' (tts_probe ct) st1 = ((ok2, p2), st2)" by (metis surj_pair)
  obtain ok3 p3 st3 where 3: "probe_dependency (stamp ''session_store'') ''session_store'' (session_probe ct) st2
      = ((ok3, p3), st3)" by (metis surj_pair)
  obtain ok4 p4 st4 where 4: "probe_dependency (stamp ''rate_limiter'') ''rate_limiter'' (limiter_probe ct) st3
      = ((ok4, p4), st4)" by (metis surj_pair)
  have repo: "site_repo st1 = site_repo st" "site_repo st2 = site_repo st1" "site_repo st4 = site_repo st3"
      "site_repo st3 = snd (repo_ping (ct_repo ct) (site_repo st2))"
    and lims: "site_limiter st1 = site_limiter st" "site_limiter st2 = site_limiter st1" "site_limiter st3 = site_limiter st2"
      "site_limiter st4 = snd (lim_ping (ct_limiter ct) (site_limiter st3))"
    using probe_parts [of "stamp ''llm''" "''llm''" "llm_probe ct" st] probe_parts [of "stamp ''tts''" "''tts''" "tts_probe ct" st1]
      probe_parts [of "stamp ''session_store''" "''session_store''" "session_probe ct" st2]
      probe_parts [of "stamp ''rate_limiter''" "''rate_limiter''" "limiter_probe ct" st3]
    by (simp_all add: 1 2 3 4)
  then show ?thesis using True by (simp add: ready_route_def 1 2 3 4 Let_def split: prod.split)
qed (simp add: ready_route_def)

lemma handle_request_parts:
  "site_repo (snd (handle_request h route st)) = site_repo (snd (route (on_site_io (emit [GaugeInc ''app_request_in_progress'']) st)))"
  "site_limiter (snd (handle_request h route st)) = site_limiter (snd (route (on_site_io (emit [GaugeInc ''app_request_in_progress'']) st)))"
  by (simp_all add: handle_request_def request_context_middleware_def metrics_middleware_def with_domain_handler_def
      domain_exception_handler_def unhandled_exception_handler_def Let_def split: prod.splits sum.splits)

subsection \<open>Properties\<close>


text \<open>Texts for the witnesses.\<close>

definition plain_texts :: text_library where
  "plain_texts = \<lparr>tl_stamp = id, tl_float = (\<lambda>_. ''0''), tl_content_type = ''text/plain'', tl_generate = (\<lambda>_. [])\<rparr>"


text \<open>
  Monitoring leaves the service alone. A request for \<open>/health\<close>, \<open>/ready\<close> or \<open>/metrics\<close>, which
  needs no token, changes no stored history and uses nothing of any tenant's quota, whichever
  adapters are built and whichever calls of the probes fail.
\<close>

theorem probes_harmless:
  assumes "redis_client lib keys" "build_container tr (repo_of lib) (limiter_of lib) settings = Inr ct"
    and "build_session_repo settings = Inr backend" "build_rate_limiter settings = Inr limiter"
    and "authorization_of req = None"
  shows "case handle_request h (endpoint texts settings cached booted ct h now req) st of (resp, st') \<Rightarrow>
    history_in lib keys backend (site_repo st') = history_in lib keys backend (site_repo st) \<and>
    count_in keys limiter (site_limiter st') = count_in keys limiter (site_limiter st)"
proof -
  have ct: "ct_repo ct = repo_of lib backend" "ct_limiter ct = limiter_of lib limiter"
    using built_parts [OF assms(2)] assms(3,4) by (metis sum.inject(2))+
  let ?st = "on_site_io (emit [GaugeInc ''app_request_in_progress'']) st"
  let ?st1 = "snd (endpoint texts settings cached booted ct h now req ?st)"
  have "site_repo ?st1 \<in> {site_repo st, snd (repo_ping (ct_repo ct) (site_repo st))} \<and>
      site_limiter ?st1 \<in> {site_limiter st, snd (lim_ping (ct_limiter ct) (site_limiter st))}"
    using assms(5) ready_parts [where st = ?st and ct = ct and settings = settings and booted = booted and stamp = "tl_stamp texts"]
    by (cases req) (simp_all add: health_endpoint_def metrics_endpoint_def metrics_response_def ready_endpoint_def split_beta)
  moreover have "history_in lib keys backend (snd (repo_ping (ct_repo ct) (site_repo st))) = history_in lib keys backend (site_repo st)"
    using redis_client.ping_keeps_history [OF assms(1) prod.collapse [symmetric]] by (simp add: ct)
  moreover have "count_in keys limiter (snd (lim_ping (ct_limiter ct) (site_limiter st))) = count_in keys limiter (site_limiter st)"
    using redis_client.ping_keeps_counts [OF assms(1) prod.collapse [symmetric]] by (simp add: ct)
  ultimately show ?thesis by (auto simp: split_beta handle_request_parts)
qed

theorem probes_harmless_witness:
  "history_in reference_library rdb_keys (RedisSessions (REDIS_URL redis_settings) (SESSION_TTL_SEC redis_settings))
     (site_repo (snd (handle_request demo_head (endpoint plain_texts redis_settings redis_settings True redis_container demo_head 61 Get_Ready)
       redis_site))) =
   history_in reference_library rdb_keys (RedisSessions (REDIS_URL redis_settings) (SESSION_TTL_SEC redis_settings)) (site_repo redis_site)"
proof -
  have "build_session_repo redis_settings = Inr (RedisSessions (REDIS_URL redis_settings) (SESSION_TTL_SEC redis_settings))"
    "build_rate_limiter redis_settings = Inr (RedisLimiter (REDIS_URL redis_settings))"
    by (simp_all add: build_session_repo_def build_rate_limiter_def)
  from probes_harmless [OF reflib.redis_client_axioms redis_container_built this, where req = Get_Ready and h = demo_head
      and now = 61 and st = redis_site and booted = True and cached = redis_settings and texts = plain_texts]
  show ?thesis by (simp add: split_beta)
qed

text \<open>
  C28: two applications in one process. The application made at the import of \<open>main.py\<close> fills the
  cache of \<open>get_settings\<close>; one made afterwards with settings of its own is built with those, at
  their log level and without a second line per record, but its streams run under the time limit
  of the cached settings, whatever its own \<open>STREAM_TOTAL_TIMEOUT_SEC\<close> says.
\<close>

theorem second_application:
  assumes "import_main read env p = (Inr s0, p1)" "create_app read env1 (Some s) p1 = (Inr s1, p2)"
    and "stream_endpoint ct s1 (the (py_settings p2)) h rq now payload st = (Inr resp, st1)"
  shows "s1 = s \<and> py_settings p2 = Some s0 \<and> sse_timeout (sr_generator resp) = STREAM_TOTAL_TIMEOUT_SEC s0 \<and>
    rl_handlers (py_root p2) = replicate (max 1 (length (rl_handlers (py_root p)))) (Some JsonFormatter) \<and>
    level_number (py_upper (LOG_LEVEL s)) = Some (rl_level (py_root p2))"
proof -
  obtain lg where first: "configure_logging (LOG_LEVEL s0) (py_root p) = (Inr (), lg)" "py_root p1 = lg" "py_settings p1 = Some s0"
    using assms(1) get_settings_Inr [of read env "py_settings p"]
    by (auto simp: import_main_def create_app_def split: prod.splits sum.splits)
  obtain lg2 where second: "configure_logging (LOG_LEVEL s) lg = (Inr (), lg2)" "py_root p2 = lg2" "py_settings p2 = Some s0" "s1 = s"
    using assms(2) first by (auto simp: create_app_def split: prod.splits sum.splits)
  have "sse_timeout (sr_generator resp) = STREAM_TOTAL_TIMEOUT_SEC s0"
    using assms(3) second(3) by (auto simp: stream_endpoint_def stream_query_def split: prod.splits sum.splits)
  with second configure_logging_Inr [OF first(1)] configure_logging_Inr [OF second(1)] show ?thesis
    by (metis configure_logging_again [OF first(1) second(1)])
qed

text \<open>The witness: the default settings are cached, the second application allows five seconds.\<close>

definition bare_process :: python_process where
  "bare_process = \<lparr>py_settings = None, py_root = \<lparr>rl_level = 30, rl_handlers = []\<rparr>\<rparr>"

definition open_settings :: settings where
  "open_settings = default_settings\<lparr>SESSION_BACKEND := ''postgres'', STREAM_TOTAL_TIMEOUT_SEC := 5\<rparr>"

lemma open_settings_sel [simp]:
  "SESSION_BACKEND open_settings = ''postgres''" "RATE_LIMIT_BACKEND open_settings = ''memory''"
  "LLM_PROVIDER open_settings = ''stub''" "TTS_PROVIDER open_settings = ''stub''"
  "\<not> AUTH_ENABLED open_settings" "\<not> RATE_LIMIT_ENABLED open_settings" "LOG_LEVEL open_settings = ''INFO''"
  by (simp_all add: open_settings_def default_settings_def)

definition open_container :: "(redis_db stores, redis_db limits, unit) container" where
  "open_container = projr (build_container refusing_transport (repo_of reference_library) (limiter_of reference_library) open_settings)"

definition stream_payload :: stream_request where
  "stream_payload = \<lparr>sreq_session_id = ''s'', sreq_message = ''hi'', sreq_response_mode = ''text''\<rparr>"

theorem second_application_witness:
  "case stream_endpoint open_container open_settings default_settings demo_head (demo_request ''Bearer k1'') 61 stream_payload redis_site of
     (Inl _, _) \<Rightarrow> False | (Inr resp, _) \<Rightarrow> sse_timeout (sr_generator resp) = 30 \<and> STREAM_TOTAL_TIMEOUT_SEC open_settings = 5"
proof -
  have info: "level_number (py_upper ''INFO'') = Some 20" by code_simp
  let ?lg = "\<lparr>rl_level = 20, rl_handlers = [Some JsonFormatter]\<rparr>"
  let ?p = "\<lparr>py_settings = Some default_settings, py_root = ?lg\<rparr>"
  have level: "LOG_LEVEL default_settings = ''INFO''" by (simp add: default_settings_def)
  have first: "import_main (\<lambda>_. Inr default_settings) () bare_process = (Inr default_settings, ?p)"
    by (simp add: import_main_def create_app_def get_settings_def bare_process_def configure_logging_def info level)
  have second: "create_app (\<lambda>_. Inr default_settings) () (Some open_settings) ?p = (Inr open_settings, ?p)"
    by (simp add: create_app_def configure_logging_def info)
  obtain resp st1 where run: "stream_endpoint open_container open_settings default_settings demo_head
      (demo_request ''Bearer k1'') 61 stream_payload redis_site = (Inr resp, st1)"
    by (simp add: stream_endpoint_def auth_dependency_def authenticate_disabled rate_limit_tenant_def Let_def)
  have "the (py_settings ?p) = default_settings" by simp
  from second_application [OF first second, unfolded this, OF run] run show ?thesis
    by (simp add: open_settings_def default_settings_def)
qed

end
