(* ===== verification/Tracing.thy ===== *)
theory Tracing
  imports Application
begin

text \<open>
  The context variables behind the ids of log lines and error bodies
  (\<open>app/common/tracing/context.py\<close>), in requests served at the same time. The server runs each
  request in a task of its own; the middleware of \<open>main.py\<close> sets the variables in that task, and
  \<open>call_next\<close> runs the route in a further task, which starts with a copy of the context of the
  first. A task reads and sets its own context only. What other theories pass as the ids of a
  request is what the variables hold wherever they are read. The metrics of the HTTP middleware
  (\<open>MetricsMiddleware\<close>), which all requests share, are counted along.
\<close>

subsection \<open>Contexts and tasks\<close>

record context_vars =
  request_id_ctx :: string
  trace_id_ctx :: string

text \<open>The defaults.\<close>

definition no_request :: context_vars where
  "no_request = \<lparr>request_id_ctx = [], trace_id_ctx = []\<rparr>"

text \<open>
  A request in service: in the framework before the middleware, in the middleware before the
  call of the route, in the route, and after the route (in the middleware again, or in the
  handler of unhandled exceptions outside it, which runs in the same task).
\<close>

datatype service_pc = Accepted | Before_Route | In_Route | After_Route

record served_request =
  sv_head :: request_head
  sv_pc :: service_pc
  sv_outer :: context_vars
  sv_inner :: context_vars
  sv_start :: real
  sv_status :: "int option"

definition accept :: "request_head \<Rightarrow> served_request" where
  "accept h = \<lparr>sv_head = h, sv_pc = Accepted, sv_outer = no_request, sv_inner = no_request,
     sv_start = 0, sv_status = None\<rparr>"

text \<open>\<open>request_id_ctx.set(request_id)\<close>, \<open>trace_id_ctx.set(trace_id)\<close>\<close>

definition enter_middleware :: "served_request \<Rightarrow> served_request" where
  "enter_middleware r = r\<lparr>sv_pc := Before_Route,
     sv_outer := (sv_outer r)\<lparr>request_id_ctx := request_id (sv_head r), trace_id_ctx := trace_id (sv_head r)\<rparr>\<rparr>"

text \<open>
  \<open>call_next\<close>, and in the task it starts \<open>MetricsMiddleware.dispatch\<close> as far as the route; then
  the \<open>finally\<close> of \<open>dispatch\<close>, with the status of the response, or 500 where there is none.
\<close>

definition call_next :: "real \<Rightarrow> served_request \<Rightarrow> served_request \<times> metric list" where
  "call_next now r = (r\<lparr>sv_pc := In_Route, sv_inner := sv_outer r, sv_start := now\<rparr>,
     [GaugeInc ''app_request_in_progress''])"

definition request_labels :: "served_request \<Rightarrow> int \<Rightarrow> string list" where
  "request_labels r status_code = [hd_method (sv_head r), hd_path (sv_head r), py_str_int status_code]"

definition route_ends :: "int \<Rightarrow> real \<Rightarrow> served_request \<Rightarrow> served_request \<times> metric list" where
  "route_ends status_code now r = (r\<lparr>sv_pc := After_Route, sv_status := Some status_code\<rparr>,
     [Inc ''app_request_total'' (request_labels r status_code),
      Observe ''app_request_latency_seconds'' [hd_method (sv_head r), hd_path (sv_head r)] (now - sv_start r),
      GaugeDec ''app_request_in_progress''])"

text \<open>The context that \<open>ctx.get()\<close> reads; before the middleware nothing of the program runs.\<close>

definition current_context :: "served_request \<Rightarrow> context_vars option" where
  "current_context r = (case sv_pc r of
       Accepted \<Rightarrow> None | Before_Route \<Rightarrow> Some (sv_outer r) | In_Route \<Rightarrow> Some (sv_inner r) | After_Route \<Rightarrow> Some (sv_outer r))"

subsection \<open>Requests served together\<close>

text \<open>
  The log: the number of the request whose code wrote the line, and the payload. The code of a
  request may log a record at any of its points; the others do not stop it. \<open>Advance i status\<close>
  takes request \<open>i\<close> to its next point; the status counts where its route ends.
\<close>

record service =
  se_requests :: "served_request list"
  se_clock :: real
  se_metrics :: "metric list"
  se_lines :: "(nat \<times> fields) list"

datatype service_move = Advance nat int | Elapse real | Log nat string string string log_entry

definition advance :: "int \<Rightarrow> real \<Rightarrow> served_request \<Rightarrow> served_request \<times> metric list" where
  "advance status_code now r = (case sv_pc r of
       Accepted \<Rightarrow> (enter_middleware r, []) | Before_Route \<Rightarrow> call_next now r
     | In_Route \<Rightarrow> route_ends status_code now r | After_Route \<Rightarrow> (r, []))"

definition service_step :: "service_move \<Rightarrow> service \<Rightarrow> service" where
  "service_step move s = (case move of
       Advance i status_code \<Rightarrow>
         if i < length (se_requests s)
         then (case advance status_code (se_clock s) (se_requests s ! i) of
           (r, ms) \<Rightarrow> s\<lparr>se_requests := (se_requests s)[i := r], se_metrics := se_metrics s @ ms\<rparr>)
         else s
     | Elapse dt \<Rightarrow> s\<lparr>se_clock := se_clock s + max 0 dt\<rparr>
     | Log i timestamp logger exc_text e \<Rightarrow>
         if i < length (se_requests s)
         then (case current_context (se_requests s ! i) of
             None \<Rightarrow> s
           | Some c \<Rightarrow> s\<lparr>se_lines := se_lines s @
               [(i, format_payload timestamp logger (request_id_ctx c) (trace_id_ctx c) exc_text e)]\<rparr>)
         else s)"

definition service_run :: "service_move list \<Rightarrow> service \<Rightarrow> service" where
  "service_run moves s = fold service_step moves s"

definition serve_heads :: "request_head list \<Rightarrow> service" where
  "serve_heads hs = \<lparr>se_requests = map accept hs, se_clock = 0, se_metrics = [], se_lines = []\<rparr>"

subsection \<open>The invariant\<close>

definition context_of :: "request_head \<Rightarrow> context_vars" where
  "context_of h = \<lparr>request_id_ctx = request_id h, trace_id_ctx = trace_id h\<rparr>"

definition request_inv :: "request_head \<Rightarrow> served_request \<Rightarrow> bool" where
  "request_inv h r \<longleftrightarrow> sv_head r = h \<and> (\<forall>c. current_context r = Some c \<longrightarrow> c = context_of h) \<and>
     (sv_pc r \<noteq> Accepted \<longrightarrow> sv_outer r = context_of h)"

definition service_inv :: "request_head list \<Rightarrow> service \<Rightarrow> bool" where
  "service_inv hs s \<longleftrightarrow> list_all2 request_inv hs (se_requests s) \<and>
     (\<forall>(i, line) \<in> set (se_lines s). i < length hs \<and>
        field_get line ''request_id'' = VStr (request_id (hs ! i)) \<and> field_get line ''trace_id'' = VStr (trace_id (hs ! i)))"

lemma advance_inv: "request_inv h r \<Longrightarrow> request_inv h (fst (advance status_code now r))"
  by (cases "sv_pc r") (auto simp: request_inv_def advance_def current_context_def enter_middleware_def call_next_def
      route_ends_def context_of_def)

lemma payload_ids:
  "field_get (format_payload t l rid tid x e) ''request_id'' = VStr rid"
  "field_get (format_payload t l rid tid x e) ''trace_id'' = VStr tid"
  by (simp_all add: format_payload_def field_get_def)

lemma service_step_inv:
  assumes "service_inv hs s"
  shows "service_inv hs (service_step move s)"
proof (cases move)
  case (Advance i status_code)
  let ?r = "fst (advance status_code (se_clock s) (se_requests s ! i))"
  have all: "list_all2 request_inv hs (se_requests s)" using assms by (simp add: service_inv_def)
  have "list_all2 request_inv hs ((se_requests s)[i := ?r])" if "i < length (se_requests s)"
  proof -
    have "i < length hs" using all that by (simp add: list_all2_lengthD)
    then have "list_all2 request_inv (hs[i := hs ! i]) ((se_requests s)[i := ?r])"
      using all that by (intro list_all2_update_cong advance_inv) (simp_all add: list_all2_nthD)
    then show ?thesis by simp
  qed
  then show ?thesis using assms Advance by (simp add: service_inv_def service_step_def split_beta)
next
  case (Elapse dt)
  then show ?thesis using assms by (simp add: service_inv_def service_step_def)
next
  case (Log i t l x e)
  show ?thesis
  proof (cases "i < length (se_requests s)")
    case True
    then have i: "i < length hs" "request_inv (hs ! i) (se_requests s ! i)"
      using assms list_all2_lengthD list_all2_nthD2 by (fastforce simp: service_inv_def)+
    then have "current_context (se_requests s ! i) = Some c \<Longrightarrow> c = context_of (hs ! i)" for c
      by (simp add: request_inv_def)
    then show ?thesis using assms i(1) True Log
      by (auto simp: service_inv_def service_step_def payload_ids context_of_def split: option.splits)
  qed (use assms Log in \<open>simp add: service_step_def\<close>)
qed

subsection \<open>The metrics\<close>

definition in_route :: "served_request \<Rightarrow> bool" where
  "in_route r \<longleftrightarrow> sv_pc r = In_Route"

definition counted_under :: "string list \<Rightarrow> served_request \<Rightarrow> bool" where
  "counted_under labels r \<longleftrightarrow> (case sv_status r of None \<Rightarrow> False | Some status_code \<Rightarrow> request_labels r status_code = labels)"

text \<open>The gauge and the counter are what the requests say they are.\<close>

definition metrics_inv :: "service \<Rightarrow> bool" where
  "metrics_inv s \<longleftrightarrow>
     gauge ''app_request_in_progress'' (se_metrics s) = int (length (filter in_route (se_requests s))) \<and>
     (\<forall>ls. counter ''app_request_total'' ls (se_metrics s) = length (filter (counted_under ls) (se_requests s))) \<and>
     list_all (\<lambda>r. sv_status r \<noteq> None \<longleftrightarrow> sv_pc r = After_Route) (se_requests s)"

lemma length_filter_update:
  "i < length xs \<Longrightarrow> length (filter P (xs[i := x])) + (if P (xs ! i) then 1 else 0) =
     length (filter P xs) + (if P x then 1 else 0)"
proof (induction xs arbitrary: i)
  case (Cons y ys)
  then show ?case by (cases i) auto
qed simp

lemma advance_metrics:
  assumes "advance status_code now r = (r', ms)" "sv_status r \<noteq> None \<longleftrightarrow> sv_pc r = After_Route"
  shows "gauge ''app_request_in_progress'' ms + (if in_route r then 1 else 0) = (if in_route r' then 1 else 0)"
    "counter ''app_request_total'' ls ms + (if counted_under ls r then 1 else 0) = (if counted_under ls r' then 1 else 0)"
    "sv_status r' \<noteq> None \<longleftrightarrow> sv_pc r' = After_Route"
  using assms
  by (auto simp: advance_def call_next_def route_ends_def enter_middleware_def in_route_def counted_under_def request_labels_def
      split: service_pc.splits)

lemma service_step_metrics:
  assumes "metrics_inv s"
  shows "metrics_inv (service_step move s)"
proof (cases move)
  case (Advance i status_code)
  show ?thesis
  proof (cases "i < length (se_requests s)")
    case True
    obtain r ms where adv: "advance status_code (se_clock s) (se_requests s ! i) = (r, ms)" by fastforce
    have status: "sv_status (se_requests s ! i) \<noteq> None \<longleftrightarrow> sv_pc (se_requests s ! i) = After_Route"
      using assms True by (simp add: metrics_inv_def list_all_length)
    note one = advance_metrics [OF adv status]
    have step: "service_step move s = s\<lparr>se_requests := (se_requests s)[i := r], se_metrics := se_metrics s @ ms\<rparr>"
      using True by (simp add: Advance service_step_def adv)
    have "gauge ''app_request_in_progress'' (se_metrics s @ ms) = int (length (filter in_route ((se_requests s)[i := r])))"
      using assms one(1) length_filter_update [OF True, of in_route r] by (auto simp: metrics_inv_def split: if_splits)
    moreover have "counter ''app_request_total'' ls (se_metrics s @ ms) =
        length (filter (counted_under ls) ((se_requests s)[i := r]))" for ls
      using assms one(2) [of ls] length_filter_update [OF True, of "counted_under ls" r]
      by (auto simp: metrics_inv_def split: if_splits)
    moreover have "list_all (\<lambda>r. sv_status r \<noteq> None \<longleftrightarrow> sv_pc r = After_Route) ((se_requests s)[i := r])"
      using assms one(3) True by (auto simp: metrics_inv_def list_all_length nth_list_update)
    ultimately show ?thesis by (simp add: metrics_inv_def step)
  qed (use assms Advance in \<open>simp add: service_step_def\<close>)
next
  case (Elapse dt)
  then show ?thesis using assms by (simp add: metrics_inv_def service_step_def)
next
  case (Log i t l x e)
  then show ?thesis using assms by (simp add: metrics_inv_def service_step_def split: option.split)
qed

subsection \<open>Properties\<close>

text \<open>
  C40: the ids of log lines. However requests served at the same time interleave, every line that
  the code of a request writes, in the route, in the middleware or in the handler of unhandled
  exceptions, carries the request id and the trace id of that request, and never those of
  another one or none.
\<close>

theorem log_lines_attributed:
  assumes "(i, line) \<in> set (se_lines (service_run moves (serve_heads hs)))"
  shows "i < length hs \<and> field_get line ''request_id'' = VStr (request_id (hs ! i)) \<and>
    field_get line ''trace_id'' = VStr (trace_id (hs ! i))"
proof -
  have run: "service_inv hs s \<Longrightarrow> service_inv hs (service_run moves s)" for s
    by (induction moves arbitrary: s) (simp_all add: service_run_def service_step_inv)
  have "service_inv hs (serve_heads hs)"
    by (simp add: service_inv_def serve_heads_def list_all2_map2 list.rel_refl_strong request_inv_def accept_def current_context_def)
  from run [OF this] assms show ?thesis by (auto simp: service_inv_def)
qed

theorem log_lines_attributed_witness:
  "case se_lines (service_run [Advance 0 200, Advance 1 200, Advance 0 200, Log 1 [] [] [] \<lparr>log_level = ''INFO'', log_message = [], log_fields = [], log_exc_info = False\<rparr>]
      (serve_heads [demo_head, demo_head\<lparr>hd_fresh_request_id := ''r2''\<rparr>])) of
     [(i, line)] \<Rightarrow> i = 1 \<and> field_get line ''request_id'' = VStr ''r2'' | _ \<Rightarrow> False"
proof -
  let ?e = "\<lparr>log_level = ''INFO'', log_message = [], log_fields = [], log_exc_info = False\<rparr>"
  let ?hs = "[demo_head, demo_head\<lparr>hd_fresh_request_id := ''r2''\<rparr>]"
  let ?moves = "[Advance 0 200, Advance 1 200, Advance 0 200, Log 1 [] [] [] ?e]"
  obtain line where lines: "se_lines (service_run ?moves (serve_heads ?hs)) = [(1, line)]"
    by (simp add: service_run_def service_step_def serve_heads_def advance_def accept_def enter_middleware_def call_next_def
        current_context_def)
  have "request_id (demo_head\<lparr>hd_fresh_request_id := ''r2''\<rparr>) = ''r2''"
    by (simp add: request_id_def header_or_def demo_head_def)
  then show ?thesis using log_lines_attributed [where i = 1 and line = line and moves = ?moves and hs = ?hs] lines by simp
qed

text \<open>
  C36: the metrics of requests served together. However they interleave, the gauge is at every
  moment the number of requests between the two ends of their routes, so that it is back at zero
  once they are through, and the counter has, for each method, path and status, exactly the
  requests answered so.
\<close>

theorem requests_accounted:
  "let s = service_run moves (serve_heads hs) in
     gauge ''app_request_in_progress'' (se_metrics s) = int (length (filter in_route (se_requests s))) \<and>
     counter ''app_request_total'' labels (se_metrics s) = length (filter (counted_under labels) (se_requests s))"
proof -
  have run: "metrics_inv s \<Longrightarrow> metrics_inv (service_run moves s)" for s
    by (induction moves arbitrary: s) (simp_all add: service_run_def service_step_metrics)
  have "metrics_inv (serve_heads hs)"
    by (simp add: metrics_inv_def serve_heads_def list_all_iff accept_def in_route_def counted_under_def filter_empty_conv)
  from run [OF this] show ?thesis by (simp add: metrics_inv_def Let_def)
qed

end
