(* ===== verification/Concurrent_Chats.thy ===== *)
theory Concurrent_Chats
  imports Chat_Routes Postgres_Store "HOL-Library.Multiset"
begin

text \<open>
  Requests served at the same time. A chat gives way to others at its awaits (the read of the
  history, the call of the model, the append of the turn, the synthesis); \<open>chat_step\<close> is \<open>chat\<close>
  cut at these points. A stream gives way at each \<open>yield\<close>; its pieces are those of
  \<open>stream_next\<close>. The relation \<open>chats_step\<close> lets any of the running requests take its next
  piece, with the providers in any state at that moment.
\<close>

subsection \<open>A chat in pieces\<close>

record chat_call =
  call_session_id :: string
  call_message :: string
  call_audio :: bool
  call_voice :: tts_args

datatype chat_pc =
    Chat_Start
  | Chat_Prompt "chat_message list"
  | Chat_Reply string
  | Chat_Speak string
  | Chat_Done "exn + chat_result"

fun chat_step :: "('s, 'n) chat_service \<Rightarrow> chat_call \<Rightarrow> chat_pc \<Rightarrow> ('s, 'n) app \<Rightarrow> chat_pc \<times> ('s, 'n) app" where
  "chat_step svc c Chat_Start a =
     (if py_strip (call_message c) = [] then (Chat_Done (Inl empty_message_error), a)
      else case repo_get_history (svc_repo svc) (call_session_id c) (app_repo a) of
          (Inl e, s1) \<Rightarrow> (Chat_Done (Inl e), a\<lparr>app_repo := s1\<rparr>)
        | (Inr history, s1) \<Rightarrow>
            (Chat_Prompt (build_prompt_history history (call_message c) (svc_max_history_turns svc)), a\<lparr>app_repo := s1\<rparr>))"
| "chat_step svc c (Chat_Prompt prompt_messages) a =
     (case llm_generate (svc_llm svc) prompt_messages (app_io a) of
          (Inl e, w1) \<Rightarrow> (Chat_Done (Inl e), a\<lparr>app_io := w1\<rparr>)
        | (Inr assistant_text, w1) \<Rightarrow>
            (if assistant_text = [] then Chat_Done (Inl empty_response_error) else Chat_Reply assistant_text,
             a\<lparr>app_io := w1\<rparr>))"
| "chat_step svc c (Chat_Reply assistant_text) a =
     (case store_turn svc (call_session_id c) (call_message c) assistant_text (app_repo a) of
          (Inl e, s1) \<Rightarrow> (Chat_Done (Inl e), a\<lparr>app_repo := s1\<rparr>)
        | (Inr _, s1) \<Rightarrow>
            (if call_audio c then Chat_Speak assistant_text
             else Chat_Done (Inr \<lparr>res_text = assistant_text, res_audio_url = None\<rparr>), a\<lparr>app_repo := s1\<rparr>))"
| "chat_step svc c (Chat_Speak assistant_text) a =
     (case tts_synthesize (svc_tts svc) ((call_voice c)\<lparr>tts_text := assistant_text\<rparr>) (app_io a) of
          (Inl e, w1) \<Rightarrow> (Chat_Done (Inl e), a\<lparr>app_io := w1\<rparr>)
        | (Inr audio_url, w1) \<Rightarrow>
            (Chat_Done (Inr \<lparr>res_text = assistant_text, res_audio_url = Some audio_url\<rparr>), a\<lparr>app_io := w1\<rparr>))"
| "chat_step svc c (Chat_Done r) a = (Chat_Done r, a)"

text \<open>How many pieces a chat has left, at most.\<close>

fun pieces_left :: "chat_pc \<Rightarrow> nat" where
  "pieces_left Chat_Start = 4"
| "pieces_left (Chat_Prompt _) = 3"
| "pieces_left (Chat_Reply _) = 2"
| "pieces_left (Chat_Speak _) = 1"
| "pieces_left (Chat_Done _) = 0"

lemma chat_step_left: "chat_step svc c pc a = (pc', a') \<Longrightarrow> pieces_left pc \<noteq> 0 \<Longrightarrow> pieces_left pc' < pieces_left pc"
  by (cases pc) (auto split: if_splits prod.splits sum.splits)

subsection \<open>Several requests\<close>

text \<open>
  A request being served: a chat at one of its pieces, or a stream with its generator at one of
  its \<open>yield\<close>s and the events it has sent. Between two events a stream reads the history or
  appends the turn at most once, and only calls the model besides, so this is one piece. A
  stream that is cancelled, closed or cut off by its timeout is one that takes no further piece.
\<close>

datatype task =
    Chatting chat_call chat_pc
  | Replying sse_request gen_state "stream_event list"

fun task_step :: "('s, 'n) chat_service \<Rightarrow> task \<Rightarrow> ('s, 'n) app \<Rightarrow> task \<times> ('s, 'n) app" where
  "task_step svc (Chatting c pc) a = (case chat_step svc c pc a of (pc', a') \<Rightarrow> (Chatting c pc', a'))"
| "task_step svc (Replying q g sent) a =
     (case stream_next svc (sse_session_id q) (sse_message q) (sse_request_id q) (sse_trace_id q) g a of
        (StopAsyncIteration, g', a') \<Rightarrow> (Replying q g' sent, a')
      | (Event ev, g', a') \<Rightarrow> (Replying q g' (sent @ [ev]), a'))"

fun task_live :: "task \<Rightarrow> bool" where
  "task_live (Chatting c pc) \<longleftrightarrow> pieces_left pc \<noteq> 0"
| "task_live (Replying q g sent) \<longleftrightarrow> g \<noteq> Finishing"

text \<open>What a request asks for, the same at all its pieces.\<close>

type_synonym call = "chat_call + sse_request"

fun call_of :: "task \<Rightarrow> call" where
  "call_of (Chatting c pc) = Inl c"
| "call_of (Replying q g sent) = Inr q"

fun new_task :: "call \<Rightarrow> task" where
  "new_task (Inl c) = Chatting c Chat_Start"
| "new_task (Inr q) = Replying q Unstarted []"

definition session_of :: "call \<Rightarrow> string" where
  "session_of c = case_sum call_session_id sse_session_id c"

definition message_of :: "call \<Rightarrow> string" where
  "message_of c = case_sum call_message sse_message c"

text \<open>The reply that a piece stores with the user's message, where it stores one.\<close>

fun stored_reply :: "task \<Rightarrow> task \<Rightarrow> string option" where
  "stored_reply (Chatting c pc) (Chatting c' pc') = (case pc of
       Chat_Reply reply \<Rightarrow> (case pc' of Chat_Done (Inl _) \<Rightarrow> None | _ \<Rightarrow> Some reply)
     | _ \<Rightarrow> None)"
| "stored_reply (Replying q g sent) (Replying q' g' sent') =
     (if done_event \<in> set sent' then Some (py_strip (concat (sent_chunks g))) else None)"
| "stored_reply _ _ = None"

text \<open>
  The requests with the piece each is at, the state they share, and the turns stored so far: the
  number of the request and the reply, in the order of the appends. Any live request takes the
  next piece, with the providers and the clock in any state at that moment.
\<close>

record ('s, 'n) chats =
  ch_tasks :: "task list"
  ch_app :: "('s, 'n) app"
  ch_stored :: "(nat \<times> string) list"

inductive chats_step :: "('s, 'n) chat_service \<Rightarrow> ('s, 'n) chats \<Rightarrow> ('s, 'n) chats \<Rightarrow> bool" for svc where
  piece: "i < length (ch_tasks g) \<Longrightarrow> ch_tasks g ! i = t \<Longrightarrow> task_live t \<Longrightarrow>
    task_step svc t ((ch_app g)\<lparr>app_io := w\<rparr>) = (t', a') \<Longrightarrow>
    chats_step svc g (g\<lparr>ch_tasks := (ch_tasks g)[i := t'], ch_app := a',
      ch_stored := ch_stored g @ map (Pair i) (option_list (stored_reply t t'))\<rparr>)"

inductive chats_run :: "('s, 'n) chat_service \<Rightarrow> ('s, 'n) chats \<Rightarrow> ('s, 'n) chats \<Rightarrow> bool" for svc where
  idle: "chats_run svc g g"
| move: "chats_run svc g g1 \<Longrightarrow> chats_step svc g1 g2 \<Longrightarrow> chats_run svc g g2"

inductive_cases chats_stepE: "chats_step svc g g'"

definition chats_start :: "call list \<Rightarrow> ('s, 'n) app \<Rightarrow> ('s, 'n) chats" where
  "chats_start calls a = \<lparr>ch_tasks = map new_task calls, ch_app = a, ch_stored = []\<rparr>"

text \<open>The messages of the stored turns of one session, in the order of the appends.\<close>

definition turns_of :: "call list \<Rightarrow> string \<Rightarrow> (nat \<times> string) list \<Rightarrow> chat_message list" where
  "turns_of calls x stored = concat (map (\<lambda>(i, reply).
     if session_of (calls ! i) = x then [user_msg (message_of (calls ! i)), assistant_msg reply] else []) stored)"

lemma turns_of_snoc: "turns_of calls x (stored @ [(i, reply)]) = turns_of calls x stored @
  (if session_of (calls ! i) = x then [user_msg (message_of (calls ! i)), assistant_msg reply] else [])"
  by (simp add: turns_of_def)

lemma turns_of_Nil [simp]: "turns_of calls x [] = []"
  by (simp add: turns_of_def)

lemma call_of_simps [simp]: "call_of (new_task c) = c" "task_step svc t a = (t', a') \<Longrightarrow> call_of t' = call_of t"
  by (cases c; simp) (cases t; auto split: prod.splits gen_yield.splits)

text \<open>
  What a requester has been told agrees with what is stored: a chat that returned has stored its
  reply; one without audio that raised has stored nothing; a stream has sent its start, its
  chunks in order and at most one last event, and has stored exactly the chunks it sent where
  that event is \<open>done\<close>, nothing otherwise.
\<close>

fun agrees :: "(nat \<times> string) list \<Rightarrow> nat \<Rightarrow> task \<Rightarrow> bool" where
  "agrees stored i (Chatting c pc) \<longleftrightarrow> (case pc of
       Chat_Done (Inr res) \<Rightarrow> (i, res_text res) \<in> set stored
     | Chat_Done (Inl e) \<Rightarrow> call_audio c \<or> i \<notin> fst ` set stored
     | _ \<Rightarrow> True)"
| "agrees stored i (Replying q g sent) \<longleftrightarrow> sent = [] \<and> i \<notin> fst ` set stored \<or>
     (\<exists>deltas ending. sent = start_event (sse_request_id q) (sse_trace_id q) (sse_session_id q) #
          token_events 0 deltas @ option_list ending \<and> [] \<notin> set deltas \<and>
        (if ending = Some done_event then (i, py_strip (concat deltas)) \<in> set stored else i \<notin> fst ` set stored))"

subsection \<open>The invariant\<close>

text \<open>Where a request stands and whether its turn is stored: not before the append, once after it.\<close>

fun task_ok :: "(nat \<times> string) list \<Rightarrow> nat \<Rightarrow> task \<Rightarrow> bool" where
  "task_ok stored i (Chatting c pc) \<longleftrightarrow> (case pc of
       Chat_Speak reply \<Rightarrow> call_audio c \<and> (i, reply) \<in> set stored
     | Chat_Done (Inr res) \<Rightarrow> (i, res_text res) \<in> set stored
     | Chat_Done (Inl e) \<Rightarrow> call_audio c \<or> i \<notin> fst ` set stored
     | _ \<Rightarrow> i \<notin> fst ` set stored)"
| "task_ok stored i (Replying q g sent) \<longleftrightarrow>
     (let start = start_event (sse_request_id q) (sse_trace_id q) (sse_session_id q) in
      if g = Unstarted then sent = [] \<and> i \<notin> fst ` set stored
      else if g = Finishing then \<exists>ds ev. sent = start # token_events 0 ds @ [ev] \<and> [] \<notin> set ds \<and>
        (if ev = done_event then (i, py_strip (concat ds)) \<in> set stored else i \<notin> fst ` set stored)
      else sent = start # token_events 0 (sent_chunks g) \<and> [] \<notin> set (sent_chunks g) \<and>
        tokens_sent g = length (sent_chunks g) \<and> i \<notin> fst ` set stored)"

lemma task_ok_new: "task_ok [] i (new_task c)"
  by (cases c) simp_all

lemma task_ok_other: "task_ok stored j t \<Longrightarrow> j \<noteq> i \<Longrightarrow> task_ok (stored @ map (Pair i) rs) j t"
  by (cases t) (force simp: Let_def split: chat_pc.splits sum.splits if_splits)+

lemma task_ok_agrees:
  assumes "task_ok stored i t"
  shows "agrees stored i t"
proof (cases t)
  case (Chatting c pc)
  with assms show ?thesis by (auto split: chat_pc.splits sum.splits)
next
  case (Replying q g sent)
  let ?start = "start_event (sse_request_id q) (sse_trace_id q) (sse_session_id q)"
  have said: "agrees stored i t" if "sent = ?start # token_events 0 ds @ option_list ending" "[] \<notin> set ds"
    "if ending = Some done_event then (i, py_strip (concat ds)) \<in> set stored else i \<notin> fst ` set stored" for ds ending
    using that unfolding Replying agrees.simps by blast
  consider "g = Unstarted" | "g = Finishing" | "g \<noteq> Unstarted" "g \<noteq> Finishing" by blast
  then show ?thesis
  proof cases
    case 1
    with assms Replying show ?thesis by simp
  next
    case 2
    with assms Replying obtain ds ev where "sent = ?start # token_events 0 ds @ [ev]" "[] \<notin> set ds"
      "if ev = done_event then (i, py_strip (concat ds)) \<in> set stored else i \<notin> fst ` set stored"
      unfolding Replying task_ok.simps Let_def by auto
    then show ?thesis by (intro said [of ds "Some ev"]) simp_all
  next
    case 3
    with assms Replying show ?thesis by (intro said [of "sent_chunks g" None]) (simp_all add: Let_def)
  qed
qed

text \<open>Events of a stream that is not at its end.\<close>

lemma token_events_snoc: "[] \<notin> set cs \<Longrightarrow> d \<noteq> [] \<Longrightarrow> token_events n (cs @ [d]) = token_events n cs @ [token_event d (Suc (n + length cs))]"
  by (induction cs arbitrary: n) auto

lemma done_not_sent [simp]: "done_event \<noteq> token_event d n" "done_event \<notin> set (token_events n ds)"
  "done_event \<noteq> start_event r t s" "done_event \<noteq> error_event c m" "error_event c m \<noteq> done_event"
proof -
  show token: "done_event \<noteq> token_event d n" for d n using token_not_last by metis
  show "done_event \<notin> set (token_events n ds)"
    by (induction n ds rule: token_events.induct) (auto simp: token)
  show "done_event \<noteq> start_event r t s"
  proof
    assume "done_event = start_event r t s"
    then have "ev_event done_event = ev_event (start_event r t s)" by simp
    then show False by simp
  qed
  show *: "error_event c m \<noteq> done_event"
  proof
    assume "error_event c m = done_event"
    then have "ev_event (error_event c m) = ev_event done_event" by simp
    then show False by simp
  qed
  from * show "done_event \<noteq> error_event c m" by metis
qed

context session_repository
begin

text \<open>A piece keeps the contract applicable.\<close>

lemma store_turn_ready:
  assumes "svc_repo svc = port" "store_turn svc sid um reply s = (r, s')" "ready s x"
  shows "ready s' x"
  using append_ready [OF assms(2) [unfolded store_turn_def assms(1)] assms(3)] .

lemma stream_finish_ready:
  assumes "svc_repo svc = port" "ready (app_repo a) x"
  shows "ready (app_repo (snd (snd (stream_finish svc sid um cs a)))) x"
  using assms by (auto simp: stream_finish_def Let_def split: prod.splits sum.splits dest: store_turn_ready [OF assms(1)])

lemma stream_tokens_ready:
  assumes "svc_repo svc = port" "ready (app_repo a) x"
  shows "ready (app_repo (snd (snd (stream_tokens svc sid um pending after_end n cs a)))) x"
  using stream_tokens_step [of svc sid um pending after_end n cs a] stream_finish_ready [OF assms] assms(2)
  by (auto simp: stream_close_def split: option.splits)

lemma task_step_ready:
  assumes "task_step svc t a = (t', a')" "svc_repo svc = port" "ready (app_repo a) x"
  shows "ready (app_repo a') x"
proof (cases t)
  case (Chatting c pc)
  show ?thesis
  proof (cases pc)
    case Chat_Start
    with Chatting assms show ?thesis
      by (auto split: if_splits prod.splits sum.splits dest: get_keeps [folded assms(2)])
  next
    case (Chat_Reply reply)
    with Chatting assms show ?thesis
      by (auto split: if_splits prod.splits sum.splits dest: store_turn_ready [OF assms(2)])
  qed (use Chatting assms in \<open>auto split: if_splits prod.splits sum.splits\<close>)
next
  case (Replying q g sent)
  have "ready (app_repo (snd (snd (stream_next svc (sse_session_id q) (sse_message q) (sse_request_id q) (sse_trace_id q) g a)))) x"
  proof (cases g)
    case Started
    show ?thesis using assms(2,3) get_keeps [folded assms(2), of "sse_session_id q" "app_repo a"]
      by (auto simp: Started stream_open_def split: prod.splits sum.splits intro!: stream_tokens_ready [OF assms(2)])
  qed (use assms stream_tokens_ready in simp_all)
  with Replying assms(1) show ?thesis by (auto split: prod.splits gen_yield.splits)
qed

text \<open>
  A piece either stores nothing and leaves every history alone, or stores the turn of its
  request, which was not stored before.
\<close>

definition piece_effect :: "('s, 'n) chat_service \<Rightarrow> call \<Rightarrow> string option \<Rightarrow> 's \<Rightarrow> 's \<Rightarrow> bool" where
  "piece_effect svc c stored s s' \<longleftrightarrow> (case stored of
      None \<Rightarrow> history s' = history s
    | Some reply \<Rightarrow> history s' = (history s)(session_of c := keep_recent (history_limit svc)
        (history s (session_of c) @ [user_msg (message_of c), assistant_msg reply])))"

lemma chat_piece:
  assumes "chat_step svc c pc a = (pc', a')" "svc_repo svc = port" "ready (app_repo a) (call_session_id c)"
    and "task_ok stored i (Chatting c pc)" "pieces_left pc \<noteq> 0"
  defines "new \<equiv> stored_reply (Chatting c pc) (Chatting c pc')"
  shows "piece_effect svc (Inl c) new (app_repo a) (app_repo a')"
    and "new \<noteq> None \<Longrightarrow> i \<notin> fst ` set stored"
    and "task_ok (stored @ map (Pair i) (option_list new)) i (Chatting c pc')"
proof -
  show "piece_effect svc (Inl c) new (app_repo a) (app_repo a')"
  proof (cases pc)
    case Chat_Start
    with assms(1) show ?thesis unfolding new_def
      by (auto simp: piece_effect_def split: if_splits prod.splits sum.splits dest: get_keeps [folded assms(2)])
  next
    case (Chat_Reply reply)
    obtain r s1 where st: "store_turn svc (call_session_id c) (call_message c) reply (app_repo a) = (r, s1)" by fastforce
    show ?thesis
    proof (cases r)
      case (Inl e)
      with Chat_Reply assms(1) st store_turn_Inl(1) [OF assms(2) st [unfolded Inl]] show ?thesis
        by (auto simp: piece_effect_def new_def)
    next
      case (Inr u)
      with Chat_Reply assms(1) st store_turn_Inr [OF assms(2) st [unfolded Inr] assms(3)] show ?thesis
        by (auto simp: piece_effect_def new_def session_of_def message_of_def split: if_splits)
    qed
  qed (use assms(1) in \<open>auto simp: piece_effect_def new_def split: if_splits prod.splits sum.splits\<close>)
  show "new \<noteq> None \<Longrightarrow> i \<notin> fst ` set stored"
    using assms(4) by (cases pc) (simp_all add: new_def)
  show "task_ok (stored @ map (Pair i) (option_list new)) i (Chatting c pc')"
    using assms(1,4,5) by (cases pc) (auto simp: new_def split: if_splits prod.splits sum.splits)
qed

lemma stream_piece:
  assumes "stream_next svc (sse_session_id q) (sse_message q) (sse_request_id q) (sse_trace_id q) g a = (y, g', a')"
    and "svc_repo svc = port" "ready (app_repo a) (sse_session_id q)" "task_ok stored i (Replying q g sent)" "g \<noteq> Finishing"
  obtains ev new where "y = Event ev" "new = stored_reply (Replying q g sent) (Replying q g' (sent @ [ev]))"
    "piece_effect svc (Inr q) new (app_repo a) (app_repo a')" "i \<notin> fst ` set stored"
    "task_ok (stored @ map (Pair i) (option_list new)) i (Replying q g' (sent @ [ev]))"
proof (cases "g = Unstarted")
  case True
  with assms(1,4) show thesis by (intro that [of _ None]) (simp_all add: piece_effect_def)
next
  case False
  let ?start = "start_event (sse_request_id q) (sse_trace_id q) (sse_session_id q)"
  have sent: "sent = ?start # token_events 0 (sent_chunks g)" "[] \<notin> set (sent_chunks g)"
    "tokens_sent g = length (sent_chunks g)" "i \<notin> fst ` set stored"
    using False assms(4,5) by (simp_all add: Let_def)
  have "in_loop g" using False assms(5) by (cases g) simp_all
  from assms(1) this assms(2,3) show thesis
  proof (cases rule: stream_step)
    case (token d)
    moreover have "g' \<noteq> Unstarted" "g' \<noteq> Finishing" using token(3) by auto
    ultimately show thesis using sent token_events_snoc [OF sent(2) token(2), of 0]
      by (intro that [of "token_event d (Suc (tokens_sent g))" None]) (auto simp: piece_effect_def Let_def)
  next
    case (ending ev)
    then consider "ev = done_event" "piece_effect svc (Inr q) (Some (py_strip (concat (sent_chunks g)))) (app_repo a) (app_repo a')"
      | code message where "ev = error_event code message" "piece_effect svc (Inr q) None (app_repo a) (app_repo a')"
      by (auto simp: turn_fate_def piece_effect_def session_of_def message_of_def)
    then show thesis
    proof cases
      case 1
      with ending sent show thesis
        by (intro that [of ev "Some (py_strip (concat (sent_chunks g)))"]) (auto simp: Let_def)
    next
      case 2
      with ending sent show thesis by (intro that [of ev None]) (auto simp: Let_def)
    qed
  qed
qed

lemma task_piece:
  assumes "task_step svc t a = (t', a')" "svc_repo svc = port" "ready (app_repo a) (session_of (call_of t))"
    and "task_ok stored i t" "task_live t"
  shows "piece_effect svc (call_of t) (stored_reply t t') (app_repo a) (app_repo a')"
    and "stored_reply t t' \<noteq> None \<Longrightarrow> i \<notin> fst ` set stored"
    and "task_ok (stored @ map (Pair i) (option_list (stored_reply t t'))) i t'"
proof -
  have "piece_effect svc (call_of t) (stored_reply t t') (app_repo a) (app_repo a') \<and>
    (stored_reply t t' \<noteq> None \<longrightarrow> i \<notin> fst ` set stored) \<and>
    task_ok (stored @ map (Pair i) (option_list (stored_reply t t'))) i t'"
  proof (cases t)
    case (Chatting c pc)
    obtain pc' where step: "chat_step svc c pc a = (pc', a')" "t' = Chatting c pc'"
      using assms(1) Chatting by (auto split: prod.splits)
    have rdy: "ready (app_repo a) (call_session_id c)" using assms(3) Chatting by (simp add: session_of_def)
    have ok: "task_ok stored i (Chatting c pc)" "pieces_left pc \<noteq> 0" using assms(4,5) by (simp_all only: Chatting task_live.simps not_False_eq_True)
    show ?thesis
      using chat_piece [OF step(1) assms(2) rdy ok] by (simp only: Chatting step(2) call_of.simps) blast
  next
    case (Replying q g sent)
    obtain y g' b where n: "stream_next svc (sse_session_id q) (sse_message q) (sse_request_id q) (sse_trace_id q) g a = (y, g', b)"
      by (metis surj_pair)
    have rdy: "ready (app_repo a) (sse_session_id q)" using assms(3) Replying by (simp add: session_of_def)
    have ok: "task_ok stored i (Replying q g sent)" "g \<noteq> Finishing" using assms(4,5) by (simp_all only: Replying task_live.simps not_False_eq_True)
    obtain ev new where p: "y = Event ev" "new = stored_reply (Replying q g sent) (Replying q g' (sent @ [ev]))"
      "piece_effect svc (Inr q) new (app_repo a) (app_repo b)" "i \<notin> fst ` set stored"
      "task_ok (stored @ map (Pair i) (option_list new)) i (Replying q g' (sent @ [ev]))"
      by (rule stream_piece [OF n assms(2) rdy ok])
    have "t' = Replying q g' (sent @ [ev])" "a' = b" using assms(1) n by (simp_all add: Replying p(1))
    with p show ?thesis by (simp only: Replying call_of.simps) blast
  qed
  then show "piece_effect svc (call_of t) (stored_reply t t') (app_repo a) (app_repo a')"
    "stored_reply t t' \<noteq> None \<Longrightarrow> i \<notin> fst ` set stored"
    "task_ok (stored @ map (Pair i) (option_list (stored_reply t t'))) i t'" by blast+
qed

end

context session_repository
begin

definition chats_inv :: "('s, 'n) chat_service \<Rightarrow> call list \<Rightarrow> 's \<Rightarrow> ('s, 'n) chats \<Rightarrow> bool" where
  "chats_inv svc calls s0 g \<longleftrightarrow> map call_of (ch_tasks g) = calls \<and> distinct (map fst (ch_stored g)) \<and>
     fst ` set (ch_stored g) \<subseteq> {..<length calls} \<and>
     (\<forall>i < length calls. task_ok (ch_stored g) i (ch_tasks g ! i)) \<and>
     (\<forall>x. ready (app_repo (ch_app g)) x \<and> history (app_repo (ch_app g)) x =
        keep_recent (history_limit svc) (history s0 x @ turns_of calls x (ch_stored g)))"

lemma chats_inv_start:
  assumes "\<And>x. int (length (history (app_repo a) x)) \<le> history_limit svc" "\<And>x. ready (app_repo a) x"
  shows "chats_inv svc calls (app_repo a) (chats_start calls a)"
proof -
  have "keep_recent (history_limit svc) (history (app_repo a) x) = history (app_repo a) x" for x
    using assms(1) [of x] by (intro keep_recent_all) linarith
  then show ?thesis using assms(2) by (simp add: chats_inv_def chats_start_def task_ok_new comp_def)
qed

lemma chats_inv_step:
  assumes "chats_step svc g g'" "svc_repo svc = port" "chats_inv svc calls s0 g"
  shows "chats_inv svc calls s0 g'"
  using assms(1)
proof (cases rule: chats_step.cases)
  case (piece i t w t' a')
  let ?stored = "stored_reply t t'" and ?a = "(ch_app g)\<lparr>app_io := w\<rparr>"
  let ?new = "map (Pair i) (option_list ?stored)"
  have i: "i < length calls" and len: "length (ch_tasks g) = length calls"
    using assms(3) piece(2) unfolding chats_inv_def by auto
  have call: "call_of t = calls ! i" using assms(3) piece(2,3) unfolding chats_inv_def by auto
  have ok: "task_ok (ch_stored g) i t" using assms(3) i piece(3) by (auto simp: chats_inv_def)
  have "ready (app_repo ?a) (session_of (call_of t))" using assms(3) by (simp add: chats_inv_def)
  note p = task_piece [OF piece(5) assms(2) this ok piece(4)]
  have "map call_of (ch_tasks g') = calls"
    using assms(3) piece(2,3) call_of_simps(2) [OF piece(5)]
    by (simp add: piece(1) chats_inv_def map_update) (metis call list_update_id)
  moreover have "task_ok (ch_stored g @ ?new) j (ch_tasks g' ! j)" if "j < length calls" for j
    using assms(3) that p(3) i len by (cases "j = i") (simp_all add: piece(1) chats_inv_def task_ok_other)
  moreover have "ready (app_repo a') x" for x
    using task_step_ready [OF piece(5) assms(2)] assms(3) by (simp add: chats_inv_def)
  moreover have "history (app_repo a') x =
      keep_recent (history_limit svc) (history s0 x @ turns_of calls x (ch_stored g @ ?new))" for x
  proof (cases ?stored)
    case None
    with p(1) assms(3) show ?thesis by (simp add: piece_effect_def chats_inv_def)
  next
    case (Some reply)
    with p(1) assms(3) show ?thesis
      by (simp add: piece_effect_def chats_inv_def turns_of_snoc call keep_recent_append flip: append_assoc)
  qed
  ultimately show ?thesis using assms(3) p(2) i
    by (cases ?stored) (simp_all add: chats_inv_def piece(1))
qed

lemma chats_inv_run:
  assumes "chats_run svc g g'" "svc_repo svc = port" "chats_inv svc calls s0 g"
  shows "chats_inv svc calls s0 g'"
  using assms by (induction rule: chats_run.induct) (auto intro: chats_inv_step)

end

context session_repository
begin

lemma chats_keep:
  assumes "svc_repo svc = port" "\<And>x. int (length (history (app_repo a) x)) \<le> history_limit svc" "\<And>x. ready (app_repo a) x"
    and "chats_run svc (chats_start calls a) g"
  shows "map call_of (ch_tasks g) = calls \<and> distinct (map fst (ch_stored g)) \<and>
    (\<forall>x. history (app_repo (ch_app g)) x =
      keep_recent (history_limit svc) (history (app_repo a) x @ turns_of calls x (ch_stored g))) \<and>
    (\<forall>i < length calls. agrees (ch_stored g) i (ch_tasks g ! i))"
proof -
  have "chats_inv svc calls (app_repo a) g"
    using chats_inv_run [OF assms(4,1)] chats_inv_start [of a svc calls] assms(2,3) by blast
  then show ?thesis unfolding chats_inv_def using task_ok_agrees by blast
qed

end

subsection \<open>Every request comes to its end\<close>

fun task_size :: "task \<Rightarrow> nat \<times> nat" where
  "task_size (Chatting c pc) = (pieces_left pc, 0)"
| "task_size (Replying q g sent) = (gen_phase g, gen_pending g)"

lemma stream_next_Event: "g \<noteq> Finishing \<Longrightarrow> \<exists>ev g' a'. stream_next svc sid um rid tid g a = (Event ev, g', a')"
proof (cases g)
  case Started
  have "\<exists>ev g' a'. stream_tokens svc sid um pending after_end n cs b = (Event ev, g', a')" for pending after_end n cs b
    using stream_tokens_step [of svc sid um pending after_end n cs b] by (metis stream_close_shape)
  with Started show ?thesis by (auto simp: stream_open_def stream_fail_def split: prod.splits sum.splits)
next
  case (Streaming pending after_end n cs)
  then show ?thesis using stream_tokens_step [of svc sid um pending after_end n cs a]
    by (simp) (metis stream_close_shape)
qed simp_all

lemma task_step_smaller:
  assumes "task_step svc t a = (t', a')" "task_live t"
  shows "(task_size t', task_size t) \<in> less_than <*lex*> less_than"
proof (cases t)
  case (Chatting c pc)
  with assms show ?thesis by (auto dest: chat_step_left split: prod.splits)
next
  case (Replying q g sent)
  obtain ev g' b where n: "stream_next svc (sse_session_id q) (sse_message q) (sse_request_id q) (sse_trace_id q) g a = (Event ev, g', b)"
    using stream_next_Event assms(2) Replying by (metis task_live.simps(2))
  with assms(1) Replying stream_next_smaller [OF n] show ?thesis by (auto simp: gen_rel_def)
qed

text \<open>A request served alone, to its end.\<close>

function task_alone :: "('s, 'n) chat_service \<Rightarrow> task \<Rightarrow> ('s, 'n) app \<Rightarrow> task \<times> ('s, 'n) app" where
  "task_alone svc t a =
     (if task_live t then task_alone svc (fst (task_step svc t a)) (snd (task_step svc t a)) else (t, a))"
  by pat_completeness auto

termination
  by (relation "inv_image (less_than <*lex*> less_than) (\<lambda>(svc, t, a). task_size t)")
    (auto intro: wf_inv_image simp only: in_inv_image case_prod_conv task_step_smaller [OF prod.collapse [symmetric]])

declare task_alone.simps [simp del]

lemma chat_alone [simp]:
  "task_alone svc (Chatting c (Chat_Done r)) a = (Chatting c (Chat_Done r), a)"
  "task_alone svc (Chatting c Chat_Start) a =
     (case chat_step svc c Chat_Start a of (pc', a') \<Rightarrow> task_alone svc (Chatting c pc') a')"
  "task_alone svc (Chatting c (Chat_Prompt ms)) a =
     (case chat_step svc c (Chat_Prompt ms) a of (pc', a') \<Rightarrow> task_alone svc (Chatting c pc') a')"
  "task_alone svc (Chatting c (Chat_Reply reply)) a =
     (case chat_step svc c (Chat_Reply reply) a of (pc', a') \<Rightarrow> task_alone svc (Chatting c pc') a')"
  "task_alone svc (Chatting c (Chat_Speak reply)) a =
     (case chat_step svc c (Chat_Speak reply) a of (pc', a') \<Rightarrow> task_alone svc (Chatting c pc') a')"
  by (subst task_alone.simps; simp del: chat_step.simps split: prod.split)+

lemma stream_alone:
  "task_alone svc (Replying q g sent) a =
     (case stream_run svc (sse_session_id q) (sse_message q) (sse_request_id q) (sse_trace_id q) g a of
        (evs, a') \<Rightarrow> (Replying q Finishing (sent @ evs), a'))"
proof (induction "(g, a)" arbitrary: g a sent rule: wf_induct_rule [OF wf_inv_image [OF wf_gen_rel, of fst]])
  case 1
  let ?next = "stream_next svc (sse_session_id q) (sse_message q) (sse_request_id q) (sse_trace_id q) g a"
  show ?case
  proof (cases "g = Finishing")
    case True
    then show ?thesis by (simp add: task_alone.simps)
  next
    case False
    then obtain ev g' a' where n: "?next = (Event ev, g', a')" using stream_next_Event by blast
    have "((g', a'), (g, a)) \<in> inv_image gen_rel fst" using stream_next_smaller [OF n] by simp
    from 1 [OF this, of "sent @ [ev]"] False show ?thesis
      by (simp add: task_alone.simps [of svc "Replying q g sent"] n stream_run.simps [of _ _ _ _ _ g] split: prod.splits)
  qed
qed

text \<open>Each piece replaces one request of the multiset by a smaller one.\<close>

lemma chats_step_smaller:
  assumes "chats_step svc g g'"
  shows "(mset (map task_size (ch_tasks g')), mset (map task_size (ch_tasks g))) \<in> mult (less_than <*lex*> less_than)"
  using assms
proof (cases rule: chats_step.cases)
  case (piece i t w t' a')
  let ?sizes = "map task_size (ch_tasks g)"
  let ?rest = "mset ?sizes - {#task_size t#}"
  have "mset (map task_size (ch_tasks g')) = ?rest + {#task_size t'#}" "mset ?sizes = ?rest + {#task_size t#}"
    using piece(2,3) by (auto simp: piece(1) map_update mset_update intro: insert_DiffM [symmetric])
  then show ?thesis
    using one_step_implies_mult [of "{#task_size t#}" "{#task_size t'#}" "less_than <*lex*> less_than" ?rest]
      task_step_smaller [OF piece(5,4)] by simp
qed

text \<open>A schedule: the numbers of the requests in the order in which they take their pieces.\<close>

definition take_piece :: "('s, 'n) chat_service \<Rightarrow> ('s, 'n) chats \<Rightarrow> nat \<Rightarrow> ('s, 'n) chats" where
  "take_piece svc g i = (let t = ch_tasks g ! i; (t', a') = task_step svc t (ch_app g)
     in g\<lparr>ch_tasks := (ch_tasks g)[i := t'], ch_app := a',
          ch_stored := ch_stored g @ map (Pair i) (option_list (stored_reply t t'))\<rparr>)"

fun play :: "('s, 'n) chat_service \<Rightarrow> nat list \<Rightarrow> ('s, 'n) chats \<Rightarrow> ('s, 'n) chats option" where
  "play svc [] g = Some g"
| "play svc (i # order) g = (if i < length (ch_tasks g) \<and> task_live (ch_tasks g ! i)
     then play svc order (take_piece svc g i) else None)"

lemma chats_run_step: "chats_step svc g g1 \<Longrightarrow> chats_run svc g1 g2 \<Longrightarrow> chats_run svc g g2"
  by (rotate_tac 1, induction rule: chats_run.induct) (auto intro: chats_run.intros)

lemma play_run: "play svc order g = Some g' \<Longrightarrow> chats_run svc g g'"
proof (induction order arbitrary: g)
  case (Cons i order)
  obtain t' a' where p: "task_step svc (ch_tasks g ! i) (ch_app g) = (t', a')" by fastforce
  have "chats_step svc g (take_piece svc g i)"
    using chats_step.piece [OF _ refl, of i g svc "app_io (ch_app g)" t' a'] Cons.prems p
    by (simp add: take_piece_def split: if_splits)
  with Cons show ?case by (auto intro: chats_run_step split: if_splits)
qed (auto intro: chats_run.idle)

subsection \<open>Properties\<close>





text \<open>A chat and a stream of one session: both read the empty history before either stores its turn.\<close>

definition two_turns :: "(mem_store, nat) chat_service" where
  "two_turns = ChatOrchestrationService VLLMStubClient GPTSoVITSStubClient InMemorySessionRepository 2 16"

definition demo_calls :: "call list" where
  "demo_calls = [Inl \<lparr>call_session_id = ''s'', call_message = ''a'', call_audio = False, call_voice = no_voice\<rparr>,
     Inr \<lparr>sse_session_id = ''s'', sse_message = ''b'', sse_request_id = ''r'', sse_trace_id = ''t'', sse_tenant = ''x'', sse_timeout = 9\<rparr>]"

definition demo_order :: "nat list" where
  "demo_order = [0, 1, 1, 0, 1, 1, 1, 0]"

definition demo_play :: "(mem_store, nat) chats option" where
  "demo_play = play two_turns demo_order (chats_start demo_calls (idle_app Map.empty))"

lemma demo_play_eval:
  "demo_play \<noteq> None \<and> ch_stored (the demo_play) = [(1, ''stub-vllm-reply: b''), (0, ''stub-vllm-reply: a'')]"
  by code_simp

lemma demo_played: "chats_run two_turns (chats_start demo_calls (idle_app Map.empty)) (the demo_play)"
proof -
  obtain g where g: "demo_play = Some g" using demo_play_eval by blast
  with play_run [OF g [unfolded demo_play_def]] show ?thesis by (simp only: g option.sel)
qed



text \<open>The same schedule over Postgres, where the insert of the second append fails.\<close>

definition pg_service :: "(pg, nat) chat_service" where
  "pg_service = ChatOrchestrationService VLLMStubClient GPTSoVITSStubClient (PostgresSessionRepository demo_pg_config) 2 16"

definition pg_app :: "(pg, nat) app" where
  "pg_app = \<lparr>app_repo = empty_pg 0 (replicate 18 False @ [True]), app_io = app_io (idle_app Map.empty)\<rparr>"

definition demo_pg_play :: "(pg, nat) chats option" where
  "demo_pg_play = play pg_service demo_order (chats_start demo_calls pg_app)"

lemma demo_pg_play_eval:
  "demo_pg_play \<noteq> None \<and> ch_stored (the demo_pg_play) = [(1, ''stub-vllm-reply: b'')]"
  by code_simp

lemma demo_pg_played: "chats_run pg_service (chats_start demo_calls pg_app) (the demo_pg_play)"
proof -
  obtain g where g: "demo_pg_play = Some g" using demo_pg_play_eval by blast
  with play_run [OF g [unfolded demo_pg_play_def]] show ?thesis by (simp only: g option.sel)
qed

lemma pg_app_history: "pg_history (app_repo pg_app) x = []" "pg_ready demo_pg_config (app_repo pg_app) x"
  using pg_ok_empty by (simp_all add: pg_app_def pg_history_def visible_rows_def pg_ready_def hidden_rows_def
      pg_find_def empty_pg_def demo_pg_config_def)


end
