(* ===== verification/Mock_Servers.thy ===== *)
theory Mock_Servers
  imports Chat_Service
begin

text \<open>
  The two provider servers the repository ships for local runs (\<open>app/mock_servers\<close>), as
  transports of the HTTP clients. The framework's validation of a request body, Python's
  \<open>str\<close> on values other than strings, and the time a request takes are parameters.
\<close>

subsection \<open>The model server\<close>

record mock_framework =
  mf_valid :: "json \<Rightarrow> bool"
  mf_str :: "json \<Rightarrow> string"
  mf_took :: real

text \<open>\<open>str(msg.get("content", ""))\<close>\<close>

definition mock_str :: "mock_framework \<Rightarrow> json option \<Rightarrow> string" where
  "mock_str mf v = (case v of None \<Rightarrow> '''' | Some (JStr s) \<Rightarrow> s | Some j \<Rightarrow> mf_str mf j)"

text \<open>The loop over \<open>reversed(payload.messages)\<close>, up to its \<open>break\<close>; the messages are dictionaries.\<close>

fun mock_last_user :: "mock_framework \<Rightarrow> (string \<times> json) list list \<Rightarrow> string" where
  "mock_last_user mf [] = ''''"
| "mock_last_user mf (msg # rest) =
     (if map_of msg ''role'' = Some (JStr ''user'') then mock_str mf (map_of msg ''content'')
      else mock_last_user mf rest)"

definition chat_completions :: "mock_framework \<Rightarrow> (string \<times> json) list list \<Rightarrow> json" where
  "chat_completions mf messages =
     (let last_user = mock_last_user mf (rev messages);
          txt = py_strip (''mock-vllm-reply: '' @ last_user)
      in JDict
        [(''id'', JStr ''cmpl-mock-1''), (''object'', JStr ''chat.completion''),
         (''choices'', JList [JDict [(''index'', JInt 0),
            (''message'', JDict [(''role'', JStr ''assistant''), (''content'', JStr txt)]),
            (''finish_reason'', JStr ''stop'')]]),
         (''usage'', JDict [(''prompt_tokens'', JInt 12), (''completion_tokens'', JInt 8), (''total_tokens'', JInt 20)])])"

text \<open>The dictionaries of a list; other elements do not pass the validation.\<close>

definition dicts_of :: "json \<Rightarrow> (string \<times> json) list list" where
  "dicts_of j = (case j of JList xs \<Rightarrow> concat (map (\<lambda>x. case x of JDict kvs \<Rightarrow> [kvs] | _ \<Rightarrow> []) xs) | _ \<Rightarrow> [])"

definition field_of :: "json \<Rightarrow> string \<Rightarrow> json" where
  "field_of body k = (case body of JDict kvs \<Rightarrow> (case map_of kvs k of Some v \<Rightarrow> v | None \<Rightarrow> JNull) | _ \<Rightarrow> JNull)"

definition vllm_mock_post :: "mock_framework \<Rightarrow> string \<Rightarrow> 'n http_post" where
  "vllm_mock_post mf base url body n =
     (if url \<noteq> base @ ''/v1/chat/completions'' then HttpResponse 404 (Some (JDict [(''detail'', JStr ''Not Found'')]))
      else if \<not> mf_valid mf body then HttpResponse 422 None
      else HttpResponse 200 (Some (chat_completions mf (dicts_of (field_of body ''messages'')))), mf_took mf, n)"

subsection \<open>The synthesis server\<close>

definition synthesize_mock :: "string \<Rightarrow> json" where
  "synthesize_mock txt =
     (let safe = py_replace_char CHR '' '' CHR ''_'' (take 24 txt)
      in JDict [(''audio_url'', JStr (''https://audio.mock.local/'' @ safe @ ''.wav''))])"

definition gptsovits_mock_post :: "mock_framework \<Rightarrow> string \<Rightarrow> 'n http_post" where
  "gptsovits_mock_post mf base url body n =
     (if url \<noteq> base @ ''/synthesize'' then HttpResponse 404 (Some (JDict [(''detail'', JStr ''Not Found'')]))
      else case field_of body ''text'' of
          JStr txt \<Rightarrow> if mf_valid mf body then HttpResponse 200 (Some (synthesize_mock txt)) else HttpResponse 422 None
        | _ \<Rightarrow> HttpResponse 422 None, mf_took mf, n)"

definition mock_health :: "string \<Rightarrow> json" where
  "mock_health provider = JDict [(''status'', JStr ''ok''), (''provider'', JStr provider)]"

definition mock_get :: "mock_framework \<Rightarrow> string \<Rightarrow> string \<Rightarrow> 'n http_get" where
  "mock_get mf provider base url n =
     (if url = base @ ''/health'' then HttpResponse 200 (Some (mock_health provider))
      else HttpResponse 404 (Some (JDict [(''detail'', JStr ''Not Found'')])), mf_took mf, n)"

subsection \<open>The clients against the mocks\<close>

lemma mock_last_user_payload: "mock_last_user mf
    (map (\<lambda>m. [(''role'', JStr (role m)), (''content'', JStr (content m))]) ms) =
  (case filter (\<lambda>m. role m = ''user'') ms of [] \<Rightarrow> '''' | m # _ \<Rightarrow> content m)"
  by (induction ms) (simp_all add: mock_str_def)

lemma dicts_of_payload: "dicts_of (field_of (vllm_build_request_payload cfg ms) ''messages'') =
  map (\<lambda>m. [(''role'', JStr (role m)), (''content'', JStr (content m))]) ms"
  by (induction ms) (simp_all add: dicts_of_def field_of_def vllm_build_request_payload_def)

definition mock_reply :: "string \<Rightarrow> string" where
  "mock_reply message = py_strip (''mock-vllm-reply: '' @ message)"

lemma mock_reply_nonblank: "py_strip (mock_reply m) \<noteq> []" "mock_reply m \<noteq> []"
proof -
  have "\<not> py_isspace CHR ''m''" by (simp add: py_defs)
  then have "py_strip (''mock-vllm-reply: '' @ m) \<noteq> []" by (simp only: py_strip_eq_Nil) simp
  then show "py_strip (mock_reply m) \<noteq> []" "mock_reply m \<noteq> []"
    by (simp_all add: mock_reply_def)
qed

lemma vllm_mock_parse: "vllm_parse_response_content (chat_completions mf
    (dicts_of (field_of (vllm_build_request_payload cfg ms) ''messages''))) = Inr (mock_reply (last_user_content ms))"
  using mock_reply_nonblank(1) [of "last_user_content ms"]
  by (simp add: chat_completions_def dicts_of_payload rev_map mock_last_user_payload vllm_parse_response_content_def
      choice_content_def message_content_def Let_def mock_reply_def last_user_content_def)

lemma vllm_generate_mock:
  assumes "mf_valid mf (vllm_build_request_payload cfg ms)"
  shows "fst (vllm_generate (vllm_mock_post mf (vllm_base_url cfg)) cfg ms w) = Inr (mock_reply (last_user_content ms))"
proof -
  let ?post = "vllm_mock_post mf (vllm_base_url cfg)"
  obtain w1 where "vllm_request ?post cfg (vllm_build_request_payload cfg ms) w = (Inr (mock_reply (last_user_content ms)), w1)"
    using vllm_request_outcome [of ?post cfg "vllm_build_request_payload cfg ms" w] assms
    by (cases "vllm_request ?post cfg (vllm_build_request_payload cfg ms) w")
      (simp add: vllm_mock_post_def vllm_outcome_def vllm_mock_parse)
  from run_with_retry_success [where op = "vllm_request ?post cfg (vllm_build_request_payload cfg ms)", OF this]
  show ?thesis using vllm_generate_Inr by (metis fst_conv)
qed

definition mock_audio :: "string \<Rightarrow> string" where
  "mock_audio txt = ''https://audio.mock.local/'' @ py_replace_char CHR '' '' CHR ''_'' (take 24 txt) @ ''.wav''"

lemma gsv_mock_parse: "gsv_parse_audio_location cfg (synthesize_mock txt) = Inr (mock_audio txt)"
proof -
  have "\<not> py_isspace CHR ''h''" by (simp add: py_defs)
  then have "py_strip (mock_audio txt) \<noteq> []" by (simp only: py_strip_eq_Nil) (simp add: mock_audio_def)
  then show ?thesis by (simp add: gsv_parse_audio_location_def synthesize_mock_def nonblank_field_def mock_audio_def)
qed

lemma gsv_synthesize_mock:
  assumes "mf_valid mf (gsv_build_request_payload args)"
  shows "fst (gsv_synthesize (gptsovits_mock_post mf (gsv_base_url cfg)) cfg args w) = Inr (mock_audio (tts_text args))"
proof -
  let ?post = "gptsovits_mock_post mf (gsv_base_url cfg)"
  have "field_of (gsv_build_request_payload args) ''text'' = JStr (tts_text args)"
    by (simp add: field_of_def gsv_build_request_payload_def)
  then obtain w1 where "gsv_request ?post cfg (gsv_build_request_payload args) w = (Inr (mock_audio (tts_text args)), w1)"
    using gsv_request_outcome [of ?post cfg "gsv_build_request_payload args" w] assms
    by (cases "gsv_request ?post cfg (gsv_build_request_payload args) w")
      (simp add: gptsovits_mock_post_def gsv_outcome_def gsv_mock_parse)
  from run_with_retry_success [where op = "gsv_request ?post cfg (gsv_build_request_payload args)", OF this]
  show ?thesis using gsv_synthesize_Inr by (metis fst_conv)
qed

subsection \<open>Properties\<close>

definition mock_service ::
  "mock_framework \<Rightarrow> 'n http_get \<Rightarrow> ('n, unit) action \<Rightarrow> vllm_config \<Rightarrow> gsv_config \<Rightarrow> 's session_port \<Rightarrow> int \<Rightarrow> int \<Rightarrow>
     ('s, 'n) chat_service" where
  "mock_service mf get aclose vc gc repo turns chunk_size = ChatOrchestrationService
     (VLLMHTTPClient (vllm_mock_post mf (vllm_base_url vc)) get aclose vc)
     (GPTSoVITSHTTPClient (gptsovits_mock_post mf (gsv_base_url gc)) get aclose gc) repo turns chunk_size"

lemma mock_service_sel [simp]:
  "svc_repo (mock_service mf get aclose vc gc repo turns chunk) = repo"
  "llm_generate (svc_llm (mock_service mf get aclose vc gc repo turns chunk)) = vllm_generate (vllm_mock_post mf (vllm_base_url vc)) vc"
  "tts_synthesize (svc_tts (mock_service mf get aclose vc gc repo turns chunk)) =
     gsv_synthesize (gptsovits_mock_post mf (gsv_base_url gc)) gc"
  by (simp_all add: mock_service_def ChatOrchestrationService_def VLLMHTTPClient_def GPTSoVITSHTTPClient_def)

text \<open>
  The whole chat against the mock servers. Where the framework's validation accepts the
  bodies the clients send, a chat with a non-blank message over the in-memory store, through
  both HTTP clients, answers the mock's reply to exactly this message whatever the history is,
  and where audio is asked for the address the synthesis mock forms from that reply.
\<close>

theorem mock_chat_reply:
  assumes "\<And>ms. mf_valid mf (vllm_build_request_payload vc ms)" "\<And>args. mf_valid mf (gsv_build_request_payload args)"
    and "py_strip um \<noteq> []"
  shows "fst (chat (mock_service mf get aclose vc gc InMemorySessionRepository turns chunk) sid um audio voice a) =
    Inr \<lparr>res_text = mock_reply um, res_audio_url = if audio then Some (mock_audio (mock_reply um)) else None\<rparr>"
proof -
  let ?svc = "mock_service mf get aclose vc gc InMemorySessionRepository turns chunk"
    and ?ms = "build_prompt_history (mem_bucket (app_repo a) sid) um
      (svc_max_history_turns (mock_service mf get aclose vc gc InMemorySessionRepository turns chunk))"
  obtain w1 where gen: "vllm_generate (vllm_mock_post mf (vllm_base_url vc)) vc ?ms (app_io a) = (Inr (mock_reply um), w1)"
    using vllm_generate_mock [of mf vc ?ms "app_io a"] assms(1) by (metis last_user_prompt prod.collapse)
  obtain w2 where syn: "gsv_synthesize (gptsovits_mock_post mf (gsv_base_url gc)) gc (voice\<lparr>tts_text := mock_reply um\<rparr>) w1 =
      (Inr (mock_audio (mock_reply um)), w2)"
    using gsv_synthesize_mock [of mf "voice\<lparr>tts_text := mock_reply um\<rparr>" gc w1] assms(2)
    by (cases "gsv_synthesize (gptsovits_mock_post mf (gsv_base_url gc)) gc (voice\<lparr>tts_text := mock_reply um\<rparr>) w1") simp
  obtain s2 where st: "store_turn ?svc sid um (mock_reply um) (app_repo a) = (Inr (), s2)"
    by (cases "store_turn ?svc sid um (mock_reply um) (app_repo a)")
      (use fst_mem_append in \<open>auto simp: store_turn_def dest: mem_append_bucketD\<close>)
  show ?thesis
    using assms(3) gen syn st mock_reply_nonblank(2) [of um] by (simp add: chat_def mem_get_history_def)
qed

definition accepting :: mock_framework where
  "accepting = \<lparr>mf_valid = (\<lambda>_. True), mf_str = (\<lambda>_. ''''), mf_took = 0\<rparr>"

theorem mock_chat_reply_witness:
  "fst (chat (mock_service accepting (mock_get accepting ''vllm-mock'' ''u'') (\<lambda>w. (Inr (), w))
      (VLLMHTTPClient_init ''u'' ''m'' ''0.7'' 16 2 0.1 1 False 0 10)
      (GPTSoVITSHTTPClient_init ''t'' 2 0.1 1 False 0 10 False) InMemorySessionRepository 4 8)
      ''s'' ''hi there '' True no_voice (idle_app Map.empty)) =
   Inr \<lparr>res_text = ''mock-vllm-reply: hi there'', res_audio_url = Some ''https://audio.mock.local/mock-vllm-reply:_hi_ther.wav''\<rparr>"
proof -
  have r: "mock_reply ''hi there '' = ''mock-vllm-reply: hi there''"
    "mock_audio ''mock-vllm-reply: hi there'' = ''https://audio.mock.local/mock-vllm-reply:_hi_ther.wav''"
    "py_strip ''hi there '' \<noteq> []"
    by code_simp+
  show ?thesis by (subst mock_chat_reply [OF _ _ r(3)]) (simp_all add: accepting_def r)
qed

end
