(* ===== verification/Postgres_Locking.thy ===== *)
theory Postgres_Locking
  imports Postgres_Store
begin

text \<open>
  The transactions of the Postgres store (\<open>append_messages\<close>, \<open>set_history\<close>) interleaved one call
  to the server at a time, with reads between them, at the isolation level READ COMMITTED, the
  server's default. A statement sees the committed tables of its moment with the writes of its
  own transaction on top; the row that the upsert writes stays locked until its transaction
  ends, and an upsert of the same session id waits; numbers drawn from a sequence are not given
  back. The pool has a limit on its connections; who finds none free waits. Any call may fail,
  also while it waits, and the answer to a COMMIT that took effect may be lost.
\<close>

subsection \<open>The writes of a transaction\<close>

text \<open>The rows a transaction has written or deleted and not yet committed.\<close>

datatype row_write =
    PutSession session_row
  | PutMessages "message_row list"
  | DropMessages "message_row list"

fun apply_write :: "row_write \<Rightarrow> pg \<Rightarrow> pg" where
  "apply_write (PutSession r) s = s\<lparr>pg_sessions :=
     (if sr_id r \<in> sr_id ` set (pg_sessions s)
      then map (\<lambda>q. if sr_id q = sr_id r then r else q) (pg_sessions s) else pg_sessions s @ [r])\<rparr>"
| "apply_write (PutMessages rows) s = s\<lparr>pg_messages := pg_messages s @ rows\<rparr>"
| "apply_write (DropMessages rows) s = s\<lparr>pg_messages := filter (\<lambda>m. m \<notin> set rows) (pg_messages s)\<rparr>"

definition apply_writes :: "row_write list \<Rightarrow> pg \<Rightarrow> pg" where
  "apply_writes ws s = fold apply_write ws s"

subsection \<open>A transaction, one call at a time\<close>

text \<open>The call of the program: \<open>append_messages(..., messages, max_messages)\<close> or \<open>set_history(..., messages)\<close>.\<close>

datatype write_call =
    Append pg_config "chat_message list" "int option"
  | Replace pg_config "chat_message list"

fun call_messages :: "write_call \<Rightarrow> chat_message list" where
  "call_messages (Append cfg messages max_messages) = messages"
| "call_messages (Replace cfg messages) = normalize_messages cfg messages"

fun call_limit :: "write_call \<Rightarrow> int option" where
  "call_limit (Append cfg messages max_messages) = resolve_max_messages cfg max_messages"
| "call_limit (Replace cfg messages) = None"

text \<open>
  The next call to the server, with the local variables it uses: \<open>session_pk\<close>, \<open>last_index\<close>,
  the bound of the trim. \<open>Connecting\<close> stands for the pool, its connection and BEGIN, which
  touch no table. \<open>Lost\<close>: the COMMIT took effect, but the client saw an error.
\<close>

datatype tx_pc =
    Connecting | Upserting
  | Locking int | Numbering int | Inserting int int | Trimming int int
  | Deleting int | Refilling int
  | Committing int
  | Committed | Lost | Failed

record tx =
  tx_call :: write_call
  tx_session :: string
  tx_expires_at :: real
  tx_pc :: tx_pc
  tx_writes :: "row_write list"

definition new_tx :: "write_call \<Rightarrow> string \<Rightarrow> real \<Rightarrow> tx" where
  "new_tx call session_id expires_at = \<lparr>tx_call = call, tx_session = session_id, tx_expires_at = expires_at,
     tx_pc = Connecting, tx_writes = []\<rparr>"

text \<open>What a statement of the transaction sees.\<close>

definition tx_view :: "tx \<Rightarrow> pg \<Rightarrow> pg" where
  "tx_view tx s = apply_writes (tx_writes tx) s"

definition tx_fail :: "tx \<Rightarrow> tx" where
  "tx_fail tx = tx\<lparr>tx_pc := Failed, tx_writes := []\<rparr>"

definition tx_write :: "row_write \<Rightarrow> tx_pc \<Rightarrow> tx \<Rightarrow> tx" where
  "tx_write w pc tx = tx\<lparr>tx_pc := pc, tx_writes := tx_writes tx @ [w]\<rparr>"

definition session_put :: "tx \<Rightarrow> int \<Rightarrow> row_write" where
  "session_put tx pk = PutSession \<lparr>sr_id = pk, sr_session_id = tx_session tx, sr_expires_at = Some (tx_expires_at tx)\<rparr>"

text \<open>The next call, where it succeeds: the transaction after it, and the committed tables.\<close>

definition tx_piece :: "tx \<Rightarrow> pg \<Rightarrow> tx \<times> pg" where
  "tx_piece tx s = (let v = tx_view tx s; ms = call_messages (tx_call tx) in case tx_pc tx of
       Connecting \<Rightarrow> (tx\<lparr>tx_pc := Upserting\<rparr>, s)
     | Upserting \<Rightarrow> (case upsert_session (tx_session tx) (tx_expires_at tx) v of
           None \<Rightarrow> (tx_fail tx, s)
         | Some (pk, s1) \<Rightarrow> (tx_write (session_put tx pk)
             (case tx_call tx of Append _ _ _ \<Rightarrow> Locking pk | Replace _ _ \<Rightarrow> Deleting pk) tx,
             s\<lparr>pg_next_id := pg_next_id s1\<rparr>))
     | Locking pk \<Rightarrow> (case lock_session pk v of None \<Rightarrow> (tx_fail tx, s) | Some _ \<Rightarrow> (tx\<lparr>tx_pc := Numbering pk\<rparr>, s))
     | Numbering pk \<Rightarrow> (case next_turn pk v of
           None \<Rightarrow> (tx_fail tx, s) | Some (last_index, _) \<Rightarrow> (tx\<lparr>tx_pc := Inserting pk last_index\<rparr>, s))
     | Inserting pk last_index \<Rightarrow> (let payload = message_payload pk (last_index + 1) ms in
         case insert_messages payload v of
           None \<Rightarrow> (tx_fail tx, s)
         | Some _ \<Rightarrow> (tx_write (PutMessages payload) (case call_limit (tx_call tx) of
             None \<Rightarrow> Committing pk | Some limit \<Rightarrow> Trimming pk (last_index + int (length ms) - limit)) tx, s))
     | Trimming pk bound \<Rightarrow> (tx_write (DropMessages
         (filter (\<lambda>m. mr_session_pk m = pk \<and> mr_turn_index m \<le> bound) (pg_messages v))) (Committing pk) tx, s)
     | Deleting pk \<Rightarrow> (tx_write (DropMessages (filter (\<lambda>m. mr_session_pk m = pk) (pg_messages v)))
         (if ms = [] then Committing pk else Refilling pk) tx, s)
     | Refilling pk \<Rightarrow> (let payload = message_payload pk 0 ms in
         case insert_messages payload v of
           None \<Rightarrow> (tx_fail tx, s) | Some _ \<Rightarrow> (tx_write (PutMessages payload) (Committing pk) tx, s))
     | Committing pk \<Rightarrow> (tx\<lparr>tx_pc := Committed, tx_writes := []\<rparr>, v)
     | _ \<Rightarrow> (tx, s))"

text \<open>A call may also fail, and its answer may be lost; both end the transaction.\<close>

datatype call_outcome = Answered | CallFails | AnswerLost

definition tx_ended :: "tx \<Rightarrow> bool" where
  "tx_ended tx \<longleftrightarrow> tx_pc tx \<in> {Committed, Lost, Failed}"

definition tx_turn :: "call_outcome \<Rightarrow> tx \<Rightarrow> pg \<Rightarrow> tx \<times> pg" where
  "tx_turn outcome tx s =
     (if tx_ended tx then (tx, s)
      else case outcome of
        Answered \<Rightarrow> tx_piece tx s
      | CallFails \<Rightarrow> (tx_fail tx, s)
      | AnswerLost \<Rightarrow> (case tx_pc tx of
            Committing pk \<Rightarrow> (tx\<lparr>tx_pc := Lost, tx_writes := []\<rparr>, tx_view tx s)
          | _ \<Rightarrow> (tx_fail tx, s)))"

text \<open>What the caller is told.\<close>

definition tx_result :: "tx \<Rightarrow> (exn + unit) option" where
  "tx_result tx = (case tx_pc tx of
       Committed \<Rightarrow> Some (Inr ())
     | Lost \<Rightarrow> Some (Inl (store_error (case tx_call tx of
           Append _ _ _ \<Rightarrow> ''failed to append session history to postgres''
         | Replace _ _ \<Rightarrow> ''failed to set session history in postgres'')))
     | Failed \<Rightarrow> Some (Inl (store_error (case tx_call tx of
           Append _ _ _ \<Rightarrow> ''failed to append session history to postgres''
         | Replace _ _ \<Rightarrow> ''failed to set session history in postgres'')))
     | _ \<Rightarrow> None)"

subsection \<open>The server with its transactions\<close>

text \<open>The session row a transaction holds the lock of.\<close>

fun pc_pk :: "tx_pc \<Rightarrow> int option" where
  "pc_pk (Locking pk) = Some pk"
| "pc_pk (Numbering pk) = Some pk"
| "pc_pk (Inserting pk _) = Some pk"
| "pc_pk (Trimming pk _) = Some pk"
| "pc_pk (Deleting pk) = Some pk"
| "pc_pk (Refilling pk) = Some pk"
| "pc_pk (Committing pk) = Some pk"
| "pc_pk _ = None"

definition holds_session :: "string \<Rightarrow> tx \<Rightarrow> bool" where
  "holds_session session_id tx \<longleftrightarrow> tx_session tx = session_id \<and> pc_pk (tx_pc tx) \<noteq> None"

text \<open>The transactions that have a connection of the pool, and what a transaction waits for.\<close>

definition connected :: "tx \<Rightarrow> bool" where
  "connected tx \<longleftrightarrow> tx_pc tx \<noteq> Connecting \<and> \<not> tx_ended tx"

definition pool_full :: "nat \<Rightarrow> tx list \<Rightarrow> bool" where
  "pool_full max_size txs \<longleftrightarrow> max_size \<le> length (filter connected txs)"

definition blocked :: "nat \<Rightarrow> tx list \<Rightarrow> nat \<Rightarrow> bool" where
  "blocked max_size txs i \<longleftrightarrow> (tx_pc (txs ! i) = Connecting \<and> pool_full max_size txs) \<or>
     (tx_pc (txs ! i) = Upserting \<and> list_ex (holds_session (tx_session (txs ! i))) txs)"

text \<open>The log: the commits and the reads with their time and result, in their order.\<close>

datatype db_event = Wrote nat | Read string real "chat_message list"

record db =
  db_tables :: pg
  db_max_size :: nat
  db_txs :: "tx list"
  db_log :: "db_event list"

datatype db_move = Turn nat call_outcome | Get string | Wait real

definition read_history :: "string \<Rightarrow> pg \<Rightarrow> db_event list" where
  "read_history session_id s = (case select_history session_id s of
       None \<Rightarrow> [] | Some (rows, _) \<Rightarrow> [Read session_id (pg_now s) (map row_message rows)])"

definition wrote :: "nat \<Rightarrow> tx \<Rightarrow> tx \<Rightarrow> db_event list" where
  "wrote i tx tx1 = (if \<not> tx_ended tx \<and> tx_pc tx1 \<in> {Committed, Lost} then [Wrote i] else [])"

definition db_step :: "db_move \<Rightarrow> db \<Rightarrow> db" where
  "db_step move d = (case move of
       Turn i outcome \<Rightarrow>
         if i < length (db_txs d) \<and> (blocked (db_max_size d) (db_txs d) i \<longrightarrow> outcome = CallFails)
         then (let tx = db_txs d ! i; (tx1, s1) = tx_turn outcome tx (db_tables d)
               in d\<lparr>db_tables := s1, db_txs := (db_txs d)[i := tx1], db_log := db_log d @ wrote i tx tx1\<rparr>)
         else d
     | Get session_id \<Rightarrow>
         if pool_full (db_max_size d) (db_txs d) then d
         else d\<lparr>db_log := db_log d @ read_history session_id (db_tables d)\<rparr>
     | Wait dt \<Rightarrow> d\<lparr>db_tables := (db_tables d)\<lparr>pg_now := pg_now (db_tables d) + max 0 dt\<rparr>\<rparr>)"

definition db_run :: "db_move list \<Rightarrow> db \<Rightarrow> db" where
  "db_run moves d = fold db_step moves d"

definition db_start :: "pg \<Rightarrow> nat \<Rightarrow> (write_call \<times> string \<times> real) list \<Rightarrow> db" where
  "db_start s max_size calls = \<lparr>db_tables = s, db_max_size = max_size, db_txs = map (\<lambda>(call, session_id, expires_at). new_tx call session_id expires_at) calls,
     db_log = []\<rparr>"

subsection \<open>The abstract store\<close>

text \<open>Sessions with their expiry and messages; a write and a read are one step each.\<close>

type_synonym session_map = "string \<rightharpoonup> real option \<times> chat_message list"

definition messages_in :: "session_map \<Rightarrow> string \<Rightarrow> chat_message list" where
  "messages_in a session_id = (case a session_id of None \<Rightarrow> [] | Some (_, ms) \<Rightarrow> ms)"

definition live_messages :: "session_map \<Rightarrow> string \<Rightarrow> real \<Rightarrow> chat_message list" where
  "live_messages a session_id now = (case a session_id of
       None \<Rightarrow> [] | Some (None, ms) \<Rightarrow> ms | Some (Some t, ms) \<Rightarrow> if t \<le> now then [] else ms)"

fun call_effect :: "write_call \<Rightarrow> chat_message list \<Rightarrow> chat_message list" where
  "call_effect (Append cfg messages max_messages) old = limited (resolve_max_messages cfg max_messages) (old @ messages)"
| "call_effect (Replace cfg messages) old = normalize_messages cfg messages"

text \<open>The log run on the abstract store; \<^const>\<open>None\<close> where a read did not return what it holds.\<close>

fun replay :: "(write_call \<times> string \<times> real) list \<Rightarrow> db_event list \<Rightarrow> session_map \<Rightarrow> session_map option" where
  "replay calls [] a = Some a"
| "replay calls (Wrote i # es) a = (case calls ! i of (call, session_id, expires_at) \<Rightarrow>
     replay calls es (a(session_id \<mapsto> (Some expires_at, call_effect call (messages_in a session_id)))))"
| "replay calls (Read session_id now h # es) a = (if h = live_messages a session_id now then replay calls es a else None)"

text \<open>The abstract store in the tables.\<close>

definition sessions_of :: "pg \<Rightarrow> session_map" where
  "sessions_of s session_id = map_option (\<lambda>r. (sr_expires_at r, map row_message (rows_of s (sr_id r)))) (pg_find s session_id)"

subsection \<open>Writes to one session's rows\<close>

text \<open>The highest turn index of a session's rows, or \<open>-1\<close>.\<close>

definition last_turn :: "message_row list \<Rightarrow> int" where
  "last_turn rows = (case map mr_turn_index rows of [] \<Rightarrow> - 1 | i # js \<Rightarrow> fold max js i)"

lemma next_turn_last: "next_turn pk s = Some (last_turn (rows_of s pk), s)"
  by (simp add: next_turn_def last_turn_def)

lemma last_turn_numbered: "numbered k rows \<Longrightarrow> (rows = [] \<Longrightarrow> k = 0) \<Longrightarrow> last_turn rows = k + int (length rows) - 1"
  by (cases rows) (auto simp: last_turn_def fold_max_numbered [of "k + 1"])

fun on_rows :: "int \<Rightarrow> row_write \<Rightarrow> bool" where
  "on_rows pk (PutSession r) \<longleftrightarrow> False"
| "on_rows pk (PutMessages rows) \<longleftrightarrow> (\<forall>m \<in> set rows. mr_session_pk m = pk)"
| "on_rows pk (DropMessages rows) \<longleftrightarrow> (\<forall>m \<in> set rows. mr_session_pk m = pk)"

fun play_write :: "row_write \<Rightarrow> message_row list \<Rightarrow> message_row list" where
  "play_write (PutSession r) rows = rows"
| "play_write (PutMessages new) rows = rows @ new"
| "play_write (DropMessages old) rows = filter (\<lambda>m. m \<notin> set old) rows"

lemma apply_write_frame:
  assumes "on_rows pk w"
  shows "pg_sessions (apply_write w s) = pg_sessions s" "pg_next_id (apply_write w s) = pg_next_id s"
    "pg_now (apply_write w s) = pg_now s"
    "rows_of (apply_write w s) p = (if p = pk then play_write w (rows_of s pk) else rows_of s p)"
    "m \<in> set (pg_messages (apply_write w s)) \<Longrightarrow> m \<in> set (pg_messages s) \<or> mr_session_pk m = pk"
proof -
  show "rows_of (apply_write w s) p = (if p = pk then play_write w (rows_of s pk) else rows_of s p)"
  proof (cases w)
    case (PutMessages new)
    then have "\<forall>m \<in> set new. mr_session_pk m = pk" using assms by simp
    then have "filter (\<lambda>m. mr_session_pk m = p) new = (if p = pk then new else [])"
      by (auto simp: filter_id_conv filter_empty_conv)
    then show ?thesis using PutMessages by (simp add: rows_of_def)
  next
    case (DropMessages old)
    then have "\<forall>m \<in> set old. mr_session_pk m = pk" using assms by simp
    then have "p \<noteq> pk \<Longrightarrow> mr_session_pk m = p \<Longrightarrow> m \<notin> set old" for m by auto
    then show ?thesis using DropMessages by (auto simp: rows_of_def conj_commute intro: filter_cong)
  qed (use assms in simp)
qed (use assms in \<open>cases w; auto\<close>)+

lemma apply_writes_frame:
  assumes "list_all (on_rows pk) ws"
  shows "pg_sessions (fold apply_write ws s) = pg_sessions s" "pg_next_id (fold apply_write ws s) = pg_next_id s"
    "pg_now (fold apply_write ws s) = pg_now s"
    "rows_of (fold apply_write ws s) p = (if p = pk then fold play_write ws (rows_of s pk) else rows_of s p)"
    "m \<in> set (pg_messages (fold apply_write ws s)) \<Longrightarrow> m \<in> set (pg_messages s) \<or> mr_session_pk m = pk"
  using assms
proof (induction ws arbitrary: s)
  case (Cons w ws)
  case 1 with Cons.IH(1) [of "apply_write w s"] show ?case by (simp add: apply_write_frame [of pk])
  case 2 with Cons.IH(2) [of "apply_write w s"] show ?case by (simp add: apply_write_frame [of pk])
  case 3 with Cons.IH(3) [of "apply_write w s"] show ?case by (simp add: apply_write_frame [of pk])
  case 4 with Cons.IH(4) [of "apply_write w s"] show ?case by (simp add: apply_write_frame [of pk])
  case 5 with Cons.IH(5) [of "apply_write w s"] apply_write_frame(5) [of pk w m s] show ?case by auto
qed simp_all

subsection \<open>What a transaction owns\<close>

text \<open>The key of the locked session: that of its committed row, or a number no row has.\<close>

definition owns :: "pg \<Rightarrow> string \<Rightarrow> int \<Rightarrow> bool" where
  "owns s session_id pk \<longleftrightarrow> pk < pg_next_id s \<and> (case pg_find s session_id of
       Some r \<Rightarrow> sr_id r = pk | None \<Rightarrow> pk \<notin> sr_id ` set (pg_sessions s))"

lemma owns_rows:
  assumes "pg_ok s" "owns s sid pk"
  shows "rows_of s pk = stored_rows s sid"
proof (cases "pg_find s sid")
  case None
  then have "pk \<notin> sr_id ` set (pg_sessions s)" using assms(2) by (simp add: owns_def)
  then have "rows_of s pk = []" using assms(1) by (auto simp: rows_of_def filter_empty_conv pg_ok_def list_all_iff)
  then show ?thesis using None by (simp add: stored_rows_def)
next
  case (Some r)
  then show ?thesis using assms(2) by (simp add: owns_def stored_rows_def)
qed

lemma owns_other:
  assumes "pg_ok s" "owns s sid pk" "pg_find s x = Some q" "x \<noteq> sid"
  shows "sr_id q \<noteq> pk"
proof (cases "pg_find s sid")
  case None
  then show ?thesis using assms(2) pg_find_mem [OF assms(3)] by (auto simp: owns_def)
next
  case (Some r)
  then show ?thesis using assms pg_find_inj [OF assms(1,3) Some] by (auto simp: owns_def)
qed

lemma owns_apart:
  assumes "pg_ok s" "owns s x p" "upsert_session y t s = Some (q, s1)" "x \<noteq> y"
  shows "p \<noteq> q"
proof (cases "pg_find s y")
  case None
  then show ?thesis using assms(2,3) by (auto simp: upsert_session_def owns_def Let_def split: if_splits)
next
  case (Some r)
  then have "sr_id r = q" using assms(3) by (auto simp: upsert_session_def Let_def split: if_splits)
  then show ?thesis using owns_other [OF assms(1,2) Some] assms(4) by auto
qed

lemma env_frame [simp]:
  "pg_find (s\<lparr>pg_next_id := n\<rparr>) = pg_find s" "pg_find (s\<lparr>pg_now := t\<rparr>) = pg_find s"
  "rows_of (s\<lparr>pg_next_id := n\<rparr>) = rows_of s" "rows_of (s\<lparr>pg_now := t\<rparr>) = rows_of s"
  by (simp_all add: pg_find_def rows_of_def fun_eq_iff)

lemma owns_env [simp]:
  "owns (s\<lparr>pg_now := t\<rparr>) sid pk = owns s sid pk"
  "owns s sid pk \<Longrightarrow> pg_next_id s \<le> n \<Longrightarrow> owns (s\<lparr>pg_next_id := n\<rparr>) sid pk"
  by (auto simp: owns_def split: option.splits)

lemma upsert_owns:
  assumes "pg_ok s" "upsert_session y t s = Some (q, s1)"
  shows "owns (s\<lparr>pg_next_id := pg_next_id s1\<rparr>) y q \<and> pg_next_id s \<le> pg_next_id s1"
proof -
  have ids: "\<forall>r \<in> set (pg_sessions s). sr_id r < pg_next_id s" using assms(1) by (simp add: pg_ok_def list_all_iff)
  have next_id: "pg_next_id s1 = pg_next_id s + 1"
    using assms(2) by (auto simp: upsert_session_def Let_def split: if_splits option.splits)
  show ?thesis
  proof (cases "pg_find s y")
    case None
    then have "q = pg_next_id s" using assms(2) by (auto simp: upsert_session_def Let_def split: if_splits)
    then show ?thesis using ids None by (auto simp: owns_def next_id)
  next
    case (Some r)
    then have "q = sr_id r" using assms(2) by (auto simp: upsert_session_def Let_def split: if_splits)
    then show ?thesis using ids pg_find_mem [OF Some] Some by (auto simp: owns_def next_id)
  qed
qed

lemma same_row:
  assumes "pg_ok s" "p \<in> set (pg_sessions s)" "q \<in> set (pg_sessions s)"
  shows "sr_id p = sr_id q \<longleftrightarrow> sr_session_id p = sr_session_id q"
proof -
  have "inj_on sr_id (set (pg_sessions s))" "inj_on sr_session_id (set (pg_sessions s))"
    using assms(1) by (simp_all add: pg_ok_def distinct_map)
  then show ?thesis using assms(2,3) by (simp add: inj_on_eq_iff)
qed

text \<open>The tables with the row of the locked session written.\<close>

lemma put_session:
  fixes t :: real
  assumes "pg_ok s" "owns s sid pk"
  defines "r \<equiv> \<lparr>sr_id = pk, sr_session_id = sid, sr_expires_at = Some t\<rparr>"
  defines "s1 \<equiv> apply_write (PutSession r) s"
  shows "pg_ok s1" "pg_find s1 x = (if x = sid then Some r else pg_find s x)"
    "pg_messages s1 = pg_messages s" "pg_next_id s1 = pg_next_id s" "pg_now s1 = pg_now s"
proof -
  have rows: "rows_of s1 = rows_of s" by (simp add: s1_def rows_of_def fun_eq_iff)
  show frame: "pg_messages s1 = pg_messages s" "pg_next_id s1 = pg_next_id s" "pg_now s1 = pg_now s"
    by (simp_all add: s1_def)
  have "pg_ok s1 \<and> (pg_find s1 x = (if x = sid then Some r else pg_find s x))"
  proof (cases "pg_find s sid")
    case None
    then have new: "pk \<notin> sr_id ` set (pg_sessions s)" "pk < pg_next_id s"
      using assms(2) by (simp_all add: owns_def)
    have "sid \<notin> sr_session_id ` set (pg_sessions s)" using None by (auto simp: pg_find_def find_None_iff)
    note new = new this
    then have s1: "pg_sessions s1 = pg_sessions s @ [r]" by (simp add: s1_def r_def)
    have "rows_of s pk = []" using owns_rows [OF assms(1,2)] None by (simp add: stored_rows_def)
    then have "pg_ok s1" using assms(1) new by (auto simp: pg_ok_ids s1 rows frame r_def consecutive_def)
    then show ?thesis using None by (auto simp: pg_find_def s1 find_app r_def split: option.split)
  next
    case (Some q)
    then have q: "q \<in> set (pg_sessions s)" "sr_session_id q = sid" "sr_id q = pk"
      using pg_find_mem [OF Some] assms(2) by (auto simp: owns_def)
    have "(if sr_id p = pk then r else p) = (if sr_session_id p = sid then p\<lparr>sr_expires_at := Some t\<rparr> else p)"
      if "p \<in> set (pg_sessions s)" for p
    proof -
      have "sr_id p = pk \<longleftrightarrow> sr_session_id p = sid" using same_row [OF assms(1) that q(1)] q(2,3) by simp
      then show ?thesis by (cases p) (auto simp: r_def)
    qed
    then have s1: "pg_sessions s1 = map (\<lambda>p. if sr_session_id p = sid then p\<lparr>sr_expires_at := Some t\<rparr> else p) (pg_sessions s)"
      using q by (force simp: s1_def r_def)
    have same: "map sr_session_id (pg_sessions s1) = map sr_session_id (pg_sessions s)"
      "map sr_id (pg_sessions s1) = map sr_id (pg_sessions s)" by (simp_all add: s1)
    have "pg_ok s1" using assms(1) by (simp only: pg_ok_ids rows frame same) blast
    moreover have "q\<lparr>sr_expires_at := Some t\<rparr> = r" using q(2,3) by (cases q) (auto simp: r_def)
    ultimately show ?thesis using Some
      by (auto simp: pg_find_def s1 find_map_upd [where key = sr_session_id and g = "\<lambda>p. p\<lparr>sr_expires_at := Some t\<rparr>"] option.map_ident)
  qed
  then show "pg_ok s1" "pg_find s1 x = (if x = sid then Some r else pg_find s x)" by simp_all
qed

text \<open>The tables after a commit: only the locked session and its rows change.\<close>

lemma commit_tables:
  fixes t :: real
  assumes "pg_ok s" "owns s sid pk" "list_all (on_rows pk) ws" "consecutive (fold play_write ws (rows_of s pk))"
  defines "r \<equiv> \<lparr>sr_id = pk, sr_session_id = sid, sr_expires_at = Some t\<rparr>"
  defines "s2 \<equiv> apply_writes (PutSession r # ws) s"
  shows "pg_ok s2"
    "sessions_of s2 = (sessions_of s)(sid \<mapsto> (Some t, map row_message (fold play_write ws (rows_of s pk))))"
    "\<lbrakk>owns s x q; x \<noteq> sid; q \<noteq> pk\<rbrakk> \<Longrightarrow> owns s2 x q \<and> rows_of s2 q = rows_of s q"
proof -
  define s1 where "s1 = apply_write (PutSession r) s"
  note put = put_session [OF assms(1,2), where t = t, folded r_def, folded s1_def]
  have s2: "s2 = fold apply_write ws s1" by (simp add: s2_def s1_def apply_writes_def)
  note frame = apply_writes_frame [OF assms(3), where s = s1, folded s2]
  have rows: "rows_of s2 p = (if p = pk then fold play_write ws (rows_of s pk) else rows_of s p)" for p
    using frame(4) [where p = p] put(3) by (simp add: rows_of_def)
  have find: "pg_find s2 = pg_find s1" using frame(1) by (simp add: pg_find_def fun_eq_iff)
  have own: "pk \<in> sr_id ` set (pg_sessions s1)" using pg_find_mem [of s1 sid r] put(2) [where x = sid] by (force simp: r_def)
  show ok: "pg_ok s2"
  proof -
    have "consecutive (rows_of s2 i)" for i using rows_of_consecutive [OF assms(1)] assms(4) by (simp add: rows)
    moreover have "mr_session_pk m \<in> sr_id ` set (pg_sessions s1)" if "m \<in> set (pg_messages s2)" for m
      using frame(5) [OF that] own put(1) by (auto simp: pg_ok_def list_all_iff)
    ultimately show ?thesis using put(1) by (simp add: pg_ok_def list_all_iff frame(1,2))
  qed
  have "sessions_of s2 x = ((sessions_of s)(sid \<mapsto> (Some t, map row_message (fold play_write ws (rows_of s pk))))) x" for x
  proof (cases "x = sid")
    case True
    then show ?thesis by (simp add: sessions_of_def find put(2) rows r_def)
  next
    case False
    then have "sr_id q \<noteq> pk" if "pg_find s x = Some q" for q using owns_other [OF assms(1,2) that] by simp
    then show ?thesis using False by (cases "pg_find s x") (simp_all add: sessions_of_def find put(2) rows)
  qed
  then show "sessions_of s2 = (sessions_of s)(sid \<mapsto> (Some t, map row_message (fold play_write ws (rows_of s pk))))"
    by blast
  have ids: "sr_id ` set (pg_sessions s2) \<subseteq> insert pk (sr_id ` set (pg_sessions s))"
    by (auto simp: frame(1) s1_def r_def)
  show "owns s2 x q \<and> rows_of s2 q = rows_of s q" if "owns s x q" "x \<noteq> sid" "q \<noteq> pk"
    using that ids put(2) [where x = x] by (auto simp: owns_def rows find frame(2) put(4) split: option.splits)
qed

subsection \<open>The invariant of a transaction\<close>

text \<open>The pending writes on the rows of the session at each call.\<close>

fun stage :: "tx_pc \<Rightarrow> write_call \<Rightarrow> row_write list \<Rightarrow> message_row list \<Rightarrow> bool" where
  "stage (Locking pk) call ws rows \<longleftrightarrow> ws = [] \<and> (\<exists>cfg ms n. call = Append cfg ms n)"
| "stage (Numbering pk) call ws rows \<longleftrightarrow> ws = [] \<and> (\<exists>cfg ms n. call = Append cfg ms n)"
| "stage (Inserting pk last_index) call ws rows \<longleftrightarrow> ws = [] \<and> (\<exists>cfg ms n. call = Append cfg ms n) \<and> last_index = last_turn rows"
| "stage (Trimming pk bound) call ws rows \<longleftrightarrow> (\<exists>cfg ms n limit. call = Append cfg ms n \<and> call_limit call = Some limit \<and>
     bound = last_turn rows + int (length ms) - limit \<and> ws = [PutMessages (message_payload pk (last_turn rows + 1) ms)])"
| "stage (Deleting pk) call ws rows \<longleftrightarrow> ws = [] \<and> (\<exists>cfg ms. call = Replace cfg ms)"
| "stage (Refilling pk) call ws rows \<longleftrightarrow> fold play_write ws rows = [] \<and> (\<exists>cfg ms. call = Replace cfg ms)"
| "stage (Committing pk) call ws rows \<longleftrightarrow> consecutive (fold play_write ws rows) \<and>
     map row_message (fold play_write ws rows) = call_effect call (map row_message rows)"
| "stage _ call ws rows \<longleftrightarrow> True"

definition tx_holding :: "pg \<Rightarrow> tx \<Rightarrow> int \<Rightarrow> bool" where
  "tx_holding s tx pk \<longleftrightarrow> owns s (tx_session tx) pk \<and> (\<exists>ws. tx_writes tx = session_put tx pk # ws \<and>
     list_all (on_rows pk) ws \<and> stage (tx_pc tx) (tx_call tx) ws (rows_of s pk))"

definition tx_inv :: "pg \<Rightarrow> tx \<Rightarrow> bool" where
  "tx_inv s tx \<longleftrightarrow> (case pc_pk (tx_pc tx) of None \<Rightarrow> tx_ended tx \<or> tx_writes tx = [] | Some pk \<Rightarrow> tx_holding s tx pk)"

definition tx_plan :: "tx \<Rightarrow> write_call \<times> string \<times> real" where
  "tx_plan tx = (tx_call tx, tx_session tx, tx_expires_at tx)"

lemma view_rows:
  assumes "tx_writes tx = session_put tx pk # ws" "list_all (on_rows pk) ws"
  shows "rows_of (tx_view tx s) pk = fold play_write ws (rows_of s pk)"
  using apply_writes_frame(4) [OF assms(2), of "apply_write (session_put tx pk) s" pk]
  by (simp add: tx_view_def apply_writes_def assms(1) session_put_def rows_of_def)

lemma filter_rows_of: "filter (\<lambda>m. mr_session_pk m = pk \<and> P m) (pg_messages s) = filter P (rows_of s pk)"
  by (simp add: rows_of_def conj_commute)

lemma drop_selected: "filter (\<lambda>m. m \<notin> set (filter P xs)) xs = filter (\<lambda>m. \<not> P m) xs"
  by (auto intro: filter_cong)

text \<open>The rows that an append ends with.\<close>

lemma append_rows:
  fixes ms :: "chat_message list" and pk :: int
  assumes "consecutive rows"
  defines "new \<equiv> message_payload pk (last_turn rows + 1) ms"
  shows "consecutive (limited limit (rows @ new))"
    "0 \<le> n \<Longrightarrow> filter (\<lambda>m. \<not> mr_turn_index m \<le> last_turn rows + int (length ms) - n) (rows @ new) = limited (Some n) (rows @ new)"
    "map row_message (limited limit (rows @ new)) = limited limit (map row_message rows @ ms)"
proof -
  obtain k where k: "0 \<le> k" "numbered k rows" "rows = [] \<Longrightarrow> k = 0" using assms(1) by (rule consecutiveE) blast
  have last_index: "last_turn rows = k + int (length rows) - 1" using last_turn_numbered k(2,3) by blast
  have num: "numbered (last_turn rows + 1) new" by (simp add: new_def numbered_payload)
  have "numbered k (rows @ new)" using k(2) num by (simp add: numbered_append last_index algebra_simps)
  then show "consecutive (limited limit (rows @ new))" using k(1) by (rule consecutive_limited)
  have len: "length new = length ms" by (simp add: new_def)
  show "filter (\<lambda>m. \<not> mr_turn_index m \<le> last_turn rows + int (length ms) - n) (rows @ new) = limited (Some n) (rows @ new)"
    if "0 \<le> n"
    using trimmed_rows [OF k(2,1) that last_index num]
    by (simp add: limited_def keep_recent_def not_le len del: filter_append)
  show "map row_message (limited limit (rows @ new)) = limited limit (map row_message rows @ ms)"
    by (auto simp: limited_def keep_recent_def drop_map [symmetric] new_def split: option.split)
qed

text \<open>A call that does not commit: the tables stay, up to the sequence.\<close>

definition local_turn :: "pg \<Rightarrow> tx \<Rightarrow> pg \<Rightarrow> tx \<Rightarrow> bool" where
  "local_turn s tx s1 tx1 \<longleftrightarrow> s1 = s\<lparr>pg_next_id := pg_next_id s1\<rparr> \<and> pg_next_id s \<le> pg_next_id s1 \<and> tx_inv s1 tx1 \<and>
     (tx_pc tx1 \<in> {Committed, Lost} \<longrightarrow> tx_ended tx \<and> tx1 = tx) \<and>
     (\<forall>pk. pc_pk (tx_pc tx1) = Some pk \<longrightarrow> pc_pk (tx_pc tx) = Some pk \<or>
        tx_pc tx = Upserting \<and> (\<exists>s2. upsert_session (tx_session tx) (tx_expires_at tx) s = Some (pk, s2)))"

lemma local_fail [simp]: "local_turn s tx s (tx_fail tx)"
  by (simp add: local_turn_def tx_fail_def tx_inv_def tx_ended_def)

lemma local_keep:
  assumes "tx_holding s tx1 pk" "pc_pk (tx_pc tx) = Some pk" "pc_pk (tx_pc tx1) = Some pk"
  shows "local_turn s tx s tx1"
  using assms by (auto simp: local_turn_def tx_inv_def)

lemma payload_on_rows: "list_all (on_rows pk) [PutMessages (message_payload pk k ms)]"
  by (auto dest: payload_pk)

lemma limit_nonneg: "resolve_max_messages cfg n = Some m \<Longrightarrow> 0 \<le> m"
  by (auto simp: resolve_max_messages_def split: option.splits if_splits)

lemma upsert_turn:
  assumes "pg_ok s" "tx_inv s tx" "tx_pc tx = Upserting" "tx_piece tx s = (tx1, s1)"
  shows "local_turn s tx s1 tx1"
proof -
  have view: "tx_view tx s = s" using assms(2,3) by (simp add: tx_inv_def tx_ended_def tx_view_def apply_writes_def)
  have none: "tx_writes tx = []" using assms(2,3) by (simp add: tx_inv_def tx_ended_def)
  show ?thesis
  proof (cases "upsert_session (tx_session tx) (tx_expires_at tx) s")
    case None
    then show ?thesis using assms(3,4) by (auto simp: tx_piece_def view)
  next
    case (Some p)
    obtain pk s2 where p: "p = (pk, s2)" by fastforce
    note new = upsert_owns [OF assms(1) Some [unfolded p]]
    let ?pc = "case tx_call tx of Append _ _ _ \<Rightarrow> Locking pk | Replace _ _ \<Rightarrow> Deleting pk"
    have res: "tx1 = tx_write (session_put tx pk) ?pc tx" "s1 = s\<lparr>pg_next_id := pg_next_id s2\<rparr>"
      using assms(3,4) by (simp_all add: tx_piece_def view Some p)
    have "pc_pk ?pc = Some pk" "stage ?pc (tx_call tx) [] (rows_of s pk)" by (cases "tx_call tx"; simp)+
    then have "tx_holding s1 tx1 pk" "pc_pk (tx_pc tx1) = Some pk"
      using new by (simp_all add: tx_holding_def res tx_write_def none session_put_def)
    moreover from this have "tx_pc tx1 \<noteq> Committed" "tx_pc tx1 \<noteq> Lost" by auto
    ultimately show ?thesis using new Some p assms(3) res(2) by (simp add: local_turn_def tx_inv_def)
  qed
qed

lemma holding_turn:
  assumes "pg_ok s" "tx_holding s tx pk" "pc_pk (tx_pc tx) = Some pk" "tx_piece tx s = (tx1, s1)" "tx_pc tx \<noteq> Committing pk"
  shows "local_turn s tx s1 tx1"
proof -
  obtain ws where own: "owns s (tx_session tx) pk" and ws: "tx_writes tx = session_put tx pk # ws" "list_all (on_rows pk) ws"
      and st: "stage (tx_pc tx) (tx_call tx) ws (rows_of s pk)"
    using assms(2) by (auto simp: tx_holding_def)
  note view = view_rows [OF ws, of s]
  have rows: "consecutive (rows_of s pk)" by (rule rows_of_consecutive [OF assms(1)])
  have keep: "local_turn s tx s (tx\<lparr>tx_pc := pc\<rparr>)" if "pc_pk pc = Some pk" "stage pc (tx_call tx) ws (rows_of s pk)" for pc
    using that own ws by (intro local_keep [OF _ assms(3)]) (auto simp: tx_holding_def session_put_def)
  have add: "local_turn s tx s (tx_write w pc tx)"
    if "pc_pk pc = Some pk" "on_rows pk w" "stage pc (tx_call tx) (ws @ [w]) (rows_of s pk)" for pc w
    using that own ws by (intro local_keep [OF _ assms(3)]) (auto simp: tx_holding_def session_put_def tx_write_def)
  show ?thesis
  proof (cases "tx_pc tx")
    case (Locking p)
    then show ?thesis using assms(3,4) st keep [of "Numbering pk"] by (auto simp: tx_piece_def lock_session_def)
  next
    case (Numbering p)
    then show ?thesis using assms(3,4) st view keep [of "Inserting pk (last_turn (rows_of s pk))"]
      by (auto simp: tx_piece_def next_turn_last)
  next
    case (Inserting p i)
    with assms(3) st obtain cfg ms n where c: "p = pk" "ws = []" "tx_call tx = Append cfg ms n" "i = last_turn (rows_of s pk)"
      by auto
    let ?new = "message_payload pk (i + 1) ms"
    have on: "on_rows pk (PutMessages ?new)" using payload_on_rows by simp
    note app = append_rows [OF rows, where pk = pk and ms = ms]
    have "local_turn s tx s (tx_write (PutMessages ?new) (case call_limit (tx_call tx) of
        None \<Rightarrow> Committing pk | Some limit \<Rightarrow> Trimming pk (i + int (length ms) - limit)) tx)"
    proof (cases "resolve_max_messages cfg n")
      case None
      then show ?thesis using app(1,3) [of None] c on by (intro add) (auto simp: limited_def)
    next
      case (Some limit)
      then show ?thesis using c on by (intro add) auto
    qed
    then show ?thesis using assms(4) Inserting c by (auto simp: tx_piece_def Let_def split: option.splits)
  next
    case (Trimming p b)
    with assms(3) st obtain cfg ms n limit where c: "p = pk" "tx_call tx = Append cfg ms n" "resolve_max_messages cfg n = Some limit"
        "b = last_turn (rows_of s pk) + int (length ms) - limit"
        "ws = [PutMessages (message_payload pk (last_turn (rows_of s pk) + 1) ms)]" by auto
    note app = append_rows [OF rows, where pk = pk and ms = ms]
    let ?w = "DropMessages (filter (\<lambda>m. mr_session_pk m = pk \<and> mr_turn_index m \<le> b) (pg_messages (tx_view tx s)))"
    let ?rows = "rows_of s pk @ message_payload pk (last_turn (rows_of s pk) + 1) ms"
    have play: "fold play_write (ws @ [?w]) (rows_of s pk) = limited (Some limit) ?rows"
      using app(2) [OF limit_nonneg [OF c(3)]] view
      by (simp only: fold_append fold_simps comp_apply play_write.simps filter_rows_of drop_selected c(4,5))
    have "stage (Committing pk) (tx_call tx) (ws @ [?w]) (rows_of s pk)"
      unfolding stage.simps play using app(1,3) [of "Some limit"] c(2,3) by simp
    then have "local_turn s tx s (tx_write ?w (Committing pk) tx)" by (intro add) simp_all
    then show ?thesis using assms(4) Trimming c(1) by (auto simp: tx_piece_def Let_def)
  next
    case (Deleting p)
    with assms(3) st obtain cfg ms where c: "p = pk" "ws = []" "tx_call tx = Replace cfg ms" by auto
    let ?w = "DropMessages (filter (\<lambda>m. mr_session_pk m = pk) (pg_messages (tx_view tx s)))"
    let ?pc = "if normalize_messages cfg ms = [] then Committing pk else Refilling pk"
    have "filter (\<lambda>m. m \<notin> set (rows_of (tx_view tx s) pk)) (rows_of s pk) = []" using view c(2) by simp
    then have play: "fold play_write (ws @ [?w]) (rows_of s pk) = []"
      by (simp only: c(2) append_Nil fold_simps play_write.simps rows_of_def)
    have "stage ?pc (tx_call tx) (ws @ [?w]) (rows_of s pk)"
    proof (cases "normalize_messages cfg ms = []")
      case True
      then have pc: "?pc = Committing pk" by simp
      show ?thesis unfolding pc stage.simps play c(3) by (simp add: consecutive_def True)
    next
      case False
      then have pc: "?pc = Refilling pk" by simp
      show ?thesis unfolding pc stage.simps using play c(3) by blast
    qed
    then have "local_turn s tx s (tx_write ?w ?pc tx)" by (intro add) simp_all
    then show ?thesis using assms(4) Deleting c(1,3) by (auto simp: tx_piece_def Let_def)
  next
    case (Refilling p)
    with assms(3) st obtain cfg ms where c: "p = pk" "tx_call tx = Replace cfg ms" "fold play_write ws (rows_of s pk) = []" by auto
    let ?new = "message_payload pk 0 (normalize_messages cfg ms)"
    have "on_rows pk (PutMessages ?new)" using payload_on_rows by simp
    then have "local_turn s tx s (tx_write (PutMessages ?new) (Committing pk) tx)"
      using c consecutiveI [OF numbered_payload [of 0]] by (intro add) auto
    then show ?thesis using assms(4) Refilling c by (auto simp: tx_piece_def Let_def split: option.splits)
  qed (use assms(3,5) in auto)
qed

text \<open>Every call: it commits the view, or is local.\<close>

lemma turn_cases:
  assumes "tx_turn outcome tx s = (tx1, s1)" "pg_ok s" "tx_inv s tx"
  obtains (commit) pk where "tx_pc tx = Committing pk" "tx_pc tx1 \<in> {Committed, Lost}" "s1 = tx_view tx s" "tx_plan tx1 = tx_plan tx"
  | (inside) "local_turn s tx s1 tx1" "tx_plan tx1 = tx_plan tx"
proof -
  have plan: "tx_plan tx1 = tx_plan tx"
    using assms(1) by (auto simp: tx_turn_def tx_piece_def tx_fail_def tx_write_def tx_plan_def Let_def
        split: if_splits call_outcome.splits tx_pc.splits option.splits prod.splits)
  show thesis
  proof (cases "tx_ended tx")
    case True
    then show thesis using assms(1,3) plan inside by (simp add: tx_turn_def local_turn_def tx_inv_def)
  next
    case False
    show thesis
    proof (cases "\<exists>pk. tx_pc tx = Committing pk")
      case True
      then obtain pk where pc: "tx_pc tx = Committing pk" by blast
      show thesis
      proof (cases "outcome = CallFails")
        case True
        then show thesis using assms(1) False plan inside by (auto simp: tx_turn_def)
      next
        case ok: False
        then show thesis using assms(1) False pc plan commit
          by (cases outcome) (auto simp: tx_turn_def tx_piece_def Let_def)
      qed
    next
      case nc: False
      show thesis
      proof (cases "outcome = Answered")
        case True
        then have piece: "tx_piece tx s = (tx1, s1)" using assms(1) False by (simp add: tx_turn_def)
        show thesis
        proof (cases "pc_pk (tx_pc tx)")
          case None
          show thesis
          proof (cases "tx_pc tx = Upserting")
            case True
            show thesis by (rule inside [OF upsert_turn [OF assms(2,3) True piece] plan])
          next
            case False
            with None \<open>\<not> tx_ended tx\<close> have "tx_pc tx = Connecting" by (cases "tx_pc tx") (auto simp: tx_ended_def)
            then show thesis using piece assms(3) plan inside
              by (auto simp: tx_piece_def local_turn_def tx_inv_def tx_ended_def)
          qed
        next
          case (Some pk)
          then have "tx_holding s tx pk" using assms(3) by (simp add: tx_inv_def)
          from holding_turn [OF assms(2) this Some piece] nc plan inside show thesis by blast
        qed
      next
        case other: False
        then have "tx1 = tx_fail tx \<and> s1 = s"
          using assms(1) False nc by (cases outcome) (auto simp: tx_turn_def split: tx_pc.splits)
        then show thesis using plan inside by simp
      qed
    qed
  qed
qed

subsection \<open>The invariant of the server\<close>

lemma tx_inv_env:
  assumes "tx_inv s tx"
  shows "tx_inv (s\<lparr>pg_now := t\<rparr>) tx" "pg_next_id s \<le> n \<Longrightarrow> tx_inv (s\<lparr>pg_next_id := n\<rparr>) tx"
  using assms by (auto simp: tx_inv_def tx_holding_def split: option.splits)

lemma pg_ok_next: "pg_ok s \<Longrightarrow> pg_next_id s \<le> n \<Longrightarrow> pg_ok (s\<lparr>pg_next_id := n\<rparr>)"
  by (rule tables_ok [of s]) (simp_all add: tables_eq)

lemma sessions_of_env [simp]: "sessions_of (s\<lparr>pg_now := t\<rparr>) = sessions_of s"
  "sessions_of (s\<lparr>pg_next_id := n\<rparr>) = sessions_of s"
  by (simp_all add: sessions_of_def fun_eq_iff)

lemma replay_append: "replay calls (xs @ ys) a = (case replay calls xs a of None \<Rightarrow> None | Some b \<Rightarrow> replay calls ys b)"
proof (induction xs arbitrary: a)
  case (Cons e xs)
  show ?case
  proof (cases e)
    case (Wrote i)
    obtain call sid t where "calls ! i = (call, sid, t)" by (metis prod_cases3)
    then show ?thesis by (simp only: Wrote append_Cons replay.simps prod.case Cons.IH)
  next
    case (Read sid now h)
    then show ?thesis by (simp add: Cons.IH)
  qed
qed simp

text \<open>No two transactions hold the same session, or the same key.\<close>

definition locks_ok :: "tx list \<Rightarrow> bool" where
  "locks_ok txs \<longleftrightarrow> (\<forall>i < length txs. \<forall>j < length txs. \<forall>p q. i \<noteq> j \<longrightarrow> pc_pk (tx_pc (txs ! i)) = Some p \<longrightarrow>
     pc_pk (tx_pc (txs ! j)) = Some q \<longrightarrow> tx_session (txs ! i) \<noteq> tx_session (txs ! j) \<and> p \<noteq> q)"

definition written :: "tx list \<Rightarrow> db_event list \<Rightarrow> bool" where
  "written txs es \<longleftrightarrow> (\<forall>i. count_list es (Wrote i) =
     (if i < length txs \<and> tx_pc (txs ! i) \<in> {Committed, Lost} then 1 else 0))"

definition db_inv :: "(write_call \<times> string \<times> real) list \<Rightarrow> session_map \<Rightarrow> db \<Rightarrow> bool" where
  "db_inv calls a d \<longleftrightarrow> pg_ok (db_tables d) \<and> map tx_plan (db_txs d) = calls \<and>
     (\<forall>tx \<in> set (db_txs d). tx_inv (db_tables d) tx) \<and> locks_ok (db_txs d) \<and> written (db_txs d) (db_log d) \<and>
     replay calls (db_log d) a = Some (sessions_of (db_tables d))"

lemma locks_update:
  assumes "locks_ok txs" "i < length txs" "tx_plan tx1 = tx_plan (txs ! i)"
    and new: "\<And>p j q. \<lbrakk>pc_pk (tx_pc tx1) = Some p; j < length txs; j \<noteq> i; pc_pk (tx_pc (txs ! j)) = Some q\<rbrakk> \<Longrightarrow>
      tx_session (txs ! i) \<noteq> tx_session (txs ! j) \<and> p \<noteq> q"
  shows "locks_ok (txs[i := tx1])"
  unfolding locks_ok_def length_list_update
proof (intro allI impI)
  have sess: "tx_session tx1 = tx_session (txs ! i)" using assms(3) by (simp add: tx_plan_def)
  fix j k p q
  assume jk: "j < length txs" "k < length txs" "j \<noteq> k"
    and p: "pc_pk (tx_pc (txs[i := tx1] ! j)) = Some p" and q: "pc_pk (tx_pc (txs[i := tx1] ! k)) = Some q"
  consider "j = i" | "k = i" "j \<noteq> i" | "j \<noteq> i" "k \<noteq> i" by blast
  then show "tx_session (txs[i := tx1] ! j) \<noteq> tx_session (txs[i := tx1] ! k) \<and> p \<noteq> q"
  proof cases
    case 1
    then show ?thesis using new [of p k q] jk p q sess by simp
  next
    case 2
    then show ?thesis using new [of q j p] jk p q sess by auto
  next
    case 3
    then show ?thesis using assms(1) jk p q unfolding locks_ok_def by simp
  qed
qed

lemma written_update:
  assumes "written txs es" "i < length txs" "tx_pc tx1 \<in> {Committed, Lost} \<longrightarrow> tx_ended (txs ! i) \<longrightarrow> tx1 = txs ! i"
    "tx_ended (txs ! i) \<longrightarrow> tx1 = txs ! i"
  shows "written (txs[i := tx1]) (es @ wrote i (txs ! i) tx1)"
proof -
  have "count_list (es @ wrote i (txs ! i) tx1) (Wrote k) =
      (if k < length (txs[i := tx1]) \<and> tx_pc (txs[i := tx1] ! k) \<in> {Committed, Lost} then 1 else 0)" for k
    using assms unfolding written_def by (cases "k = i") (auto simp: wrote_def tx_ended_def)
  then show ?thesis by (simp add: written_def)
qed

text \<open>A transaction that waits for none may upsert: the others hold other sessions.\<close>

lemma unblocked:
  assumes "\<not> blocked max_size txs i" "tx_pc (txs ! i) = Upserting" "j < length txs" "pc_pk (tx_pc (txs ! j)) = Some q"
  shows "tx_session (txs ! j) \<noteq> tx_session (txs ! i)"
  using assms by (auto simp: blocked_def list_ex_iff holds_session_def)

lemma turn_locks:
  assumes "locks_ok txs" "pg_ok s" "\<forall>tx \<in> set txs. tx_inv s tx" "i < length txs"
    and "blocked max_size txs i \<longrightarrow> pc_pk (tx_pc tx1) = None" and "local_turn s (txs ! i) s1 tx1" "tx_plan tx1 = tx_plan (txs ! i)"
  shows "locks_ok (txs[i := tx1])"
proof (rule locks_update [OF assms(1,4,7)])
  fix p j q
  assume j: "pc_pk (tx_pc tx1) = Some p" "j < length txs" "j \<noteq> i" "pc_pk (tx_pc (txs ! j)) = Some q"
  from assms(6) j(1) consider "pc_pk (tx_pc (txs ! i)) = Some p"
    | s2 where "tx_pc (txs ! i) = Upserting" "upsert_session (tx_session (txs ! i)) (tx_expires_at (txs ! i)) s = Some (p, s2)"
    unfolding local_turn_def by blast
  then show "tx_session (txs ! i) \<noteq> tx_session (txs ! j) \<and> p \<noteq> q"
  proof cases
    case 1
    then show ?thesis using assms(1,4) j unfolding locks_ok_def by blast
  next
    case 2
    have apart: "tx_session (txs ! j) \<noteq> tx_session (txs ! i)" by (rule unblocked [OF _ 2(1) j(2,4)]) (use assms(5) j(1) in auto)
    have "tx_inv s (txs ! j)" using assms(3) j(2) by simp
    then have "owns s (tx_session (txs ! j)) q" using j(4) by (simp add: tx_inv_def tx_holding_def)
    from owns_apart [OF assms(2) this 2(2) apart] apart show ?thesis by auto
  qed
qed

lemma local_written: "local_turn s tx s1 tx1 \<Longrightarrow> wrote i tx tx1 = []"
  by (auto simp: local_turn_def wrote_def)

text \<open>The other transactions after a commit.\<close>

lemma commit_inv:
  assumes "tx_inv s tx" "pg_ok s" "tx_holding s own pk" "stage (Committing pk) (tx_call own) ws (rows_of s pk)"
    and "tx_writes own = session_put own pk # ws" "list_all (on_rows pk) ws"
    and "\<And>q. pc_pk (tx_pc tx) = Some q \<Longrightarrow> tx_session tx \<noteq> tx_session own \<and> q \<noteq> pk"
  shows "tx_inv (tx_view own s) tx"
proof (cases "pc_pk (tx_pc tx)")
  case None
  then show ?thesis using assms(1) by (simp add: tx_inv_def)
next
  case (Some q)
  have "owns s (tx_session own) pk" "consecutive (fold play_write ws (rows_of s pk))"
    using assms(3,4) by (simp_all add: tx_holding_def)
  note others = commit_tables(3) [OF assms(2) this(1) assms(6) this(2), where t = "tx_expires_at own" and x = "tx_session tx" and q = q]
  have hold: "tx_holding s tx q" using assms(1) Some by (simp add: tx_inv_def)
  then have "owns s (tx_session tx) q" by (simp add: tx_holding_def)
  with others assms(7) [OF Some] have "owns (tx_view own s) (tx_session tx) q \<and> rows_of (tx_view own s) q = rows_of s q"
    by (simp add: tx_view_def assms(5) session_put_def)
  then show ?thesis using hold Some by (simp add: tx_inv_def tx_holding_def)
qed

lemma read_event:
  assumes "pg_ok s"
  shows "replay calls (read_history sid s) (sessions_of s) = Some (sessions_of s)"
proof -
  have "map row_message (sort_key mr_turn_index (visible_rows s sid)) = live_messages (sessions_of s) sid (pg_now s)"
    using rows_of_consecutive [OF assms]
    by (auto simp: live_messages_def sessions_of_def visible_rows_def pg_expired_def sort_consecutive split: option.split)
  then show ?thesis by (simp add: read_history_def select_history_def visible_rows_def)
qed

lemma step_inv:
  assumes "db_inv calls a d"
  shows "db_inv calls a (db_step move d)"
proof -
  let ?s = "db_tables d" and ?txs = "db_txs d"
  note inv = assms [unfolded db_inv_def]
  show ?thesis
  proof (cases move)
    case (Wait dt)
    have "pg_ok (?s\<lparr>pg_now := t\<rparr>)" for t using inv by (simp add: pg_ok_def rows_of_def)
    then show ?thesis using inv Wait by (simp add: db_inv_def db_step_def tx_inv_env)
  next
    case (Get sid)
    have "count_list (read_history sid ?s) (Wrote i) = 0" for i
      by (auto simp: read_history_def split: option.split)
    then have "written ?txs (db_log d @ read_history sid ?s)" using inv by (simp add: written_def)
    then have "db_inv calls a (d\<lparr>db_log := db_log d @ read_history sid ?s\<rparr>)"
      using inv read_event by (simp add: db_inv_def replay_append)
    then show ?thesis using assms Get by (simp add: db_step_def)
  next
    case (Turn i outcome)
    show ?thesis
    proof (cases "i < length ?txs \<and> (blocked (db_max_size d) ?txs i \<longrightarrow> outcome = CallFails)")
      case False
      then show ?thesis using assms Turn by (auto simp: db_step_def)
    next
      case True
      let ?tx = "?txs ! i"
      obtain tx1 s1 where turn: "tx_turn outcome ?tx ?s = (tx1, s1)" by fastforce
      have step: "db_step move d = d\<lparr>db_tables := s1, db_txs := ?txs[i := tx1], db_log := db_log d @ wrote i ?tx tx1\<rparr>"
        using True Turn by (simp add: db_step_def turn)
      have ok: "pg_ok ?s" and all: "\<forall>tx \<in> set ?txs. tx_inv ?s tx" and locks: "locks_ok ?txs" using inv by simp_all
      then have own: "tx_inv ?s ?tx" using True by simp
      have plans: "map tx_plan (?txs[i := tx1]) = calls" if "tx_plan tx1 = tx_plan ?tx"
        using inv True that by (simp add: map_update) (metis list_update_id map_update nth_map)
      have ended: "tx_ended ?tx \<longrightarrow> tx1 = ?tx" using turn by (auto simp: tx_turn_def)
      have count: "written (?txs[i := tx1]) (db_log d @ wrote i ?tx tx1)"
        using inv True ended by (intro written_update) simp_all
      show ?thesis
        using turn ok own
      proof (cases rule: turn_cases)
        case (inside)
        have s1: "s1 = ?s\<lparr>pg_next_id := pg_next_id s1\<rparr>" "pg_next_id ?s \<le> pg_next_id s1" "tx_inv s1 tx1"
          using inside(1) by (simp_all add: local_turn_def)
        have "tx_inv s1 tx" if "tx \<in> set (?txs[i := tx1])" for tx
          using set_update_subset_insert [of ?txs i tx1] that all s1(3) tx_inv_env(2) [OF _ s1(2)] s1(1) by (metis insertE subsetD)
        moreover have "locks_ok (?txs[i := tx1])"
        proof (rule turn_locks [OF locks ok all _ _ inside])
          show "blocked (db_max_size d) ?txs i \<longrightarrow> pc_pk (tx_pc tx1) = None"
            using True turn by (auto simp: tx_turn_def tx_fail_def blocked_def tx_ended_def)
        qed (use True in simp)
        moreover have "pg_ok s1" "sessions_of s1 = sessions_of ?s"
          using pg_ok_next [OF ok s1(2)] s1(1) by (metis sessions_of_env(2))+
        ultimately show ?thesis
          using inv plans [OF inside(2)] count local_written [OF inside(1)] by (simp add: db_inv_def step)
      next
        case (commit pk)
        have hold: "tx_holding ?s ?tx pk" using own commit(1) by (simp add: tx_inv_def)
        then obtain ws where ws: "tx_writes ?tx = session_put ?tx pk # ws" "list_all (on_rows pk) ws"
          "stage (Committing pk) (tx_call ?tx) ws (rows_of ?s pk)" and owned: "owns ?s (tx_session ?tx) pk"
          using commit(1) by (auto simp: tx_holding_def)
        have cons: "consecutive (fold play_write ws (rows_of ?s pk))" using ws(3) by simp
        note after = commit_tables [OF ok owned ws(2) cons, where t = "tx_expires_at ?tx"]
        have s1: "s1 = apply_writes (PutSession \<lparr>sr_id = pk, sr_session_id = tx_session ?tx,
            sr_expires_at = Some (tx_expires_at ?tx)\<rparr> # ws) ?s"
          using commit(3) ws(1) by (simp add: tx_view_def session_put_def)
        have free: "pc_pk (tx_pc tx1) = None" using commit(2) by auto
        have "tx_inv s1 (?txs[i := tx1] ! j)" if "j < length ?txs" for j
        proof (cases "j = i")
          case True
          then show ?thesis using that free commit(2) by (auto simp: tx_inv_def tx_ended_def)
        next
          case False
          have "tx_session (?txs ! j) \<noteq> tx_session ?tx \<and> q \<noteq> pk" if "pc_pk (tx_pc (?txs ! j)) = Some q" for q
            using locks True that \<open>j < length ?txs\<close> False commit(1) unfolding locks_ok_def by (metis pc_pk.simps(7))
          with commit_inv [OF _ ok hold ws(3,1,2)] all that False commit(3) show ?thesis by simp
        qed
        then have invs: "\<forall>tx \<in> set (?txs[i := tx1]). tx_inv s1 tx" by (metis in_set_conv_nth length_list_update)
        have locks1: "locks_ok (?txs[i := tx1])"
          using True free by (intro locks_update [OF locks _ commit(4)]) auto
        have event: "wrote i ?tx tx1 = [Wrote i]" using commit(1,2) by (auto simp: wrote_def tx_ended_def)
        have call: "calls ! i = (tx_call ?tx, tx_session ?tx, tx_expires_at ?tx)"
          using inv True by (auto simp: tx_plan_def)
        have "messages_in (sessions_of ?s) (tx_session ?tx) = map row_message (rows_of ?s pk)"
          using owns_rows [OF ok owned] by (simp add: messages_in_def sessions_of_def stored_rows_def split: option.split)
        then have "replay calls [Wrote i] (sessions_of ?s) = Some (sessions_of s1)"
          using ws(3) after(2) by (simp add: call s1)
        then show ?thesis
          using inv invs locks1 plans [OF commit(4)] count after(1) by (simp add: db_inv_def step event replay_append s1)
      qed
    qed
  qed
qed

lemma run_inv: "db_inv calls a d \<Longrightarrow> db_inv calls a (db_run moves d)"
  by (induction moves arbitrary: d) (simp_all add: db_run_def step_inv)

lemma start_inv: "pg_ok s \<Longrightarrow> db_inv calls (sessions_of s) (db_start s max_size calls)"
proof -
  assume ok: "pg_ok s"
  have "tx_plan (case c of (call, sid, t) \<Rightarrow> new_tx call sid t) = c" for c
    by (simp add: tx_plan_def new_tx_def split: prod.split)
  moreover have "locks_ok (db_txs (db_start s max_size calls))" "written (db_txs (db_start s max_size calls)) []"
    by (auto simp: locks_ok_def written_def db_start_def new_tx_def split: prod.splits)
  ultimately show ?thesis
    using ok by (auto simp: db_inv_def db_start_def map_idI tx_inv_def new_tx_def split: prod.splits)
qed

subsection \<open>Progress\<close>

text \<open>The calls a transaction has left at most.\<close>

fun calls_left :: "tx_pc \<Rightarrow> nat" where
  "calls_left Connecting = 7"
| "calls_left Upserting = 6"
| "calls_left (Locking _) = 5"
| "calls_left (Numbering _) = 4"
| "calls_left (Inserting _ _) = 3"
| "calls_left (Trimming _ _) = 2"
| "calls_left (Deleting _) = 3"
| "calls_left (Refilling _) = 2"
| "calls_left (Committing _) = 1"
| "calls_left _ = 0"

definition pending :: "db \<Rightarrow> nat" where
  "pending d = sum_list (map (\<lambda>tx. calls_left (tx_pc tx)) (db_txs d))"

lemma turn_calls: "\<not> tx_ended tx \<Longrightarrow> calls_left (tx_pc (fst (tx_turn outcome tx s))) < calls_left (tx_pc tx)"
  by (cases "tx_pc tx"; cases outcome)
    (auto simp: tx_turn_def tx_piece_def tx_fail_def tx_write_def tx_ended_def Let_def
      split: option.split prod.split write_call.split)

lemma step_pending:
  assumes "i < length (db_txs d)" "blocked (db_max_size d) (db_txs d) i \<longrightarrow> outcome = CallFails" "\<not> tx_ended (db_txs d ! i)"
  shows "pending (db_step (Turn i outcome) d) < pending d"
proof -
  obtain tx1 s1 where turn: "tx_turn outcome (db_txs d ! i) (db_tables d) = (tx1, s1)" by fastforce
  have "calls_left (tx_pc tx1) < calls_left (tx_pc (db_txs d ! i))"
    using turn_calls [OF assms(3), of outcome "db_tables d"] turn by simp
  from sum_list_map_update [of i "db_txs d" "\<lambda>tx. calls_left (tx_pc tx)" tx1, OF assms(1) this]
  show ?thesis using assms(1,2) by (simp add: pending_def db_step_def turn)
qed

lemma some_unblocked:
  assumes "i < length txs" "\<not> tx_ended (txs ! i)" "0 < max_size"
  obtains j where "j < length txs" "\<not> tx_ended (txs ! j)" "\<not> blocked max_size txs j"
proof -
  consider (holds) j where "j < length txs" "pc_pk (tx_pc (txs ! j)) \<noteq> None"
    | (upserts) j where "j < length txs" "tx_pc (txs ! j) = Upserting" "\<forall>k < length txs. pc_pk (tx_pc (txs ! k)) = None"
    | (none) "\<forall>k < length txs. tx_pc (txs ! k) \<noteq> Upserting \<and> pc_pk (tx_pc (txs ! k)) = None"
    by blast
  then show thesis
  proof cases
    case holds
    then show thesis by (intro that [of j]) (auto simp: blocked_def tx_ended_def)
  next
    case upserts
    then have "\<not> list_ex (holds_session sid) txs" for sid by (auto simp: list_ex_length holds_session_def)
    with upserts show thesis by (intro that [of j]) (auto simp: blocked_def tx_ended_def)
  next
    case none
    have "\<not> connected tx" if "tx \<in> set txs" for tx
      using none that by (cases "tx_pc tx") (auto simp: connected_def tx_ended_def in_set_conv_nth)
    then have "filter connected txs = []" by (simp add: filter_empty_conv)
    then show thesis using assms none by (intro that [of i]) (auto simp: blocked_def pool_full_def)
  qed
qed

subsection \<open>One transaction alone\<close>

definition tx_alone :: "tx \<Rightarrow> pg \<Rightarrow> tx \<times> pg" where
  "tx_alone tx s = ((\<lambda>(tx, s). tx_turn Answered tx s) ^^ 7) (tx, s)"

lemma statement_ok: "pg_faults s = [] \<Longrightarrow>
  statement f s = (case f s of None \<Rightarrow> (None, s) | Some (x, s1) \<Rightarrow> (Some x, s1))"
  by (cases s) (simp add: statement_def Let_def split: option.split)

text \<open>The writes, applied to the tables, are what the statements do.\<close>

lemma upsert_view:
  assumes "pg_ok s" "upsert_session sid t s = Some (pk, s1)"
  shows "apply_write (PutSession \<lparr>sr_id = pk, sr_session_id = sid, sr_expires_at = Some t\<rparr>) (s\<lparr>pg_next_id := pg_next_id s1\<rparr>) = s1"
proof (cases "pg_find s sid")
  case None
  then show ?thesis using assms by (auto simp: upsert_session_def Let_def pg_ok_def list_all_iff split: if_splits)
next
  case (Some r)
  have r: "r \<in> set (pg_sessions s)" "sr_session_id r = sid" using pg_find_mem [OF Some] by simp_all
  have pk: "pk = sr_id r" using assms(2) Some by (auto simp: upsert_session_def Let_def split: if_splits)
  have s1: "s1 = s\<lparr>pg_next_id := pg_next_id s + 1,
      pg_sessions := map (\<lambda>p. if sr_session_id p = sid then p\<lparr>sr_expires_at := Some t\<rparr> else p) (pg_sessions s)\<rparr>"
    using assms(2) Some by (auto simp: upsert_session_def Let_def split: if_splits)
  have "(if sr_id p = pk then \<lparr>sr_id = pk, sr_session_id = sid, sr_expires_at = Some t\<rparr> else p) =
      (if sr_session_id p = sid then p\<lparr>sr_expires_at := Some t\<rparr> else p)" if "p \<in> set (pg_sessions s)" for p
  proof -
    have "sr_id p = pk \<longleftrightarrow> sr_session_id p = sid"
      using same_row [OF assms(1) that r(1)] r(2) pk by simp
    then show ?thesis by (cases p) auto
  qed
  then have "map (\<lambda>p. if sr_id p = pk then \<lparr>sr_id = pk, sr_session_id = sid, sr_expires_at = Some t\<rparr> else p) (pg_sessions s) =
      map (\<lambda>p. if sr_session_id p = sid then p\<lparr>sr_expires_at := Some t\<rparr> else p) (pg_sessions s)"
    by (rule map_cong [OF refl])
  moreover have "pk \<in> sr_id ` set (pg_sessions s)" using r(1) pk by blast
  ultimately show ?thesis by (simp add: s1)
qed

lemma trim_view: "trim_messages pk b v = Some ((), apply_write
    (DropMessages (filter (\<lambda>m. mr_session_pk m = pk \<and> mr_turn_index m \<le> b) (pg_messages v))) v)"
  unfolding trim_messages_def apply_write.simps drop_selected ..

lemma delete_view: "delete_messages pk v = Some ((), apply_write
    (DropMessages (filter (\<lambda>m. mr_session_pk m = pk) (pg_messages v))) v)"
  unfolding delete_messages_def apply_write.simps drop_selected ..

lemma insert_view: "insert_messages rows v = (if list_all (row_fits v) rows then Some ((), apply_write (PutMessages rows) v) else None)"
  by (simp add: insert_messages_def)

lemma view_write: "tx_view (tx_write w pc tx) s = apply_write w (tx_view tx s)"
  by (simp add: tx_view_def tx_write_def apply_writes_def)

text \<open>The calls of an append and of a replacement, one after the other.\<close>

lemma alone_calls:
  "tx_alone tx s = (let step = (\<lambda>(tx, s). tx_turn Answered tx s) in step (step (step (step (step (step (step (tx, s))))))))"
  by (simp add: tx_alone_def Let_def eval_nat_numeral)

lemma turn_Answered: "tx_turn Answered tx s = (if tx_ended tx then (tx, s) else tx_piece tx s)"
  by (simp add: tx_turn_def)

lemma faults_frame [simp]: "pg_faults (apply_write w s) = pg_faults s"
  by (cases w) simp_all

lemma upsert_faults: "upsert_session sid t s = Some (pk, s1) \<Longrightarrow> pg_faults s1 = pg_faults s"
  by (auto simp: upsert_session_def Let_def split: if_splits option.splits)

lemmas alone_defs = alone_calls turn_Answered tx_piece_def new_tx_def tx_ended_def tx_write_def tx_fail_def
  tx_view_def apply_writes_def session_put_def lock_session_def next_turn_last insert_view trim_view delete_view
  tx_result_def sql_bind_def sql_return_def statement_ok

lemma append_alone:
  assumes "pg_ok s" "pg_faults s = []"
  shows "case tx_alone (new_tx (Append cfg ms n) sid t) s of (tx, s') \<Rightarrow>
    (case append_body cfg sid ms n t s of
       (None, _) \<Rightarrow> tx_result tx = Some (Inl (store_error ''failed to append session history to postgres'')) \<and>
         pg_sessions s' = pg_sessions s \<and> pg_messages s' = pg_messages s
     | (Some _, s2) \<Rightarrow> tx_result tx = Some (Inr ()) \<and> s' = s2)"
proof (cases "upsert_session sid t s")
  case None
  then show ?thesis using assms(2) by (simp add: append_body_def alone_defs Let_def del: apply_write.simps)
next
  case (Some p)
  obtain pk s1 where p: "p = (pk, s1)" by fastforce
  note up = Some [unfolded p]
  note view = upsert_view [OF assms(1) up] and faults = upsert_faults [OF up]
  let ?new = "message_payload pk (last_turn (rows_of s1 pk) + 1) ms"
  show ?thesis
  proof (cases "list_all (row_fits s1) ?new")
    case False
    then show ?thesis using assms(2) up view faults by (simp add: append_body_def alone_defs Let_def del: apply_write.simps)
  next
    case True
    then show ?thesis using assms(2) up view faults
      by (cases "resolve_max_messages cfg n") (simp_all add: append_body_def alone_defs Let_def del: apply_write.simps)
  qed
qed

lemma replace_alone:
  assumes "pg_ok s" "pg_faults s = []"
  shows "case tx_alone (new_tx (Replace cfg ms) sid t) s of (tx, s') \<Rightarrow>
    (case set_body sid (normalize_messages cfg ms) t s of
       (None, _) \<Rightarrow> tx_result tx = Some (Inl (store_error ''failed to set session history in postgres'')) \<and>
         pg_sessions s' = pg_sessions s \<and> pg_messages s' = pg_messages s
     | (Some _, s2) \<Rightarrow> tx_result tx = Some (Inr ()) \<and> s' = s2)"
proof (cases "upsert_session sid t s")
  case None
  then show ?thesis using assms(2) by (simp add: set_body_def alone_defs Let_def del: apply_write.simps)
next
  case (Some p)
  obtain pk s1 where p: "p = (pk, s1)" by fastforce
  note up = Some [unfolded p]
  note view = upsert_view [OF assms(1) up] and faults = upsert_faults [OF up]
  let ?v = "apply_write (DropMessages (filter (\<lambda>m. mr_session_pk m = pk) (pg_messages s1))) s1"
  consider "normalize_messages cfg ms = []"
    | "normalize_messages cfg ms \<noteq> []" "list_all (row_fits ?v) (message_payload pk 0 (normalize_messages cfg ms))"
    | "normalize_messages cfg ms \<noteq> []" "\<not> list_all (row_fits ?v) (message_payload pk 0 (normalize_messages cfg ms))"
    by blast
  then show ?thesis using assms(2) up view faults
    by cases (simp_all add: set_body_def alone_defs Let_def del: apply_write.simps)
qed

subsection \<open>Properties\<close>

text \<open>
  C3: the transactions of the Postgres store are serializable, call by call. However the calls of
  any number of appends and replacements on any sessions interleave, with reads between them,
  time passing, calls failing and answers to COMMIT lost, the tables hold exactly what the
  committed writes give when run whole, in the order of their commits, and every read returned
  what it would have returned among them; a write that the caller was told has succeeded has
  committed, none commits twice, and one that failed before its COMMIT leaves nothing.
\<close>

theorem postgres_serializable:
  assumes "pg_ok s" "d = db_run moves (db_start s max_size calls)"
  shows "replay calls (db_log d) (sessions_of s) = Some (sessions_of (db_tables d)) \<and>
    (\<forall>i < length calls. count_list (db_log d) (Wrote i) = (if tx_pc (db_txs d ! i) \<in> {Committed, Lost} then 1 else 0) \<and>
       (tx_result (db_txs d ! i) = Some (Inr ()) \<longrightarrow> tx_pc (db_txs d ! i) = Committed))"
proof -
  have inv: "db_inv calls (sessions_of s) d" unfolding assms(2) by (rule run_inv [OF start_inv [OF assms(1)]])
  then have "length (db_txs d) = length calls" by (auto simp: db_inv_def)
  then show ?thesis using inv by (auto simp: db_inv_def written_def tx_result_def split: tx_pc.splits)
qed

text \<open>Two appends to one new session: the second waits at its upsert for the first.\<close>

definition demo_calls :: "(write_call \<times> string \<times> real) list" where
  "demo_calls = [(Append demo_pg_config [user_msg ''a''] None, ''s'', 60), (Append demo_pg_config [user_msg ''b''] None, ''s'', 60)]"

definition demo_moves :: "db_move list" where
  "demo_moves = (let t0 = Turn 0 Answered; t1 = Turn 1 Answered in
     [t0, t1, t0, t1, t0, t0, t1, t0, t0, Get ''s'', t0, Get ''s'', t1, t1, t1, t1, t1, Turn 1 AnswerLost, Get ''s''])"

lemma demo_moves_log: "db_log (db_run demo_moves (db_start (empty_pg 0 []) 5 demo_calls)) =
  [Read ''s'' 0 [], Wrote 0, Read ''s'' 0 [user_msg ''a''], Wrote 1, Read ''s'' 0 [user_msg ''a'', user_msg ''b'']]"
  by code_simp

theorem postgres_serializable_witness:
  "replay demo_calls [Read ''s'' 0 [], Wrote 0, Read ''s'' 0 [user_msg ''a''], Wrote 1, Read ''s'' 0 [user_msg ''a'', user_msg ''b'']]
     (sessions_of (empty_pg 0 [])) = Some (sessions_of (db_tables (db_run demo_moves (db_start (empty_pg 0 []) 5 demo_calls))))"
  using postgres_serializable [OF pg_ok_empty [of 0 "[]"] refl, where calls = demo_calls and moves = demo_moves and max_size = 5]
  unfolding demo_moves_log by (rule conjunct1)

text \<open>
  C25: transactions make progress. In every state of the server, with a pool of at least one
  connection, unless every transaction has ended, one of those that have not is not blocked,
  and its next call, however it ends, leaves fewer calls to come; one that is blocked may give
  up its wait: neither the locks nor the pool deadlock, and every write is answered after at
  most seven calls of its own.
\<close>

theorem transactions_progress:
  assumes "0 < db_max_size d" "\<not> list_all tx_ended (db_txs d)"
  shows "(\<exists>i < length (db_txs d). \<not> tx_ended (db_txs d ! i) \<and> \<not> blocked (db_max_size d) (db_txs d) i \<and>
      (\<forall>outcome. pending (db_step (Turn i outcome) d) < pending d)) \<and>
    (\<forall>i < length (db_txs d). \<not> tx_ended (db_txs d ! i) \<longrightarrow> pending (db_step (Turn i CallFails) d) < pending d)"
proof -
  obtain i where "i < length (db_txs d)" "\<not> tx_ended (db_txs d ! i)" using assms(2) by (auto simp: list_all_length)
  then obtain j where "j < length (db_txs d)" "\<not> tx_ended (db_txs d ! j)" "\<not> blocked (db_max_size d) (db_txs d) j"
    using assms(1) by (rule some_unblocked)
  with step_pending show ?thesis by blast
qed

text \<open>A pool of one connection: the second transaction waits for the first, and gives up.\<close>

theorem transactions_progress_witness:
  "pending (db_step (Turn 1 CallFails) (db_run [Turn 0 Answered] (db_start (empty_pg 0 []) 1 demo_calls))) < 13 \<and>
   blocked 1 (db_txs (db_run [Turn 0 Answered] (db_start (empty_pg 0 []) 1 demo_calls))) 1"
proof -
  let ?d = "db_run [Turn 0 Answered] (db_start (empty_pg 0 []) 1 demo_calls)"
  have txs: "db_txs ?d = [(new_tx (Append demo_pg_config [user_msg ''a''] None) ''s'' 60)\<lparr>tx_pc := Upserting\<rparr>,
      new_tx (Append demo_pg_config [user_msg ''b''] None) ''s'' 60]" and size: "db_max_size ?d = 1"
    by (simp_all add: db_run_def db_start_def demo_calls_def db_step_def blocked_def pool_full_def connected_def new_tx_def
        tx_ended_def tx_turn_def tx_piece_def Let_def)
  have "\<not> list_all tx_ended (db_txs ?d)" unfolding txs by (simp add: new_tx_def tx_ended_def)
  moreover have "0 < db_max_size ?d" unfolding size by simp
  moreover have "1 < length (db_txs ?d) \<and> \<not> tx_ended (db_txs ?d ! 1)" unfolding txs by (simp add: new_tx_def tx_ended_def)
  ultimately have "pending (db_step (Turn 1 CallFails) ?d) < pending ?d" using transactions_progress by blast
  moreover have "pending ?d = 13" unfolding pending_def txs by (simp add: new_tx_def)
  moreover have "blocked 1 (db_txs ?d) 1" unfolding txs
    by (simp add: new_tx_def blocked_def pool_full_def connected_def tx_ended_def)
  ultimately show ?thesis by simp
qed



end
