(* ===== verification/Connection_Pool.thy ===== *)
theory Connection_Pool
  imports Postgres_Store
begin

text \<open>
  The connection pool of the Postgres repository shared by concurrent tasks: \<open>_ensure_pool\<close>,
  which creates it at the first use under an \<open>asyncio.Lock\<close>, and \<open>close\<close>. A task runs without
  interruption up to its next await; an await may end in an exception, which stands for a
  failing server and for a cancelled task alike. The lock is that of \<open>asyncio\<close>: it is taken at
  once where it is free and nobody waits, and handed on in the order of the waiters.
\<close>

subsection \<open>The shared state\<close>

text \<open>
  Pools are numbered in the order of their creation. \<open>ps_open\<close> lists those that are created and
  not closed, whether or not the repository still refers to them.
\<close>

record pool_state =
  ps_pool :: "nat option"
  ps_locked :: bool
  ps_waiters :: "nat list"
  ps_created :: nat
  ps_open :: "nat list"

text \<open>Where a task stands: in \<open>_ensure_pool\<close> or in \<open>close\<close>.\<close>

datatype pool_pc =
    Ensure_Start
  | Waiting
  | Creating
  | Returned "nat option"
  | Ensure_Raised
  | Close_Start
  | Closing nat
  | Closed
  | Close_Raised

subsection \<open>The pieces between two awaits\<close>

definition release :: "pool_state \<Rightarrow> pool_state" where
  "release s = s\<lparr>ps_locked := False\<rparr>"

text \<open>Under the lock: the second test of \<open>self._pool\<close>, and \<open>return self._pool\<close> behind the block.\<close>

definition locked_part :: "pool_state \<Rightarrow> pool_pc \<times> pool_state" where
  "locked_part s = (if ps_pool s = None then (Creating, s) else (Returned (ps_pool s), release s))"

definition ensure_start :: "nat \<Rightarrow> pool_state \<Rightarrow> pool_pc \<times> pool_state" where
  "ensure_start i s =
     (if ps_pool s \<noteq> None then (Returned (ps_pool s), s)
      else if \<not> ps_locked s \<and> ps_waiters s = [] then locked_part (s\<lparr>ps_locked := True\<rparr>)
      else (Waiting, s\<lparr>ps_waiters := ps_waiters s @ [i]\<rparr>))"

definition ensure_woken :: "nat \<Rightarrow> bool \<Rightarrow> pool_state \<Rightarrow> pool_pc \<times> pool_state" where
  "ensure_woken i ok s = (let s1 = s\<lparr>ps_waiters := removeAll i (ps_waiters s)\<rparr>
     in if ok then locked_part (s1\<lparr>ps_locked := True\<rparr>) else (Ensure_Raised, s1))"

text \<open>\<open>self._pool = await asyncpg.create_pool(...)\<close>, the end of the block, and the return.\<close>

definition ensure_created :: "bool \<Rightarrow> pool_state \<Rightarrow> pool_pc \<times> pool_state" where
  "ensure_created ok s =
     (if ok then (let p = ps_created s; s1 = s\<lparr>ps_created := p + 1, ps_open := ps_open s @ [p], ps_pool := Some p\<rparr>
        in (Returned (ps_pool s1), release s1))
      else (Ensure_Raised, release s))"

definition close_start :: "pool_state \<Rightarrow> pool_pc \<times> pool_state" where
  "close_start s = (case ps_pool s of None \<Rightarrow> (Closed, s) | Some p \<Rightarrow> (Closing p, s))"

definition close_answered :: "nat \<Rightarrow> bool \<Rightarrow> pool_state \<Rightarrow> pool_pc \<times> pool_state" where
  "close_answered p ok s =
     (if ok then (Closed, s\<lparr>ps_open := removeAll p (ps_open s), ps_pool := None\<rparr>) else (Close_Raised, s))"

fun pool_piece :: "nat \<Rightarrow> bool \<Rightarrow> pool_pc \<Rightarrow> pool_state \<Rightarrow> pool_pc \<times> pool_state" where
  "pool_piece i ok Ensure_Start s = ensure_start i s"
| "pool_piece i ok Waiting s = ensure_woken i ok s"
| "pool_piece i ok Creating s = ensure_created ok s"
| "pool_piece i ok Close_Start s = close_start s"
| "pool_piece i ok (Closing p) s = close_answered p ok s"
| "pool_piece i ok pc s = (pc, s)"

subsection \<open>The tasks together\<close>

record pool_world =
  pw_state :: pool_state
  pw_tasks :: "pool_pc list"

text \<open>A waiter goes on when the lock is free and it is the first in the queue, or when it is cancelled.\<close>

definition may_run :: "nat \<Rightarrow> bool \<Rightarrow> pool_world \<Rightarrow> bool" where
  "may_run i ok w \<longleftrightarrow> i < length (pw_tasks w) \<and> (pw_tasks w ! i = Waiting \<and> ok \<longrightarrow>
     \<not> ps_locked (pw_state w) \<and> ps_waiters (pw_state w) \<noteq> [] \<and> hd (ps_waiters (pw_state w)) = i)"

definition pool_step :: "nat \<times> bool \<Rightarrow> pool_world \<Rightarrow> pool_world" where
  "pool_step = (\<lambda>(i, ok) w.
     if may_run i ok w
     then (case pool_piece i ok (pw_tasks w ! i) (pw_state w) of (pc, s) \<Rightarrow> w\<lparr>pw_state := s, pw_tasks := (pw_tasks w)[i := pc]\<rparr>)
     else w)"

definition pool_run :: "(nat \<times> bool) list \<Rightarrow> pool_world \<Rightarrow> pool_world" where
  "pool_run moves w = fold pool_step moves w"

text \<open>A new repository, with some tasks that ask for the pool and some that close it.\<close>

definition new_pool :: pool_state where
  "new_pool = \<lparr>ps_pool = None, ps_locked = False, ps_waiters = [], ps_created = 0, ps_open = []\<rparr>"

definition pool_start :: "pool_pc list \<Rightarrow> pool_world" where
  "pool_start tasks = \<lparr>pw_state = new_pool, pw_tasks = tasks\<rparr>"

subsection \<open>The invariant\<close>

fun is_closer :: "pool_pc \<Rightarrow> bool" where
  "is_closer Close_Start \<longleftrightarrow> True"
| "is_closer (Closing p) \<longleftrightarrow> True"
| "is_closer Closed \<longleftrightarrow> True"
| "is_closer Close_Raised \<longleftrightarrow> True"
| "is_closer pc \<longleftrightarrow> False"

definition at_most_one :: "('a \<Rightarrow> bool) \<Rightarrow> 'a list \<Rightarrow> bool" where
  "at_most_one P xs \<longleftrightarrow> (\<forall>i < length xs. \<forall>j < length xs. P (xs ! i) \<longrightarrow> P (xs ! j) \<longrightarrow> i = j)"

lemma at_most_one_other: "at_most_one P xs \<Longrightarrow> i < length xs \<Longrightarrow> j < length xs \<Longrightarrow> P (xs ! i) \<Longrightarrow> j \<noteq> i \<Longrightarrow> \<not> P (xs ! j)"
  unfolding at_most_one_def by blast

lemma at_most_one_update:
  assumes "at_most_one P xs" "i < length xs" "P x \<Longrightarrow> P (xs ! i) \<or> (\<forall>y \<in> set xs. \<not> P y)"
  shows "at_most_one P (xs[i := x])"
  unfolding at_most_one_def length_list_update
proof (intro allI impI)
  fix j k
  assume j: "j < length xs" "P (xs[i := x] ! j)" and k: "k < length xs" "P (xs[i := x] ! k)"
  have other: "\<not> P x" if "l < length xs" "l \<noteq> i" "P (xs ! l)" for l
    using assms(3) at_most_one_other [OF assms(1) that(1) assms(2) that(3)] that by (metis nth_mem)
  consider "j = i" | "k = i" "j \<noteq> i" | "j \<noteq> i" "k \<noteq> i" by blast
  then show "j = k"
  proof cases
    case 1
    then show ?thesis using j k assms(2) other [OF k(1)] by (cases "k = i") simp_all
  next
    case 2
    then show ?thesis using j k assms(2) other [OF j(1)] by simp
  next
    case 3
    then show ?thesis using j k assms(1) unfolding at_most_one_def by simp
  qed
qed

text \<open>What a task relies on: the creator on the lock and that there is no pool, the closer on the pool it closes.\<close>

definition task_inv :: "pool_state \<Rightarrow> pool_pc \<Rightarrow> bool" where
  "task_inv s pc \<longleftrightarrow> (case pc of
       Creating \<Rightarrow> ps_locked s \<and> ps_pool s = None
     | Closing p \<Rightarrow> ps_pool s = Some p
     | Returned r \<Rightarrow> r \<noteq> None
     | _ \<Rightarrow> True)"

definition created_inv :: "pool_state \<Rightarrow> pool_pc list \<Rightarrow> bool" where
  "created_inv s tasks \<longleftrightarrow>
     (if Closed \<in> set tasks then ps_created s \<le> 1 + length (ps_open s)
      else ps_created s = length (ps_open s) \<and> (\<forall>r. Returned r \<in> set tasks \<longrightarrow> r = ps_pool s))"

definition queue_inv :: "pool_state \<Rightarrow> pool_pc list \<Rightarrow> bool" where
  "queue_inv s tasks \<longleftrightarrow> (ps_locked s \<longrightarrow> Creating \<in> set tasks) \<and>
     (\<forall>i. i \<in> set (ps_waiters s) \<longleftrightarrow> i < length tasks \<and> tasks ! i = Waiting)"

definition pool_inv :: "pool_world \<Rightarrow> bool" where
  "pool_inv w \<longleftrightarrow> at_most_one is_closer (pw_tasks w) \<and> at_most_one (\<lambda>pc. pc = Creating) (pw_tasks w) \<and>
     (\<forall>i < length (pw_tasks w). task_inv (pw_state w) (pw_tasks w ! i)) \<and> queue_inv (pw_state w) (pw_tasks w) \<and>
     created_inv (pw_state w) (pw_tasks w) \<and> ps_open (pw_state w) = option_list (ps_pool (pw_state w))"

lemma pool_inv_update:
  assumes inv: "pool_inv w" and i: "i < length (pw_tasks w)"
  defines "s \<equiv> pw_state w" and "old \<equiv> pw_tasks w ! i"
  assumes closer: "is_closer pc \<Longrightarrow> is_closer old"
    and creator: "pc = Creating \<Longrightarrow> \<not> ps_locked s"
    and own: "task_inv s1 pc"
    and others: "\<And>x. task_inv s x \<Longrightarrow> (old = Creating \<Longrightarrow> x \<noteq> Creating) \<Longrightarrow> (is_closer old \<Longrightarrow> \<not> is_closer x) \<Longrightarrow> task_inv s1 x"
    and lock: "ps_locked s1 \<Longrightarrow> pc = Creating \<or> ps_locked s \<and> old \<noteq> Creating"
    and queue: "set (ps_waiters s1) = (if pc = Waiting then insert i (set (ps_waiters s)) else set (ps_waiters s) - {i})"
    and opened: "ps_open s1 = option_list (ps_pool s1)"
    and created: "created_inv s1 ((pw_tasks w)[i := pc])"
  shows "pool_inv (w\<lparr>pw_state := s1, pw_tasks := (pw_tasks w)[i := pc]\<rparr>)"
proof -
  let ?t = "pw_tasks w"
  have parts: "at_most_one is_closer ?t" "at_most_one (\<lambda>pc. pc = Creating) ?t" "\<forall>j < length ?t. task_inv s (?t ! j)" "queue_inv s ?t"
    using inv by (simp_all add: pool_inv_def s_def)
  have none: "Creating \<notin> set ?t" if "\<not> ps_locked s" using parts(3) that by (auto simp: in_set_conv_nth task_inv_def)
  have "at_most_one is_closer (?t[i := pc])"
    using parts(1) i closer by (intro at_most_one_update) (auto simp: old_def)
  moreover have "at_most_one (\<lambda>pc. pc = Creating) (?t[i := pc])"
    using parts(2) i creator none by (intro at_most_one_update) auto
  moreover have "task_inv s1 (?t[i := pc] ! j)" if "j < length ?t" for j
  proof (cases "j = i")
    case False
    have "old = Creating \<Longrightarrow> ?t ! j \<noteq> Creating" "is_closer old \<Longrightarrow> \<not> is_closer (?t ! j)"
      using at_most_one_other [OF parts(2) i that _ False] at_most_one_other [OF parts(1) i that _ False]
      by (simp_all add: old_def)
    with others parts(3) that False show ?thesis by simp
  qed (use own i in simp)
  moreover have "queue_inv s1 (?t[i := pc])"
  proof -
    have "Creating \<in> set (?t[i := pc])" if "ps_locked s1"
    proof (cases "pc = Creating")
      case True
      then show ?thesis using set_update_memI [OF i, of pc] by simp
    next
      case False
      with lock [OF that] parts(4) have "Creating \<in> set ?t" "old \<noteq> Creating" by (auto simp: queue_inv_def)
      then obtain k where "k < length ?t" "?t ! k = Creating" "k \<noteq> i" by (auto simp: in_set_conv_nth old_def)
      then show ?thesis by (metis length_list_update nth_list_update_neq nth_mem)
    qed
    moreover have "k \<in> set (ps_waiters s1) \<longleftrightarrow> k < length (?t[i := pc]) \<and> ?t[i := pc] ! k = Waiting" for k
      using parts(4) i queue by (cases "k = i") (auto simp: queue_inv_def)
    ultimately show ?thesis by (simp add: queue_inv_def)
  qed
  ultimately show ?thesis using opened created by (simp add: pool_inv_def)
qed

text \<open>What a piece does, case by case.\<close>

lemma piece_cases:
  assumes "pool_piece i ok old s = (pc, s1)" "old = Waiting \<and> ok \<longrightarrow> \<not> ps_locked s"
  obtains (idle) "pc = old" "s1 = s"
  | (found) p where "old \<in> {Ensure_Start, Waiting}" "ps_pool s = Some p" "pc = Returned (Some p)"
      "ps_pool s1 = ps_pool s" "ps_locked s1 = ps_locked s" "ps_created s1 = ps_created s" "ps_open s1 = ps_open s"
      "set (ps_waiters s1) = (if old = Waiting then set (ps_waiters s) - {i} else set (ps_waiters s))"
  | (take) "old \<in> {Ensure_Start, Waiting}" "ps_pool s = None" "\<not> ps_locked s" "pc = Creating"
      "s1 = s\<lparr>ps_waiters := removeAll i (ps_waiters s), ps_locked := True\<rparr>"
  | (wait) "old = Ensure_Start" "pc = Waiting" "s1 = s\<lparr>ps_waiters := ps_waiters s @ [i]\<rparr>"
  | (cancelled) "old = Waiting" "pc = Ensure_Raised" "s1 = s\<lparr>ps_waiters := removeAll i (ps_waiters s)\<rparr>"
  | (created) "old = Creating" "pc = Returned (Some (ps_created s))"
      "s1 = s\<lparr>ps_created := ps_created s + 1, ps_open := ps_open s @ [ps_created s], ps_pool := Some (ps_created s), ps_locked := False\<rparr>"
  | (failed) "old = Creating" "pc = Ensure_Raised" "s1 = s\<lparr>ps_locked := False\<rparr>"
  | (unused) "old = Close_Start" "ps_pool s = None" "pc = Closed" "s1 = s"
  | (close) p where "old = Close_Start" "ps_pool s = Some p" "pc = Closing p" "s1 = s"
  | (closed) p where "old = Closing p" "pc = Closed" "s1 = s\<lparr>ps_open := removeAll p (ps_open s), ps_pool := None\<rparr>"
  | (unclosed) p where "old = Closing p" "pc = Close_Raised" "s1 = s"
proof (cases old)
  case Ensure_Start
  then show thesis using assms(1)
    by (auto simp: ensure_start_def locked_part_def split: if_splits intro: found take wait)
next
  case Waiting
  show thesis
  proof (cases ok)
    case True
    then show thesis using assms Waiting
      by (auto simp: ensure_woken_def locked_part_def release_def Let_def split: if_splits intro: found take)
  next
    case False
    then show thesis using assms(1) Waiting cancelled by (auto simp: ensure_woken_def Let_def)
  qed
next
  case Creating
  then show thesis using assms(1) by (auto simp: ensure_created_def release_def Let_def split: if_splits intro: created failed)
next
  case Close_Start
  show thesis
  proof (cases "ps_pool s")
    case None
    show thesis by (rule unused) (use assms(1) Close_Start None in \<open>simp_all add: close_start_def\<close>)
  next
    case (Some p)
    show thesis by (rule close) (use assms(1) Close_Start Some in \<open>auto simp: close_start_def\<close>)
  qed
next
  case (Closing p)
  then show thesis using assms(1) by (auto simp: close_answered_def split: if_splits intro: closed unclosed)
qed (use assms(1) idle in auto)

lemma created_inv_open: "created_inv s tasks \<Longrightarrow> Closed \<notin> set tasks \<Longrightarrow> ps_created s = length (ps_open s)"
  by (simp add: created_inv_def)

lemma pool_in_update: "i < length xs \<Longrightarrow> x \<noteq> xs ! i \<Longrightarrow> x \<in> set (xs[i := y]) \<longleftrightarrow> x = y \<or> x \<in> set xs"
  by (auto simp: in_set_conv_nth nth_list_update)

text \<open>A piece that neither creates nor closes a pool.\<close>

lemma created_inv_same:
  assumes "created_inv s tasks" "i < length tasks" "tasks ! i \<noteq> Closed" "pc \<noteq> Closed"
    and "ps_created s1 = ps_created s" "ps_open s1 = ps_open s" "ps_pool s1 = ps_pool s" "\<And>r. pc = Returned r \<Longrightarrow> r = ps_pool s"
  shows "created_inv s1 (tasks[i := pc])"
proof -
  have "Closed \<in> set (tasks[i := pc]) \<longleftrightarrow> Closed \<in> set tasks" using assms(2,3,4) by (simp add: pool_in_update)
  then show ?thesis using assms set_update_subset_insert [of tasks i pc] by (auto simp: created_inv_def)
qed

lemma pool_step_inv:
  assumes inv: "pool_inv w"
  shows "pool_inv (pool_step (i, ok) w)"
proof (cases "may_run i ok w")
  case False
  then show ?thesis using inv by (simp add: pool_step_def)
next
  case run: True
  let ?s = "pw_state w" and ?t = "pw_tasks w"
  have i: "i < length ?t" and wake: "?t ! i = Waiting \<and> ok \<longrightarrow> \<not> ps_locked ?s" using run by (simp_all add: may_run_def)
  obtain pc s1 where piece: "pool_piece i ok (?t ! i) ?s = (pc, s1)" by fastforce
  have own: "task_inv ?s (?t ! i)" and queue: "queue_inv ?s ?t" and opened: "ps_open ?s = option_list (ps_pool ?s)"
    and made: "created_inv ?s ?t" using inv i by (simp_all add: pool_inv_def)
  have waiting: "i \<in> set (ps_waiters ?s) \<longleftrightarrow> ?t ! i = Waiting" using queue i by (simp add: queue_inv_def)
  have "pool_inv (w\<lparr>pw_state := s1, pw_tasks := ?t[i := pc]\<rparr>)"
    using piece wake
  proof (cases rule: piece_cases)
    case idle
    then show ?thesis using inv by simp
  next
    case (found p)
    have made1: "created_inv s1 (?t[i := pc])"
      using found by (intro created_inv_same [OF made i]) auto
    show ?thesis by (rule pool_inv_update [OF inv i _ _ _ _ _ _ _ made1])
      (use found waiting opened in \<open>auto simp: task_inv_def split: pool_pc.splits\<close>)
  next
    case take
    have made1: "created_inv s1 (?t[i := pc])"
      using take by (intro created_inv_same [OF made i]) auto
    show ?thesis by (rule pool_inv_update [OF inv i _ _ _ _ _ _ _ made1])
      (use take waiting opened in \<open>auto simp: task_inv_def split: pool_pc.splits\<close>)
  next
    case wait
    have made1: "created_inv s1 (?t[i := pc])"
      using wait by (intro created_inv_same [OF made i]) auto
    show ?thesis by (rule pool_inv_update [OF inv i _ _ _ _ _ _ _ made1])
      (use wait opened waiting in \<open>auto simp: task_inv_def split: pool_pc.splits\<close>)
  next
    case cancelled
    have made1: "created_inv s1 (?t[i := pc])"
      using cancelled by (intro created_inv_same [OF made i]) auto
    show ?thesis by (rule pool_inv_update [OF inv i _ _ _ _ _ _ _ made1])
      (use cancelled opened in \<open>auto simp: task_inv_def split: pool_pc.splits\<close>)
  next
    case created
    have none: "ps_pool ?s = None" "ps_open ?s = []" using own created(1) opened by (simp_all add: task_inv_def)
    have "Returned r \<notin> set ?t" if "Closed \<notin> set ?t" for r
    proof
      assume r: "Returned r \<in> set ?t"
      then have "r = None" using made that none(1) by (simp add: created_inv_def)
      moreover have "task_inv ?s (Returned r)" using r inv by (auto simp: pool_inv_def in_set_conv_nth)
      ultimately show False by (simp add: task_inv_def)
    qed
    moreover have "Closed \<in> set (?t[i := pc]) \<longleftrightarrow> Closed \<in> set ?t" using i created(1,2) by (simp add: pool_in_update)
    ultimately have made1: "created_inv s1 (?t[i := pc])"
      using made created(2,3) none set_update_subset_insert [of ?t i pc] by (auto simp: created_inv_def)
    show ?thesis by (rule pool_inv_update [OF inv i _ _ _ _ _ _ _ made1])
      (use created none waiting in \<open>auto simp: task_inv_def split: pool_pc.splits\<close>)
  next
    case failed
    have made1: "created_inv s1 (?t[i := pc])"
      using failed by (intro created_inv_same [OF made i]) auto
    show ?thesis by (rule pool_inv_update [OF inv i _ _ _ _ _ _ _ made1])
      (use failed opened waiting in \<open>auto simp: task_inv_def split: pool_pc.splits\<close>)
  next
    case unused
    have "Closed \<notin> set ?t" using inv i unused(1) at_most_one_other [of is_closer ?t i]
      by (fastforce simp: pool_inv_def in_set_conv_nth)
    then have "ps_created ?s \<le> 1" using made opened unused(2) by (simp add: created_inv_def)
    moreover have "Closed \<in> set (?t[i := pc])" using unused(3) set_update_memI [OF i] by simp
    ultimately have made1: "created_inv s1 (?t[i := pc])" using unused(4) by (simp add: created_inv_def)
    show ?thesis by (rule pool_inv_update [OF inv i _ _ _ _ _ _ _ made1])
      (use unused opened waiting own in \<open>auto simp: task_inv_def split: pool_pc.splits\<close>)
  next
    case (close p)
    have made1: "created_inv s1 (?t[i := pc])"
      using close by (intro created_inv_same [OF made i]) auto
    show ?thesis by (rule pool_inv_update [OF inv i _ _ _ _ _ _ _ made1])
      (use close opened waiting in \<open>auto simp: task_inv_def split: pool_pc.splits\<close>)
  next
    case (closed p)
    have pool: "ps_pool ?s = Some p" using own closed(1) by (simp add: task_inv_def)
    have "Closed \<notin> set ?t" using inv i closed(1) at_most_one_other [of is_closer ?t i]
      by (fastforce simp: pool_inv_def in_set_conv_nth)
    then have "ps_created ?s \<le> 1" using made opened pool by (simp add: created_inv_def)
    moreover have "Closed \<in> set (?t[i := pc])" using closed(2) set_update_memI [OF i] by simp
    ultimately have made1: "created_inv s1 (?t[i := pc])" using closed(3) by (simp add: created_inv_def)
    show ?thesis by (rule pool_inv_update [OF inv i _ _ _ _ _ _ _ made1])
      (use closed opened pool waiting own in \<open>auto simp: task_inv_def split: pool_pc.splits\<close>)
  next
    case (unclosed p)
    have made1: "created_inv s1 (?t[i := pc])"
      using unclosed by (intro created_inv_same [OF made i]) auto
    show ?thesis by (rule pool_inv_update [OF inv i _ _ _ _ _ _ _ made1])
      (use unclosed opened waiting in \<open>auto simp: task_inv_def split: pool_pc.splits\<close>)
  qed
  then show ?thesis using run by (simp add: pool_step_def piece)
qed

lemma pool_run_inv: "pool_inv w \<Longrightarrow> pool_inv (pool_run moves w)"
proof (induction moves arbitrary: w)
  case (Cons m moves)
  obtain i ok where "m = (i, ok)" by fastforce
  then show ?case using Cons pool_step_inv [of w i ok] by (simp add: pool_run_def)
qed (simp add: pool_run_def)

text \<open>The tasks at the start: any number that ask for the pool, at most one that closes it.\<close>

definition fresh_tasks :: "pool_pc list \<Rightarrow> bool" where
  "fresh_tasks tasks \<longleftrightarrow> set tasks \<subseteq> {Ensure_Start, Close_Start} \<and> count_list tasks Close_Start \<le> 1"

lemma at_most_one_Cons: "at_most_one P (y # ys) \<longleftrightarrow> at_most_one P ys \<and> (P y \<longrightarrow> (\<forall>z \<in> set ys. \<not> P z))"
  unfolding at_most_one_def by (simp add: All_less_Suc2 all_set_conv_all_nth) blast

lemma count_one: "count_list xs x \<le> 1 \<Longrightarrow> at_most_one (\<lambda>y. y = x) xs"
proof (induction xs)
  case (Cons y ys)
  have "x \<notin> set ys" if "y = x" using Cons.prems that by (simp add: count_list_0_iff)
  moreover have "at_most_one (\<lambda>y. y = x) ys" using Cons by (simp split: if_splits)
  ultimately show ?case by (auto simp: at_most_one_Cons)
qed (simp add: at_most_one_def)

lemma pool_start_inv:
  assumes "fresh_tasks tasks"
  shows "pool_inv (pool_start tasks)"
proof -
  have tasks: "tasks ! i \<in> {Ensure_Start, Close_Start}" if "i < length tasks" for i
    using assms that nth_mem unfolding fresh_tasks_def by blast
  have "at_most_one (\<lambda>pc. pc = Close_Start) tasks" using assms by (simp add: fresh_tasks_def count_one)
  then have "at_most_one is_closer tasks" using tasks unfolding at_most_one_def
    by (metis insertE is_closer.simps(5) singletonD)
  moreover have "at_most_one (\<lambda>pc. pc = Creating) tasks" using tasks by (fastforce simp: at_most_one_def)
  moreover have "\<forall>i < length tasks. task_inv new_pool (tasks ! i)" using tasks by (fastforce simp: task_inv_def)
  moreover have "queue_inv new_pool tasks" using tasks by (fastforce simp: queue_inv_def new_pool_def)
  moreover have "created_inv new_pool tasks" using assms by (auto simp: created_inv_def new_pool_def fresh_tasks_def)
  ultimately show ?thesis by (simp add: pool_inv_def pool_start_def new_pool_def)
qed

subsection \<open>Progress\<close>

fun awaits_left :: "pool_pc \<Rightarrow> nat" where
  "awaits_left Ensure_Start = 3"
| "awaits_left Waiting = 2"
| "awaits_left Creating = 1"
| "awaits_left Close_Start = 2"
| "awaits_left (Closing p) = 1"
| "awaits_left pc = 0"

lemma piece_awaits: "awaits_left pc \<noteq> 0 \<Longrightarrow> awaits_left (fst (pool_piece i ok pc s)) < awaits_left pc"
  by (cases pc) (auto simp: ensure_start_def ensure_woken_def ensure_created_def locked_part_def close_start_def
      close_answered_def Let_def split: option.split)

text \<open>Some task that has not ended can go on without being cancelled.\<close>

lemma some_runs:
  assumes inv: "pool_inv w" and i: "i < length (pw_tasks w)" "awaits_left (pw_tasks w ! i) \<noteq> 0"
  obtains j where "j < length (pw_tasks w)" "awaits_left (pw_tasks w ! j) \<noteq> 0" "may_run j True w"
proof (cases "pw_tasks w ! i = Waiting")
  case False
  then show thesis using i by (intro that [of i]) (auto simp: may_run_def)
next
  case True
  have queue: "queue_inv (pw_state w) (pw_tasks w)" using inv by (simp add: pool_inv_def)
  show thesis
  proof (cases "ps_locked (pw_state w)")
    case True
    then obtain j where "j < length (pw_tasks w)" "pw_tasks w ! j = Creating"
      using queue by (auto simp: queue_inv_def in_set_conv_nth)
    then show thesis by (intro that [of j]) (auto simp: may_run_def)
  next
    case False
    have "i \<in> set (ps_waiters (pw_state w))" using queue i(1) \<open>pw_tasks w ! i = Waiting\<close> unfolding queue_inv_def by blast
    then have nonempty: "ps_waiters (pw_state w) \<noteq> []" by auto
    then have "hd (ps_waiters (pw_state w)) \<in> set (ps_waiters (pw_state w))" by simp
    then have "hd (ps_waiters (pw_state w)) < length (pw_tasks w)" "pw_tasks w ! hd (ps_waiters (pw_state w)) = Waiting"
      using queue unfolding queue_inv_def by blast+
    then show thesis using False nonempty by (intro that [of "hd (ps_waiters (pw_state w))"]) (auto simp: may_run_def)
  qed
qed

definition awaits_pending :: "pool_world \<Rightarrow> nat" where
  "awaits_pending w = sum_list (map awaits_left (pw_tasks w))"

lemma step_awaits:
  assumes "may_run j ok w" "awaits_left (pw_tasks w ! j) \<noteq> 0"
  shows "awaits_pending (pool_step (j, ok) w) < awaits_pending w"
proof -
  have j: "j < length (pw_tasks w)" using assms(1) by (simp add: may_run_def)
  obtain pc s where piece: "pool_piece j ok (pw_tasks w ! j) (pw_state w) = (pc, s)" by fastforce
  have "awaits_left pc < awaits_left (pw_tasks w ! j)" using piece_awaits [OF assms(2), of j ok "pw_state w"] piece by simp
  from sum_list_map_update [OF j, of awaits_left, OF this] show ?thesis
    using assms(1) by (simp add: awaits_pending_def pool_step_def piece)
qed

subsection \<open>One task alone\<close>

text \<open>
  The flag of the tables' model is \<open>self._pool is not None\<close>: the task alone, with its one call
  failing or not, is \<^const>\<open>ensure_pool\<close>.
\<close>

definition ensure_alone :: "bool \<Rightarrow> pool_state \<Rightarrow> pool_pc \<times> pool_state" where
  "ensure_alone ok s = (case ensure_start 0 s of (pc, s1) \<Rightarrow> pool_piece 0 ok pc s1)"

lemma ensure_alone_flag:
  assumes "ensure_pool s = (r, s1)" "pg_pool s \<longleftrightarrow> ps_pool q \<noteq> None" "\<not> ps_locked q" "ps_waiters q = []"
  shows "case ensure_alone (pg_faults s = [] \<or> \<not> hd (pg_faults s)) q of (pc, q1) \<Rightarrow>
    (r = Some () \<longleftrightarrow> (\<exists>p. pc = Returned (Some p) \<and> ps_pool q1 = Some p)) \<and> (pg_pool s1 \<longleftrightarrow> ps_pool q1 \<noteq> None) \<and>
    \<not> ps_locked q1 \<and> ps_waiters q1 = []"
  using assms by (auto simp: ensure_alone_def ensure_start_def locked_part_def ensure_created_def release_def
      ensure_pool_def statement_def Let_def split: if_splits)

subsection \<open>Properties\<close>

text \<open>
  C12: concurrent first uses create one pool. However any number of tasks that ask for the pool,
  and at most one that closes it, interleave at their awaits, with creations failing and tasks
  being cancelled, the open pools are exactly the one the repository refers to (none is leaked);
  before it is closed at most one pool is created and every task gets that one, and afterwards
  at most one more; no task gets \<open>None\<close>.
\<close>

theorem one_pool:
  assumes "fresh_tasks tasks" "w = pool_run moves (pool_start tasks)"
  shows "ps_open (pw_state w) = option_list (ps_pool (pw_state w)) \<and>
    ps_created (pw_state w) \<le> (if Closed \<in> set (pw_tasks w) then 2 else 1) \<and>
    (\<forall>r. Returned r \<in> set (pw_tasks w) \<longrightarrow> r \<noteq> None \<and> (Closed \<in> set (pw_tasks w) \<or> r = ps_pool (pw_state w)))"
proof -
  have inv: "pool_inv w" unfolding assms(2) by (rule pool_run_inv [OF pool_start_inv [OF assms(1)]])
  then have opened: "ps_open (pw_state w) = option_list (ps_pool (pw_state w))" and made: "created_inv (pw_state w) (pw_tasks w)"
    by (simp_all add: pool_inv_def)
  have "length (ps_open (pw_state w)) \<le> 1" unfolding opened by (cases "ps_pool (pw_state w)") simp_all
  moreover have "r \<noteq> None" if "Returned r \<in> set (pw_tasks w)" for r
  proof -
    have "task_inv (pw_state w) (Returned r)" using inv that by (auto simp: pool_inv_def in_set_conv_nth)
    then show ?thesis by (simp add: task_inv_def)
  qed
  ultimately show ?thesis using opened made by (simp add: created_inv_def split: if_splits)
qed

text \<open>Three tasks: the first creation fails, the second task was waiting and creates, the third waits for it.\<close>

definition demo_pool :: pool_world where
  "demo_pool = pool_run [(0, True), (1, True), (2, True), (1, True), (0, False), (2, True), (1, True), (1, True), (2, True)]
     (pool_start [Ensure_Start, Ensure_Start, Ensure_Start])"

lemma demo_pool_eq: "demo_pool = \<lparr>pw_state = \<lparr>ps_pool = Some 0, ps_locked = False, ps_waiters = [], ps_created = 1, ps_open = [0]\<rparr>,
    pw_tasks = [Ensure_Raised, Returned (Some 0), Returned (Some 0)]\<rparr>"
  by code_simp

theorem one_pool_witness:
  "ps_open (pw_state demo_pool) = option_list (ps_pool (pw_state demo_pool)) \<and> ps_created (pw_state demo_pool) \<le> 1"
proof -
  have "fresh_tasks [Ensure_Start, Ensure_Start, Ensure_Start]" by (simp add: fresh_tasks_def)
  from one_pool [OF this demo_pool_def] show ?thesis by (simp add: demo_pool_eq)
qed

text \<open>
  Nobody waits for the pool for ever. In every reachable state, unless every task has
  ended, one of those that have not may run without being cancelled, and whatever its await
  brings, fewer awaits are left: a waiter is woken though the creator before it failed or was
  cancelled.
\<close>

theorem pool_progress:
  assumes "fresh_tasks tasks" "w = pool_run moves (pool_start tasks)"
  shows "list_all (\<lambda>pc. awaits_left pc = 0) (pw_tasks w) \<or>
    (\<exists>j < length (pw_tasks w). awaits_left (pw_tasks w ! j) \<noteq> 0 \<and>
       (\<forall>ok. awaits_pending (pool_step (j, ok) w) < awaits_pending w))"
proof (cases "list_all (\<lambda>pc. awaits_left pc = 0) (pw_tasks w)")
  case False
  have inv: "pool_inv w" unfolding assms(2) by (rule pool_run_inv [OF pool_start_inv [OF assms(1)]])
  from False obtain i where "i < length (pw_tasks w)" "awaits_left (pw_tasks w ! i) \<noteq> 0" by (auto simp: list_all_length)
  then obtain j where j: "j < length (pw_tasks w)" "awaits_left (pw_tasks w ! j) \<noteq> 0" "may_run j True w"
    using some_runs [OF inv] by blast
  then have "may_run j ok w" for ok by (auto simp: may_run_def)
  then show ?thesis using j step_awaits by blast
qed simp

theorem pool_progress_witness:
  "awaits_pending (pool_step (0, False) (pool_run [(0, True)] (pool_start [Ensure_Start]))) <
   awaits_pending (pool_run [(0, True)] (pool_start [Ensure_Start]))"
proof -
  have tasks: "pw_tasks (pool_run [(0, True)] (pool_start [Ensure_Start])) = [Creating]" by code_simp
  have "fresh_tasks [Ensure_Start]" by (simp add: fresh_tasks_def)
  from pool_progress [OF this refl, of "[(0, True)]"] show ?thesis by (simp add: tasks)
qed

text \<open>
  \<open>close\<close> takes no lock, so the bound on closers is needed, and a pool may outlive its closing:
  where two tasks close, the second forgets a pool created in between, which stays open; a close
  during the creation finds nothing to close, and the pool is there afterwards.
\<close>

theorem unlocked_close:
  "(let s = pw_state (pool_run [(0, True), (0, True), (1, True), (2, True), (1, True), (3, True), (3, True), (2, True)]
        (pool_start [Ensure_Start, Close_Start, Close_Start, Ensure_Start])) in ps_pool s = None \<and> ps_open s = [1]) \<and>
   (let w = pool_run [(0, True), (1, True), (0, True)] (pool_start [Ensure_Start, Close_Start])
    in pw_tasks w = [Returned (Some 0), Closed] \<and> ps_open (pw_state w) = [0])"
  by code_simp

end
