(* ===== verification/Redis_Exchanges.thy ===== *)
theory Redis_Exchanges
  imports Redis_Limiter
begin

text \<open>
  The exchanges of the Redis store and the Redis limiter with one server, as several tasks have
  them at the same time, in time. Every operation is one exchange, which the server runs as one
  step; what can happen around it: it does not reach the server, its answer is lost although it
  took effect, the client library sends it again (as its retry setting says), it is given up,
  and time passes, in which keys expire.
\<close>

subsection \<open>A server with a clock\<close>

text \<open>A key with a time to live expires that many seconds after it was set.\<close>

record timed_db =
  tdb_keys :: redis_keys
  tdb_set_at :: "string \<Rightarrow> real"
  tdb_now :: real

definition live_keys :: "timed_db \<Rightarrow> redis_keys" where
  "live_keys db k = (case tdb_keys db k of
       Some (v, Some s) \<Rightarrow> if tdb_set_at db k + of_int s \<le> tdb_now db then None else Some (v, Some s)
     | entry \<Rightarrow> entry)"

definition timed_call :: "redis_command \<Rightarrow> timed_db \<Rightarrow> redis_reply \<times> timed_db" where
  "timed_call c db = (let (reply, keys) = redis_apply c (live_keys db)
     in (reply, db\<lparr>tdb_keys := keys,
          tdb_set_at := (case c of EXPIRE k s \<Rightarrow> (tdb_set_at db)(k := tdb_now db) | _ \<Rightarrow> tdb_set_at db)\<rparr>))"

text \<open>The server, and the server as a client that does not reach it sees it.\<close>

definition timed_server :: "timed_db redis_server" where
  "timed_server = \<lparr>rs_call = timed_call, rs_reach = (\<lambda>db. (None, db)), rs_close = (\<lambda>db. (Inr (), db))\<rparr>"

definition cut_off_server :: "timed_db redis_server" where
  "cut_off_server = timed_server\<lparr>rs_reach := (\<lambda>db. (Some connection_error, db))\<rparr>"

lemma timed_sel [simp]: "rs_call timed_server = timed_call" "rs_reach timed_server db = (None, db)"
  by (simp_all add: timed_server_def)

lemma apply_lease:
  assumes "redis_apply c keys = (r, keys')" "keys' k = Some (v, Some s)"
  shows "c = EXPIRE k s \<and> 0 < s \<or> (\<forall>s. c \<noteq> EXPIRE k s) \<and> (\<exists>v. keys k = Some (v, Some s))"
  using assms
  by (induction c keys rule: redis_apply.induct)
    (auto split: option.splits redis_value.splits prod.splits if_splits)

lemma timed_call_keys:
  assumes "timed_call c db = (r, db')"
  shows "redis_apply c (live_keys db) = (r, live_keys db')" "tdb_now db' = tdb_now db"
    "tdb_set_at db' x = (if \<exists>s. c = EXPIRE x s then tdb_now db else tdb_set_at db x)"
proof -
  obtain keys where run: "redis_apply c (live_keys db) = (r, keys)" and db': "db' = db\<lparr>tdb_keys := keys,
      tdb_set_at := (case c of EXPIRE k s \<Rightarrow> (tdb_set_at db)(k := tdb_now db) | _ \<Rightarrow> tdb_set_at db)\<rparr>"
    using assms by (auto simp: timed_call_def Let_def split: prod.splits)
  show now: "tdb_now db' = tdb_now db" and
    set_at: "tdb_set_at db' x = (if \<exists>s. c = EXPIRE x s then tdb_now db else tdb_set_at db x)" for x
    by (cases c; auto simp: db')+
  have "live_keys db' k = keys k" for k
  proof -
    have "\<not> tdb_set_at db' k + of_int s \<le> tdb_now db'" if "keys k = Some (v, Some s)" for v s
      using apply_lease [OF run that] set_at [of k]
      by (auto simp: now live_keys_def split: option.splits if_splits)
    then show ?thesis by (auto simp: live_keys_def db' split: option.split)
  qed
  then show "redis_apply c (live_keys db) = (r, live_keys db')" using run by presburger
qed

interpretation timed: redis timed_server live_keys
  by unfold_locales (auto dest: timed_call_keys(1))

lemma timed_calls:
  assumes "run_calls timed_call cs db = (rs, db')"
  shows "run_calls redis_apply cs (live_keys db) = (rs, live_keys db')" "tdb_now db' = tdb_now db"
    "tdb_set_at db' x = (if \<exists>s. EXPIRE x s \<in> set cs then tdb_now db else tdb_set_at db x)"
proof -
  show "run_calls redis_apply cs (live_keys db) = (rs, live_keys db')"
    using timed.run_calls_apply assms by simp
  have "tdb_now db' = tdb_now db \<and>
    tdb_set_at db' x = (if \<exists>s. EXPIRE x s \<in> set cs then tdb_now db else tdb_set_at db x)"
    using assms
  proof (induction cs arbitrary: db rs)
    case (Cons c cs)
    obtain r db1 where c: "timed_call c db = (r, db1)" by fastforce
    then obtain rs1 where "run_calls timed_call cs db1 = (rs1, db')" using Cons.prems by (auto split: prod.splits)
    from Cons.IH [OF this] timed_call_keys(2,3) [OF c] show ?case by auto
  qed simp
  then show "tdb_now db' = tdb_now db"
    "tdb_set_at db' x = (if \<exists>s. EXPIRE x s \<in> set cs then tdb_now db else tdb_set_at db x)" by blast+
qed

subsection \<open>The calls of the program\<close>

datatype redis_call =
    Get_Call string
  | Append_Call string "chat_message list" "int option"
  | Set_Call string "chat_message list"
  | Consume_Call string string int int int
  | Ping_Call

datatype redis_result =
  Raised exn | Done | History "chat_message list" | Decided rate_limit_decision | Ponged bool

definition result_of :: "('a \<Rightarrow> redis_result) \<Rightarrow> (exn + 'a) \<times> 'db \<Rightarrow> redis_result \<times> 'db" where
  "result_of f p = (case p of (Inl e, db) \<Rightarrow> (Raised e, db) | (Inr x, db) \<Rightarrow> (f x, db))"

text \<open>The store and the limiter, whose key prefix is the default one, on the server of the store.\<close>

fun run_call :: "'db redis_session \<Rightarrow> redis_call \<Rightarrow> 'db \<Rightarrow> redis_result \<times> 'db" where
  "run_call rds (Get_Call sid) db = result_of History (redis_get_history rds sid db)"
| "run_call rds (Append_Call sid messages limit) db = result_of (\<lambda>_. Done) (redis_append_messages rds sid messages limit db)"
| "run_call rds (Set_Call sid messages) db = result_of (\<lambda>_. Done) (redis_set_history rds sid messages db)"
| "run_call rds (Consume_Call tenant route limit window_sec now) db =
     result_of Decided (redis_consume (rds_server rds) ''rate-limit'' tenant route limit window_sec now db)"
| "run_call rds Ping_Call db = (case redis_ping (rds_server rds) db of (b, db1) \<Rightarrow> (Ponged b, db1))"

subsection \<open>The exchanges together\<close>

text \<open>
  A call is sent, once or several times, until an answer arrives or it is given up. The log:
  the calls the server ran, at what time, with the result.
\<close>

datatype send_fate = Not_Reached | Reply_Lost | Replied

datatype redis_move = Send nat send_fate | Give_Up nat | Pass real

datatype redis_event = Ran nat real redis_result

record redis_world =
  rw_db :: timed_db
  rw_results :: "redis_result option list"
  rw_log :: "redis_event list"

definition redis_step :: "timed_db redis_session \<Rightarrow> redis_call list \<Rightarrow> redis_move \<Rightarrow> redis_world \<Rightarrow> redis_world" where
  "redis_step rds calls move w = (case move of
       Send i fate \<Rightarrow>
         if i < length calls \<and> rw_results w ! i = None \<and> fate \<noteq> Not_Reached
         then (let (r, db) = run_call (rds\<lparr>rds_server := timed_server\<rparr>) (calls ! i) (rw_db w)
           in w\<lparr>rw_db := db, rw_log := rw_log w @ [Ran i (tdb_now (rw_db w)) r],
                rw_results := (if fate = Replied then (rw_results w)[i := Some r] else rw_results w)\<rparr>)
         else w
     | Give_Up i \<Rightarrow>
         if i < length calls \<and> rw_results w ! i = None
         then w\<lparr>rw_results := (rw_results w)[i :=
             Some (fst (run_call (rds\<lparr>rds_server := cut_off_server\<rparr>) (calls ! i) (rw_db w)))]\<rparr>
         else w
     | Pass dt \<Rightarrow> w\<lparr>rw_db := (rw_db w)\<lparr>tdb_now := tdb_now (rw_db w) + max 0 dt\<rparr>\<rparr>)"

definition redis_run :: "timed_db redis_session \<Rightarrow> redis_call list \<Rightarrow> redis_move list \<Rightarrow> redis_world \<Rightarrow> redis_world" where
  "redis_run rds calls moves w = fold (redis_step rds calls) moves w"

definition empty_db :: timed_db where
  "empty_db = \<lparr>tdb_keys = Map.empty, tdb_set_at = (\<lambda>_. 0), tdb_now = 0\<rparr>"

definition redis_start :: "redis_call list \<Rightarrow> redis_world" where
  "redis_start calls = \<lparr>rw_db = empty_db, rw_results = map (\<lambda>_. None) calls, rw_log = []\<rparr>"

subsection \<open>The abstract store\<close>

text \<open>Histories and counts, each with the moment it expires.\<close>

record leased_store =
  ls_sessions :: "string \<rightharpoonup> real \<times> chat_message list"
  ls_counters :: "string \<rightharpoonup> real \<times> int"

definition unexpired :: "real \<Rightarrow> (real \<times> 'x) option \<Rightarrow> (real \<times> 'x) option" where
  "unexpired now e = (case e of None \<Rightarrow> None | Some (t, x) \<Rightarrow> if t \<le> now then None else Some (t, x))"

definition leased_messages :: "leased_store \<Rightarrow> string \<Rightarrow> real \<Rightarrow> chat_message list" where
  "leased_messages a session_id now = (case unexpired now (ls_sessions a session_id) of None \<Rightarrow> [] | Some (_, ms) \<Rightarrow> ms)"

definition lease :: "real \<Rightarrow> chat_message list \<Rightarrow> (real \<times> chat_message list) option" where
  "lease t ms = (if ms = [] then None else Some (t, ms))"

fun leased_call :: "int \<Rightarrow> redis_call \<Rightarrow> real \<Rightarrow> leased_store \<Rightarrow> redis_result \<times> leased_store" where
  "leased_call ttl (Get_Call sid) now a = (History (leased_messages a sid now), a)"
| "leased_call ttl (Append_Call sid messages limit) now a = (Done, if messages = [] then a
     else a\<lparr>ls_sessions := (ls_sessions a)(sid := lease (now + of_int ttl) (limited limit (leased_messages a sid now @ messages)))\<rparr>)"
| "leased_call ttl (Set_Call sid messages) now a =
     (Done, a\<lparr>ls_sessions := (ls_sessions a)(sid := lease (now + of_int ttl) messages)\<rparr>)"
| "leased_call ttl (Consume_Call tenant route limit window_sec client_now) now a =
     (let start = window_start client_now window_sec; k = rate_key tenant route start;
          (t, n) = (case unexpired now (ls_counters a k) of None \<Rightarrow> (now + of_int window_sec, 0) | Some (t, n) \<Rightarrow> (t, n))
      in if n + 1 < 2 ^ 63
         then (Decided (rate_decision (n + 1) limit (start + window_sec)), a\<lparr>ls_counters := (ls_counters a)(k \<mapsto> (t, n + 1))\<rparr>)
         else (Raised (response_error ''ERR increment or decrement would overflow''), a))"
| "leased_call ttl Ping_Call now a = (Ponged True, a)"

text \<open>The log run on the abstract store; \<^const>\<open>None\<close> where a call did not give what it gives there.\<close>

fun replay_leased :: "int \<Rightarrow> redis_call list \<Rightarrow> redis_event list \<Rightarrow> leased_store \<Rightarrow> leased_store option" where
  "replay_leased ttl calls [] a = Some a"
| "replay_leased ttl calls (Ran i now r # es) a =
     (case leased_call ttl (calls ! i) now a of (r', a') \<Rightarrow> if r = r' then replay_leased ttl calls es a' else None)"

definition no_leases :: leased_store where
  "no_leases = \<lparr>ls_sessions = Map.empty, ls_counters = Map.empty\<rparr>"

subsection \<open>The abstract store in the keys\<close>

definition valid_message :: "chat_message \<Rightarrow> bool" where
  "valid_message m \<longleftrightarrow> valid_role (role m)"

fun valid_call :: "redis_call \<Rightarrow> bool" where
  "valid_call (Append_Call sid messages limit) \<longleftrightarrow> list_all valid_message messages"
| "valid_call (Set_Call sid messages) \<longleftrightarrow> list_all valid_message messages"
| "valid_call (Consume_Call tenant route limit window_sec now) \<longleftrightarrow> 0 < window_sec"
| "valid_call _ \<longleftrightarrow> True"

definition counter_key :: "string \<Rightarrow> string" where
  "counter_key k = ''rate-limit'' @ '':'' @ k"

text \<open>What a key holds, with the moment it expires.\<close>

definition key_lease :: "(redis_value \<Rightarrow> 'x option) \<Rightarrow> timed_db \<Rightarrow> string \<Rightarrow> (real \<times> 'x) option" where
  "key_lease f db k = (case live_keys db k of
       Some (v, Some s) \<Rightarrow> map_option (\<lambda>x. (tdb_set_at db k + of_int s, x)) (f v) | _ \<Rightarrow> None)"

definition session_lease :: "timed_db redis_session \<Rightarrow> timed_db \<Rightarrow> string \<Rightarrow> (real \<times> chat_message list) option" where
  "session_lease rds db sid = key_lease
     (\<lambda>v. case v of RList xs \<Rightarrow> Some (map (decode_item (rds_parse rds)) xs) | _ \<Rightarrow> None) db (session_key sid)"

definition counter_lease :: "timed_db \<Rightarrow> string \<Rightarrow> (real \<times> int) option" where
  "counter_lease db k = key_lease (\<lambda>v. case v of RInt n \<Rightarrow> Some n | _ \<Rightarrow> None) db (counter_key k)"

text \<open>The keys of the program: sessions are non-empty lists of dumped messages, counters are positive, all expire.\<close>

definition keys_ok :: "timed_db redis_session \<Rightarrow> redis_keys \<Rightarrow> bool" where
  "keys_ok rds keys \<longleftrightarrow>
     (\<forall>sid v t. keys (session_key sid) = Some (v, t) \<longrightarrow> t = Some (rds_ttl_sec rds) \<and>
        (\<exists>ms. ms \<noteq> [] \<and> list_all valid_message ms \<and> v = RList (map (rds_dump rds) ms))) \<and>
     (\<forall>k v t. keys (counter_key k) = Some (v, t) \<longrightarrow> (\<exists>n s. 0 < n \<and> v = RInt n \<and> t = Some s)) \<and>
     (\<forall>k. keys k \<noteq> None \<longrightarrow> k \<in> range session_key \<union> range counter_key)"

definition stands_for :: "timed_db redis_session \<Rightarrow> timed_db \<Rightarrow> leased_store \<Rightarrow> bool" where
  "stands_for rds db a \<longleftrightarrow> keys_ok rds (live_keys db) \<and>
     (\<forall>sid. unexpired (tdb_now db) (ls_sessions a sid) = session_lease rds db sid) \<and>
     (\<forall>k. unexpired (tdb_now db) (ls_counters a k) = counter_lease db k)"

lemma keys_apart [simp]: "session_key sid \<noteq> counter_key k" "counter_key k \<noteq> session_key sid"
  by (simp_all add: session_key_def counter_key_def)

lemma counter_key_inj [simp]: "counter_key x = counter_key y \<longleftrightarrow> x = y"
  by (simp add: counter_key_def)

lemma live_lease: "live_keys db k = Some (v, Some s) \<Longrightarrow> tdb_now db < tdb_set_at db k + of_int s"
  by (auto simp: live_keys_def split: option.splits if_splits)

lemma key_lease_cong:
  "live_keys db' k = live_keys db k \<Longrightarrow> tdb_set_at db' k = tdb_set_at db k \<Longrightarrow> key_lease f db' k = key_lease f db k"
  by (simp add: key_lease_def cong: option.case_cong prod.case_cong)

lemma lease_cong:
  "\<lbrakk>live_keys db' (session_key sid) = live_keys db (session_key sid);
    tdb_set_at db' (session_key sid) = tdb_set_at db (session_key sid)\<rbrakk> \<Longrightarrow>
   session_lease rds db' sid = session_lease rds db sid"
  "\<lbrakk>live_keys db' (counter_key k) = live_keys db (counter_key k);
    tdb_set_at db' (counter_key k) = tdb_set_at db (counter_key k)\<rbrakk> \<Longrightarrow>
   counter_lease db' k = counter_lease db k"
  unfolding session_lease_def counter_lease_def by (rule key_lease_cong; assumption)+

lemma stands_for_same:
  assumes "stands_for rds db a" "live_keys db' = live_keys db" "tdb_set_at db' = tdb_set_at db" "tdb_now db' = tdb_now db"
  shows "stands_for rds db' a"
proof -
  have "session_lease rds db' sid = session_lease rds db sid" "counter_lease db' k = counter_lease db k" for sid k
    by (rule lease_cong; simp add: assms)+
  then show ?thesis using assms by (simp add: stands_for_def)
qed

lemma unexpired_later: "t \<le> u \<Longrightarrow> unexpired u (unexpired t e) = unexpired u e"
  by (auto simp: unexpired_def split: option.split)

lemma live_later:
  "0 \<le> dt \<Longrightarrow> live_keys (db\<lparr>tdb_now := tdb_now db + dt\<rparr>) k = None \<or> live_keys (db\<lparr>tdb_now := tdb_now db + dt\<rparr>) k = live_keys db k"
  by (auto simp: live_keys_def split: option.split)

lemma key_lease_later:
  assumes "0 \<le> dt"
  shows "key_lease f (db\<lparr>tdb_now := tdb_now db + dt\<rparr>) k = unexpired (tdb_now db + dt) (key_lease f db k)"
proof (cases "live_keys db k")
  case None
  then show ?thesis using live_later [OF assms, of db k] by (auto simp: key_lease_def unexpired_def)
next
  case (Some e)
  obtain v t where e: "e = (v, t)" by fastforce
  let ?db = "db\<lparr>tdb_now := tdb_now db + dt\<rparr>"
  have "live_keys ?db k = (case t of None \<Rightarrow> Some e
      | Some s \<Rightarrow> if tdb_set_at db k + of_int s \<le> tdb_now db + dt then None else Some e)"
    using Some unfolding e by (auto simp: live_keys_def split: option.splits if_splits)
  then show ?thesis using Some unfolding e
    by (cases t; cases "f v") (auto simp: key_lease_def unexpired_def)
qed

lemma stands_for_later:
  assumes "stands_for rds db a" "0 \<le> dt"
  shows "stands_for rds (db\<lparr>tdb_now := tdb_now db + dt\<rparr>) a"
proof -
  let ?db = "db\<lparr>tdb_now := tdb_now db + dt\<rparr>"
  have "keys_ok rds (live_keys ?db)"
    using assms(1) live_later [OF assms(2), of db] unfolding stands_for_def keys_ok_def by (metis option.distinct(1))
  moreover have "unexpired (tdb_now ?db) (ls_sessions a sid) = session_lease rds ?db sid" for sid
    using assms unexpired_later [of "tdb_now db" "tdb_now ?db" "ls_sessions a sid"]
    by (simp add: stands_for_def session_lease_def key_lease_later)
  moreover have "unexpired (tdb_now ?db) (ls_counters a k) = counter_lease ?db k" for k
    using assms unexpired_later [of "tdb_now db" "tdb_now ?db" "ls_counters a k"]
    by (simp add: stands_for_def counter_lease_def key_lease_later)
  ultimately show ?thesis by (simp add: stands_for_def)
qed

text \<open>One key written.\<close>

lemma stands_for_session:
  assumes "stands_for rds db a" "live_keys db' = (live_keys db)(session_key sid := e)"
    and "\<And>x. x \<noteq> session_key sid \<Longrightarrow> tdb_set_at db' x = tdb_set_at db x" "tdb_now db' = tdb_now db"
    and "e = (if ms = [] then None else Some (RList (map (rds_dump rds) ms), Some (rds_ttl_sec rds)))"
    and "ms \<noteq> [] \<Longrightarrow> tdb_set_at db' (session_key sid) = tdb_now db" "list_all valid_message ms"
    and "map (decode_item (rds_parse rds)) (map (rds_dump rds) ms) = ms"
  shows "stands_for rds db' (a\<lparr>ls_sessions := (ls_sessions a)(sid := lease (tdb_now db + of_int (rds_ttl_sec rds)) ms)\<rparr>)"
proof -
  have "keys_ok rds (live_keys db')"
    using assms(1,5,7) unfolding stands_for_def keys_ok_def assms(2) by (auto split: if_splits)
  moreover have "unexpired (tdb_now db') (lease (tdb_now db + of_int (rds_ttl_sec rds)) ms) = session_lease rds db' sid"
  proof (cases "ms = []")
    case False
    then have "live_keys db' (session_key sid) = Some (RList (map (rds_dump rds) ms), Some (rds_ttl_sec rds))"
      by (simp add: assms(2,5))
    with live_lease [OF this] False show ?thesis
      using assms(4,6,8) by (simp add: lease_def unexpired_def session_lease_def key_lease_def)
  qed (simp add: lease_def unexpired_def session_lease_def key_lease_def assms(2,5))
  moreover have "session_lease rds db' x = session_lease rds db x" if "x \<noteq> sid" for x
    using that assms(3) by (intro lease_cong) (simp_all add: assms(2))
  moreover have "counter_lease db' k = counter_lease db k" for k
    using assms(3) by (intro lease_cong) (simp_all add: assms(2))
  ultimately show ?thesis using assms(1,4) by (auto simp: stands_for_def)
qed

lemma stands_for_counter:
  assumes "stands_for rds db a" "live_keys db' = (live_keys db)(counter_key k \<mapsto> (RInt n, Some s))" "0 < n"
    and "\<And>x. x \<noteq> counter_key k \<Longrightarrow> tdb_set_at db' x = tdb_set_at db x" "tdb_now db' = tdb_now db"
  shows "stands_for rds db' (a\<lparr>ls_counters := (ls_counters a)(k \<mapsto> (tdb_set_at db' (counter_key k) + of_int s, n))\<rparr>)"
proof -
  have "keys_ok rds (live_keys db')"
    using assms(1,3) unfolding stands_for_def keys_ok_def assms(2) by auto
  moreover have "counter_lease db' k = Some (tdb_set_at db' (counter_key k) + of_int s, n)"
    by (simp add: counter_lease_def key_lease_def assms(2))
  moreover have "tdb_now db' < tdb_set_at db' (counter_key k) + of_int s"
    by (rule live_lease [where v = "RInt n"]) (simp add: assms(2))
  moreover have "counter_lease db' x = counter_lease db x" if "x \<noteq> k" for x
    using that assms(4) by (intro lease_cong) (simp_all add: assms(2))
  moreover have "session_lease rds db' x = session_lease rds db x" for x
    using assms(4) by (intro lease_cong) (simp_all add: assms(2))
  ultimately show ?thesis using assms(1,5) by (auto simp: stands_for_def unexpired_def)
qed

subsection \<open>A call on the server and on the abstract store\<close>

lemma append_result:
  fixes rds :: "'db redis_session"
  assumes "run_calls redis_apply (append_commands rds k ms limit) keys = (rs, keys')"
    and "list_key keys k" "ms \<noteq> []" "0 < rds_ttl_sec rds"
  defines "zs \<equiv> limited limit (key_items keys k @ map (rds_dump rds) ms)"
  shows "first_error rs = None" "keys' = keys(k := if zs = [] then None else Some (RList zs, Some (rds_ttl_sec rds)))"
proof -
  define ys where "ys = key_items keys k @ map (rds_dump rds) ms"
  obtain r t where push: "redis_apply (RPUSH k (map (rds_dump rds) ms)) keys = (RepInt r, keys(k \<mapsto> (RList ys, t)))"
    using assms(2) by (auto simp: list_key_def key_items_def ys_def split: option.splits redis_value.splits)
  have "ys \<noteq> []" using assms(3) by (simp add: ys_def)
  then have "length ys - (length ys - nat n) \<noteq> 0" if "0 < n" for n using that by (auto simp: not_le intro!: diff_less)
  then have "first_error rs = None \<and> keys' = keys(k := if limited limit ys = [] then None else Some (RList (limited limit ys), Some (rds_ttl_sec rds)))"
    using assms(1,4) push \<open>ys \<noteq> []\<close>
    by (auto simp: append_commands_def limited_def keep_recent_def redis_range_last
        simp del: redis_apply.simps(1) split: if_splits option.splits)
  then show "first_error rs = None" "keys' = keys(k := if zs = [] then None else Some (RList zs, Some (rds_ttl_sec rds)))"
    by (simp_all add: zs_def ys_def)
qed

lemma set_result:
  fixes rds :: "'db redis_session"
  assumes "run_calls redis_apply (set_commands rds k ms) keys = (rs, keys')" "0 < rds_ttl_sec rds"
  shows "first_error rs = None"
    "keys' = keys(k := if ms = [] then None else Some (RList (map (rds_dump rds) ms), Some (rds_ttl_sec rds)))"
  using assms by (auto simp: set_commands_def split: if_splits)

lemma load_dumped:
  assumes "\<And>m. parse (dump m) = Some (role m, content m)" "list_all valid_message ms"
  shows "load_items parse (map dump ms) = Some ms"
  using assms(2) by (induction ms) (simp_all add: validate_json_def assms(1) ChatMessage_def valid_message_def)

locale timed_sessions = redis_sessions rds live_keys for rds :: "timed_db redis_session" +
  assumes server: "rds_server rds = timed_server" and ttl: "0 < rds_ttl_sec rds"
begin

lemma session_entry:
  assumes "stands_for rds db a"
  shows "live_keys db (session_key sid) = (if leased_messages a sid (tdb_now db) = [] then None
      else Some (RList (map (rds_dump rds) (leased_messages a sid (tdb_now db))), Some (rds_ttl_sec rds)))"
    "list_all valid_message (leased_messages a sid (tdb_now db))"
proof -
  have lease: "leased_messages a sid (tdb_now db) = (case session_lease rds db sid of None \<Rightarrow> [] | Some (_, ms) \<Rightarrow> ms)"
    using assms by (simp add: leased_messages_def stands_for_def)
  have "live_keys db (session_key sid) = (if leased_messages a sid (tdb_now db) = [] then None
      else Some (RList (map (rds_dump rds) (leased_messages a sid (tdb_now db))), Some (rds_ttl_sec rds))) \<and>
    list_all valid_message (leased_messages a sid (tdb_now db))"
  proof (cases "live_keys db (session_key sid)")
    case None
    then show ?thesis by (simp add: lease session_lease_def key_lease_def)
  next
    case (Some e)
    with assms obtain ms where "e = (RList (map (rds_dump rds) ms), Some (rds_ttl_sec rds))" "ms \<noteq> []" "list_all valid_message ms"
      unfolding stands_for_def keys_ok_def by (metis surj_pair)
    with Some show ?thesis using decode_dump by (simp add: lease session_lease_def key_lease_def)
  qed
  then show "live_keys db (session_key sid) = (if leased_messages a sid (tdb_now db) = [] then None
      else Some (RList (map (rds_dump rds) (leased_messages a sid (tdb_now db))), Some (rds_ttl_sec rds)))"
    "list_all valid_message (leased_messages a sid (tdb_now db))" by blast+
qed

lemma key_facts:
  assumes "stands_for rds db a"
  shows "list_key (live_keys db) (session_key sid)"
    "key_items (live_keys db) (session_key sid) = map (rds_dump rds) (leased_messages a sid (tdb_now db))"
  using session_entry(1) [OF assms, of sid] by (simp_all add: list_key_def key_items_def)

text \<open>A pipeline reaches the timed server and runs there.\<close>

lemma pipeline_runs:
  assumes "redis_pipeline timed_server cs db = (y, db')"
  obtains rs where "run_calls redis_apply cs (live_keys db) = (rs, live_keys db')" "tdb_now db' = tdb_now db"
    "\<And>x. tdb_set_at db' x = (if \<exists>s. EXPIRE x s \<in> set cs then tdb_now db else tdb_set_at db x)"
    "y = (case first_error rs of None \<Rightarrow> Inr rs | Some m \<Rightarrow> Inl (response_error m))"
proof -
  obtain rs db1 where "run_calls timed_call cs db = (rs, db1)" by fastforce
  with assms timed_calls [OF this] show thesis
    by (intro that [of rs]) (auto simp: redis_pipeline_def split: option.splits)
qed

lemma get_step:
  assumes "stands_for rds db a" "run_call rds (Get_Call sid) db = (r, db')"
  shows "r = History (leased_messages a sid (tdb_now db)) \<and> stands_for rds db' a \<and> tdb_now db' = tdb_now db"
proof -
  let ?ms = "leased_messages a sid (tdb_now db)"
  obtain y where y: "redis_pipeline timed_server [LRANGE (session_key sid) 0 (- 1)] db = (y, db')"
    using assms(2) by (auto simp: redis_get_history_def redis_execute_def result_of_def Let_def server
        split: prod.splits sum.splits redis_reply.splits option.splits)
  then obtain rs where run: "run_calls redis_apply [LRANGE (session_key sid) 0 (- 1)] (live_keys db) = (rs, live_keys db')"
    and env: "tdb_now db' = tdb_now db" "\<And>x. tdb_set_at db' x = tdb_set_at db x"
    and res: "y = (case first_error rs of None \<Rightarrow> Inr rs | Some m \<Rightarrow> Inl (response_error m))"
    by (rule pipeline_runs) auto
  have "rs = [RepItems (map (rds_dump rds) ?ms)]" "live_keys db' = live_keys db"
    using run session_entry(1) [OF assms(1), of sid] by (auto simp: redis_range_all split: if_splits)
  moreover from this res have "y = Inr [RepItems (map (rds_dump rds) ?ms)]" by simp
  moreover have "load_items (rds_parse rds) (map (rds_dump rds) ?ms) = Some ?ms"
    using load_dumped [of "rds_parse rds" "rds_dump rds"] parse_dump session_entry(2) [OF assms(1)] by blast
  moreover have "tdb_set_at db' = tdb_set_at db" using env(2) by blast
  ultimately show ?thesis
    using assms y env(1) by (simp add: redis_get_history_def redis_execute_def result_of_def server stands_for_same [OF assms(1)])
qed

lemma write_step:
  assumes "stands_for rds db a" "redis_pipeline timed_server cs db = (y, db')"
    and "\<And>rs keys'. run_calls redis_apply cs (live_keys db) = (rs, keys') \<Longrightarrow> first_error rs = None \<and>
      keys' = (live_keys db)(session_key sid := if ms = [] then None else Some (RList (map (rds_dump rds) ms), Some (rds_ttl_sec rds)))"
    and "list_all valid_message ms" "\<And>k s. EXPIRE k s \<in> set cs \<Longrightarrow> k = session_key sid"
    and "ms \<noteq> [] \<Longrightarrow> \<exists>s. EXPIRE (session_key sid) s \<in> set cs"
  shows "(\<exists>rs. y = Inr rs) \<and>
    stands_for rds db' (a\<lparr>ls_sessions := (ls_sessions a)(sid := lease (tdb_now db + of_int (rds_ttl_sec rds)) ms)\<rparr>) \<and>
    tdb_now db' = tdb_now db"
proof -
  obtain rs where run: "run_calls redis_apply cs (live_keys db) = (rs, live_keys db')" "tdb_now db' = tdb_now db"
    "\<And>x. tdb_set_at db' x = (if \<exists>s. EXPIRE x s \<in> set cs then tdb_now db else tdb_set_at db x)"
    "y = (case first_error rs of None \<Rightarrow> Inr rs | Some m \<Rightarrow> Inl (response_error m))"
    using assms(2) by (rule pipeline_runs) blast
  note keys = assms(3) [OF run(1)]
  have "stands_for rds db' (a\<lparr>ls_sessions := (ls_sessions a)(sid := lease (tdb_now db + of_int (rds_ttl_sec rds)) ms)\<rparr>)"
    using keys assms(5,6)
    by (intro stands_for_session [OF assms(1) _ _ run(2) refl _ assms(4) decode_dump]) (auto simp: run(3))
  then show ?thesis using run(2,4) keys by simp
qed

lemma append_step:
  assumes "stands_for rds db a" "list_all valid_message ms" "run_call rds (Append_Call sid ms limit) db = (r, db')"
  shows "\<exists>a'. leased_call (rds_ttl_sec rds) (Append_Call sid ms limit) (tdb_now db) a = (r, a') \<and>
    stands_for rds db' a' \<and> tdb_now db' = tdb_now db"
proof (cases "ms = []")
  case True
  then show ?thesis using assms(1,3) by (simp add: redis_append_messages_def result_of_def)
next
  case False
  let ?zs = "limited limit (leased_messages a sid (tdb_now db) @ ms)" and ?k = "session_key sid"
  obtain y where y: "redis_pipeline timed_server (append_commands rds ?k ms limit) db = (y, db')"
    and r: "r = (case y of Inl _ \<Rightarrow> Raised (mk_exn SessionStoreError ''failed to append session history'') | Inr _ \<Rightarrow> Done)"
    using assms(3) False by (auto simp: redis_append_messages_def result_of_def server split: prod.splits sum.splits)
  have zs: "limited limit (key_items (live_keys db) ?k @ map (rds_dump rds) ms) = map (rds_dump rds) ?zs"
    unfolding key_facts(2) [OF assms(1)] by (simp add: limited_def keep_recent_def drop_map split: option.split)
  have "list_all valid_message ?zs"
    using session_entry(2) [OF assms(1)] assms(2) set_keep_recent
    by (fastforce simp: limited_def list_all_iff split: option.split)
  moreover have "first_error rs = None \<and> keys' = (live_keys db)(?k := if ?zs = [] then None
      else Some (RList (map (rds_dump rds) ?zs), Some (rds_ttl_sec rds)))"
    if "run_calls redis_apply (append_commands rds ?k ms limit) (live_keys db) = (rs, keys')" for rs keys'
    using append_result [OF that key_facts(1) [OF assms(1)] False ttl] unfolding zs by simp
  ultimately have "(\<exists>rs. y = Inr rs) \<and>
      stands_for rds db' (a\<lparr>ls_sessions := (ls_sessions a)(sid := lease (tdb_now db + of_int (rds_ttl_sec rds)) ?zs)\<rparr>) \<and>
      tdb_now db' = tdb_now db"
    by (intro write_step [OF assms(1) y]) (auto simp: append_commands_def split: option.splits if_splits)
  then show ?thesis using False r by auto
qed

lemma set_step:
  assumes "stands_for rds db a" "list_all valid_message ms" "run_call rds (Set_Call sid ms) db = (r, db')"
  shows "\<exists>a'. leased_call (rds_ttl_sec rds) (Set_Call sid ms) (tdb_now db) a = (r, a') \<and>
    stands_for rds db' a' \<and> tdb_now db' = tdb_now db"
proof -
  obtain y where y: "redis_pipeline timed_server (set_commands rds (session_key sid) ms) db = (y, db')"
    and r: "r = (case y of Inl _ \<Rightarrow> Raised (mk_exn SessionStoreError ''failed to set session history'') | Inr _ \<Rightarrow> Done)"
    using assms(3) by (auto simp: redis_set_history_def result_of_def server split: prod.splits sum.splits)
  have "(\<exists>rs. y = Inr rs) \<and>
      stands_for rds db' (a\<lparr>ls_sessions := (ls_sessions a)(sid := lease (tdb_now db + of_int (rds_ttl_sec rds)) ms)\<rparr>) \<and>
      tdb_now db' = tdb_now db"
    using set_result [OF _ ttl] assms(2)
    by (intro write_step [OF assms(1) y]) (auto simp: set_commands_def split: if_splits)
  then show ?thesis using r by auto
qed

lemma ping_step:
  assumes "stands_for rds db a" "run_call rds Ping_Call db = (r, db')"
  shows "r = Ponged True \<and> stands_for rds db' a \<and> tdb_now db' = tdb_now db"
proof -
  obtain y where y: "redis_pipeline timed_server [PING] db = (y, db')"
    using assms(2) by (auto simp: redis_ping_def redis_execute_def server split: prod.splits sum.splits)
  then obtain rs where run: "run_calls redis_apply [PING] (live_keys db) = (rs, live_keys db')" "tdb_now db' = tdb_now db"
    "\<And>x. tdb_set_at db' x = tdb_set_at db x" "y = (case first_error rs of None \<Rightarrow> Inr rs | Some m \<Rightarrow> Inl (response_error m))"
    by (rule pipeline_runs) auto
  then have "y = Inr [RepOk]" "live_keys db' = live_keys db" "tdb_set_at db' = tdb_set_at db" by (auto simp: fun_eq_iff)
  then show ?thesis using assms y run(2)
    by (simp add: redis_ping_def redis_execute_def server stands_for_same [OF assms(1)])
qed

lemma script_runs:
  assumes "stands_for rds db a" "0 < win" "consume_script timed_call (counter_key k) win db = (q, db')"
  defines "e \<equiv> (case unexpired (tdb_now db) (ls_counters a k) of None \<Rightarrow> (tdb_now db + of_int win, 0) | Some (t, n) \<Rightarrow> (t, n))"
  shows "tdb_now db' = tdb_now db"
    "snd e + 1 < 2 ^ 63 \<Longrightarrow> q = RepInt (snd e + 1) \<and>
       stands_for rds db' (a\<lparr>ls_counters := (ls_counters a)(k \<mapsto> (fst e, snd e + 1))\<rparr>)"
    "\<not> snd e + 1 < 2 ^ 63 \<Longrightarrow> q = RepError ''ERR increment or decrement would overflow'' \<and> stands_for rds db' a"
proof -
  let ?key = "counter_key k"
  obtain p db1 where incr: "timed_call (INCR ?key) db = (p, db1)" by fastforce
  obtain p2 db2 where expire: "timed_call (EXPIRE ?key win) db1 = (p2, db2)" by fastforce
  note i = timed_call_keys [OF incr] and x = timed_call_keys [OF expire]
  have set_at: "tdb_set_at db1 = tdb_set_at db" using i(3) by fastforce
  have entry: "unexpired (tdb_now db) (ls_counters a k) = counter_lease db k" using assms(1) by (simp add: stands_for_def)
  have "tdb_now db' = tdb_now db \<and> (snd e + 1 < 2 ^ 63 \<longrightarrow> q = RepInt (snd e + 1) \<and>
       stands_for rds db' (a\<lparr>ls_counters := (ls_counters a)(k \<mapsto> (fst e, snd e + 1))\<rparr>)) \<and>
    (\<not> snd e + 1 < 2 ^ 63 \<longrightarrow> q = RepError ''ERR increment or decrement would overflow'' \<and> stands_for rds db' a)"
  proof (cases "live_keys db ?key")
    case None
    have e: "e = (tdb_now db + of_int win, 0)" using None by (simp add: e_def entry counter_lease_def key_lease_def)
    have "p = RepInt 1" "live_keys db1 = (live_keys db)(?key \<mapsto> (RInt 1, None))" using i(1) None by simp_all
    then have q: "q = RepInt 1" "db' = db2" "live_keys db2 = (live_keys db)(?key \<mapsto> (RInt 1, Some win))"
      using assms(2,3) incr expire x(1) by (auto simp: consume_script_def)
    have at: "tdb_set_at db2 ?key = tdb_now db" "tdb_now db2 = tdb_now db" using x(2,3) i(2) by simp_all
    have "stands_for rds db2 (a\<lparr>ls_counters := (ls_counters a)(k \<mapsto> (tdb_set_at db2 ?key + of_int win, 1))\<rparr>)"
      using x(3) set_at at(2) by (intro stands_for_counter [OF assms(1) q(3)]) auto
    then show ?thesis using q(1,2) at by (simp add: e)
  next
    case (Some c)
    with assms(1) obtain n s where c: "c = (RInt n, Some s)" "0 < n" unfolding stands_for_def keys_ok_def by (metis surj_pair)
    have e: "e = (tdb_set_at db ?key + of_int s, n)" using Some c by (simp add: e_def entry counter_lease_def key_lease_def)
    show ?thesis
    proof (cases "n + 1 < 2 ^ 63")
      case True
      then have "p = RepInt (n + 1)" "live_keys db1 = (live_keys db)(?key \<mapsto> (RInt (n + 1), Some s))"
        using i(1) Some c by simp_all
      moreover from this have "q = p" "db' = db1" using assms(3) incr c(2) by (auto simp: consume_script_def)
      moreover have "stands_for rds db1 (a\<lparr>ls_counters := (ls_counters a)(k \<mapsto> (tdb_set_at db1 ?key + of_int s, n + 1))\<rparr>)"
        using calculation(2) c(2) i(2) set_at by (intro stands_for_counter [OF assms(1)]) auto
      ultimately show ?thesis using True i(2) set_at by (simp add: e)
    next
      case False
      then have "p = RepError ''ERR increment or decrement would overflow''" "live_keys db1 = live_keys db"
        using i(1) Some c by simp_all
      moreover from this have "q = p" "db' = db1" using assms(3) incr by (auto simp: consume_script_def)
      ultimately show ?thesis using False i(2) set_at stands_for_same [OF assms(1)] by (simp add: e)
    qed
  qed
  then show "tdb_now db' = tdb_now db"
    "snd e + 1 < 2 ^ 63 \<Longrightarrow> q = RepInt (snd e + 1) \<and>
       stands_for rds db' (a\<lparr>ls_counters := (ls_counters a)(k \<mapsto> (fst e, snd e + 1))\<rparr>)"
    "\<not> snd e + 1 < 2 ^ 63 \<Longrightarrow> q = RepError ''ERR increment or decrement would overflow'' \<and> stands_for rds db' a"
    by blast+
qed

lemma consume_step:
  assumes "stands_for rds db a" "0 < win" "run_call rds (Consume_Call t route limit win now) db = (r, db')"
  shows "\<exists>a'. leased_call (rds_ttl_sec rds) (Consume_Call t route limit win now) (tdb_now db) a = (r, a') \<and>
    stands_for rds db' a' \<and> tdb_now db' = tdb_now db"
proof -
  let ?k = "rate_key t route (window_start now win)"
  have key: "limiter_key ''rate-limit'' t route (window_start now win) = counter_key ?k"
    by (simp add: limiter_key_def counter_key_def)
  obtain q db1 where q: "consume_script timed_call (counter_key ?k) win db = (q, db1)" by fastforce
  obtain u n where e: "(case unexpired (tdb_now db) (ls_counters a ?k) of None \<Rightarrow> (tdb_now db + of_int win, 0) | Some (t, n) \<Rightarrow> (t, n)) = (u, n)"
    by fastforce
  note run = script_runs [OF assms(1,2) q, unfolded e fst_conv snd_conv]
  have script: "redis_script timed_server (\<lambda>call. consume_script call (counter_key ?k) win) db =
      (case q of RepError m \<Rightarrow> (Inl (response_error m), db1) | x \<Rightarrow> (Inr x, db1))"
    by (simp add: redis_script_def q)
  have res: "run_call rds (Consume_Call t route limit win now) db = result_of Decided
      (case q of RepInt count \<Rightarrow> (Inr (rate_decision count limit (window_start now win + win)), db1)
       | RepError m \<Rightarrow> (Inl (response_error m), db1) | _ \<Rightarrow> (Inl (mk_exn (BuiltinError ''TypeError'') ''int''), db1))"
    using assms(2) by (simp add: redis_consume_def key server script split: redis_reply.split)
  have spec: "leased_call (rds_ttl_sec rds) (Consume_Call t route limit win now) (tdb_now db) a =
      (if n + 1 < 2 ^ 63
       then (Decided (rate_decision (n + 1) limit (window_start now win + win)), a\<lparr>ls_counters := (ls_counters a)(?k \<mapsto> (u, n + 1))\<rparr>)
       else (Raised (response_error ''ERR increment or decrement would overflow''), a))"
    by (simp only: leased_call.simps Let_def e prod.case)
  show ?thesis
  proof (cases "n + 1 < 2 ^ 63")
    case True
    then have "r = Decided (rate_decision (n + 1) limit (window_start now win + win))" "db' = db1"
      using run(2) [OF True] assms(3) unfolding res by (simp_all add: result_of_def)
    then show ?thesis using run(1) run(2) [OF True] True unfolding spec by simp
  next
    case False
    then have "r = Raised (response_error ''ERR increment or decrement would overflow'')" "db' = db1"
      using run(3) [OF False] assms(3) unfolding res by (simp_all add: result_of_def)
    then show ?thesis using run(1) run(3) [OF False] False unfolding spec by simp
  qed
qed

lemma call_step:
  assumes "stands_for rds db a" "valid_call call" "run_call rds call db = (r, db')"
  shows "\<exists>a'. leased_call (rds_ttl_sec rds) call (tdb_now db) a = (r, a') \<and> stands_for rds db' a' \<and> tdb_now db' = tdb_now db"
proof (cases call)
  case (Get_Call sid)
  from get_step [OF assms(1) assms(3) [unfolded Get_Call]] show ?thesis unfolding Get_Call leased_call.simps by blast
next
  case (Append_Call sid ms limit)
  from assms(2,3) show ?thesis unfolding Append_Call valid_call.simps by (rule append_step [OF assms(1)])
next
  case (Set_Call sid ms)
  from assms(2,3) show ?thesis unfolding Set_Call valid_call.simps by (rule set_step [OF assms(1)])
next
  case (Consume_Call t route limit win now)
  from assms(2,3) show ?thesis unfolding Consume_Call valid_call.simps by (rule consume_step [OF assms(1)])
next
  case Ping_Call
  from ping_step [OF assms(1) assms(3) [unfolded Ping_Call]] show ?thesis unfolding Ping_Call leased_call.simps by blast
qed

end

subsection \<open>How long a lease lasts\<close>

fun lasts_at_most :: "int \<Rightarrow> redis_call \<Rightarrow> bool" where
  "lasts_at_most m (Consume_Call tenant route limit window_sec now) \<longleftrightarrow> window_sec \<le> m"
| "lasts_at_most m _ \<longleftrightarrow> True"

definition leases_until :: "real \<Rightarrow> leased_store \<Rightarrow> bool" where
  "leases_until u a \<longleftrightarrow> (\<forall>sid t ms. ls_sessions a sid = Some (t, ms) \<longrightarrow> t \<le> u) \<and>
     (\<forall>k t n. ls_counters a k = Some (t, n) \<longrightarrow> t \<le> u)"

lemma leases_untilD:
  "leases_until u a \<Longrightarrow> ls_sessions a sid = Some (t, ms) \<Longrightarrow> t \<le> u"
  "leases_until u a \<Longrightarrow> ls_counters a k = Some (t, n) \<Longrightarrow> t \<le> u"
  unfolding leases_until_def by blast+

lemma leases_until_mono: "leases_until u a \<Longrightarrow> u \<le> v \<Longrightarrow> leases_until v a"
  unfolding leases_until_def by fastforce

lemma leased_call_until:
  assumes "leases_until (now + of_int m) a" "ttl \<le> m" "lasts_at_most m call" "leased_call ttl call now a = (r, a')"
  shows "leases_until (now + of_int m) a'"
proof (cases call)
  case (Consume_Call t route limit win tm)
  let ?k = "rate_key t route (window_start tm win)"
  obtain u n where e: "(case unexpired now (ls_counters a ?k) of None \<Rightarrow> (now + of_int win, 0) | Some (t, n) \<Rightarrow> (t, n)) = (u, n)"
    by fastforce
  then have "u \<le> now + of_int m"
    using assms(1,3) Consume_Call by (auto simp: unexpired_def dest: leases_untilD(2) split: option.splits if_splits)
  moreover have "a' = a \<or> a' = a\<lparr>ls_counters := (ls_counters a)(?k \<mapsto> (u, n + 1))\<rparr>"
    using assms(4) unfolding Consume_Call leased_call.simps Let_def e by (auto split: if_splits)
  ultimately show ?thesis using assms(1) leases_untilD [OF assms(1)] unfolding leases_until_def [of _ a']
    by (auto split: if_splits)
qed (use assms leases_untilD [OF assms(1)] in \<open>auto simp: leases_until_def [of _ a'] lease_def split: if_splits\<close>)

subsection \<open>The invariant of the exchanges\<close>

text \<open>What the caller of a call that is given up is told.\<close>

fun given_up :: "redis_call \<Rightarrow> redis_result" where
  "given_up (Get_Call sid) = Raised (mk_exn SessionStoreError ''failed to load session history'')"
| "given_up (Append_Call sid messages limit) =
     (if messages = [] then Done else Raised (mk_exn SessionStoreError ''failed to append session history''))"
| "given_up (Set_Call sid messages) = Raised (mk_exn SessionStoreError ''failed to set session history'')"
| "given_up (Consume_Call tenant route limit window_sec now) = Raised connection_error"
| "given_up Ping_Call = Ponged False"

lemma cut_off: "valid_call call \<Longrightarrow> fst (run_call (rds\<lparr>rds_server := cut_off_server\<rparr>) call db) = given_up call"
  by (cases call) (auto simp: cut_off_server_def timed_server_def result_of_def redis_get_history_def redis_append_messages_def
      redis_set_history_def redis_consume_def redis_script_def redis_ping_def redis_execute_def redis_pipeline_def Let_def)

fun ran_call :: "nat \<Rightarrow> redis_event \<Rightarrow> bool" where
  "ran_call i (Ran j now r) \<longleftrightarrow> i = j"

fun sends_call :: "nat \<Rightarrow> redis_move \<Rightarrow> bool" where
  "sends_call i (Send j fate) \<longleftrightarrow> i = j \<and> fate \<noteq> Not_Reached"
| "sends_call i _ \<longleftrightarrow> False"

lemma replay_leased_append: "replay_leased ttl calls (xs @ ys) a =
  (case replay_leased ttl calls xs a of None \<Rightarrow> None | Some b \<Rightarrow> replay_leased ttl calls ys b)"
proof (induction xs arbitrary: a)
  case (Cons e xs)
  obtain i now r where "e = Ran i now r" by (cases e)
  then show ?case by (simp add: Cons.IH split: prod.split)
qed simp

definition answers_ok :: "redis_call list \<Rightarrow> redis_world \<Rightarrow> bool" where
  "answers_ok calls w \<longleftrightarrow> length (rw_results w) = length calls \<and>
     (\<forall>i < length calls. \<forall>r. rw_results w ! i = Some r \<longrightarrow>
        (\<exists>now. Ran i now r \<in> set (rw_log w)) \<or> r = given_up (calls ! i))"

definition world_inv :: "timed_db redis_session \<Rightarrow> redis_call list \<Rightarrow> redis_world \<Rightarrow> bool" where
  "world_inv rds calls w \<longleftrightarrow> answers_ok calls w \<and>
     (\<exists>a. replay_leased (rds_ttl_sec rds) calls (rw_log w) no_leases = Some a \<and> stands_for rds (rw_db w) a \<and>
        (\<forall>m. rds_ttl_sec rds \<le> m \<longrightarrow> list_all (lasts_at_most m) calls \<longrightarrow> leases_until (tdb_now (rw_db w) + of_int m) a))"

context timed_sessions
begin

lemma on_timed: "rds\<lparr>rds_server := timed_server\<rparr> = rds"
  by (simp add: server [symmetric])

lemma step_world:
  assumes "world_inv rds calls w" "list_all valid_call calls"
  shows "world_inv rds calls (redis_step rds calls move w)"
proof -
  obtain a where a: "replay_leased (rds_ttl_sec rds) calls (rw_log w) no_leases = Some a" "stands_for rds (rw_db w) a"
    and until: "\<And>m. \<lbrakk>rds_ttl_sec rds \<le> m; list_all (lasts_at_most m) calls\<rbrakk> \<Longrightarrow> leases_until (tdb_now (rw_db w) + of_int m) a"
    and answers: "answers_ok calls w" using assms(1) by (auto simp: world_inv_def)
  show ?thesis
  proof (cases move)
    case (Pass dt)
    have "leases_until (tdb_now (rw_db w) + max 0 dt + of_int m) a"
      if "rds_ttl_sec rds \<le> m" "list_all (lasts_at_most m) calls" for m
      by (rule leases_until_mono [OF until [OF that]]) simp
    then show ?thesis using Pass a answers stands_for_later [OF a(2), of "max 0 dt"]
      by (auto simp: world_inv_def answers_ok_def redis_step_def)
  next
    case (Give_Up i)
    then show ?thesis using a until answers cut_off [of "calls ! i" rds "rw_db w"] assms(2)
      by (auto simp: world_inv_def answers_ok_def redis_step_def list_all_length nth_list_update)
  next
    case (Send i fate)
    show ?thesis
    proof (cases "i < length calls \<and> rw_results w ! i = None \<and> fate \<noteq> Not_Reached")
      case True
      obtain r db where run: "run_call rds (calls ! i) (rw_db w) = (r, db)" by fastforce
      have "valid_call (calls ! i)" using True assms(2) by (simp add: list_all_length)
      from call_step [OF a(2) this run] obtain a' where
        a': "leased_call (rds_ttl_sec rds) (calls ! i) (tdb_now (rw_db w)) a = (r, a')" "stands_for rds db a'" "tdb_now db = tdb_now (rw_db w)" by blast
      have step: "redis_step rds calls move w = w\<lparr>rw_db := db, rw_log := rw_log w @ [Ran i (tdb_now (rw_db w)) r],
          rw_results := (if fate = Replied then (rw_results w)[i := Some r] else rw_results w)\<rparr>"
        using True run by (simp add: Send redis_step_def on_timed)
      have "answers_ok calls (redis_step rds calls move w)"
        using answers True by (auto simp: answers_ok_def step nth_list_update)
      moreover have "replay_leased (rds_ttl_sec rds) calls (rw_log w @ [Ran i (tdb_now (rw_db w)) r]) no_leases = Some a'"
        by (simp add: replay_leased_append a(1) a'(1))
      moreover have "leases_until (tdb_now db + of_int m) a'"
        if "rds_ttl_sec rds \<le> m" "list_all (lasts_at_most m) calls" for m
        using leased_call_until [OF until [OF that] that(1) _ a'(1)] that(2) True a'(3) by (simp add: list_all_length)
      ultimately show ?thesis using a'(2) by (simp add: world_inv_def step)
    qed (use assms Send in \<open>auto simp: redis_step_def\<close>)
  qed
qed

lemma start_world: "world_inv rds calls (redis_start calls)"
proof -
  have "live_keys empty_db = Map.empty" by (simp add: live_keys_def empty_db_def fun_eq_iff)
  then have "stands_for rds empty_db no_leases"
    by (simp add: stands_for_def keys_ok_def session_lease_def counter_lease_def key_lease_def no_leases_def unexpired_def)
  moreover have "leases_until u no_leases" for u by (simp add: leases_until_def no_leases_def)
  ultimately show ?thesis by (auto simp: world_inv_def answers_ok_def redis_start_def)
qed

lemma run_world: "list_all valid_call calls \<Longrightarrow> world_inv rds calls w \<Longrightarrow> world_inv rds calls (redis_run rds calls moves w)"
  by (induction moves arbitrary: w) (simp_all add: redis_run_def step_world)

end

text \<open>A call takes effect at most as often as it is sent and reaches the server.\<close>

lemma runs_sends:
  "length (filter (ran_call i) (rw_log (redis_run rds calls moves w))) \<le>
     length (filter (ran_call i) (rw_log w)) + length (filter (sends_call i) moves)"
proof (induction moves arbitrary: w)
  case (Cons m moves)
  have "length (filter (ran_call i) (rw_log (redis_step rds calls m w))) \<le>
      length (filter (ran_call i) (rw_log w)) + (if sends_call i m then 1 else 0)"
    by (cases m) (auto simp: redis_step_def Let_def split: prod.split)
  with Cons.IH [of "redis_step rds calls m w"] show ?case by (auto simp: redis_run_def split: if_splits)
qed (simp add: redis_run_def)

subsection \<open>Properties\<close>

text \<open>
  C11: the Redis store and the Redis limiter, as tasks use them at the same time. However the
  exchanges interleave, whichever do not reach the server, lose their answer, are sent again or
  are given up, and however time passes, what the server ran gives, one call after the other,
  exactly the results of the abstract store of histories and counts that expire, and its keys
  stand for that store; a call answered with a result other than that of giving up was run with
  this result, and each call took effect at most as often as it was sent.
\<close>

theorem redis_linearizable:
  assumes "timed_sessions rds" "list_all valid_call calls" "w = redis_run rds calls moves (redis_start calls)"
  shows "(\<exists>a. replay_leased (rds_ttl_sec rds) calls (rw_log w) no_leases = Some a \<and> stands_for rds (rw_db w) a) \<and>
    (\<forall>i < length calls. \<forall>r. rw_results w ! i = Some r \<longrightarrow>
       (\<exists>now. Ran i now r \<in> set (rw_log w)) \<or> r = given_up (calls ! i)) \<and>
    (\<forall>i. length (filter (ran_call i) (rw_log w)) \<le> length (filter (sends_call i) moves))"
proof -
  have "world_inv rds calls w"
    unfolding assms(3) by (rule timed_sessions.run_world [OF assms(1,2) timed_sessions.start_world [OF assms(1)]])
  moreover have "length (filter (ran_call i) (rw_log w)) \<le> length (filter (sends_call i) moves)" for i
    using runs_sends [of i rds calls moves "redis_start calls"] by (simp add: assms(3) redis_start_def)
  ultimately show ?thesis by (auto simp: world_inv_def answers_ok_def)
qed

text \<open>A server, an encoding and a time to live: a turn sent again after its answer was lost.\<close>

definition timed_store :: "timed_db redis_session" where
  "timed_store = \<lparr>rds_server = timed_server, rds_ttl_sec = 60, rds_dump = unary_dump, rds_parse = unary_parse\<rparr>"

interpretation timedstore: timed_sessions timed_store
proof -
  have "redis (rds_server timed_store) live_keys"
    using timed.redis_axioms by (simp add: timed_store_def)
  then show "timed_sessions timed_store"
    by (intro timed_sessions.intro redis_sessions.intro redis_sessions_axioms.intro timed_sessions_axioms.intro)
      (simp_all add: timed_store_def unary_roundtrip)
qed

definition turn_calls :: "redis_call list" where
  "turn_calls = [Append_Call ''s'' [user_msg ''a''] (Some 4), Get_Call ''s'', Consume_Call ''acme'' ''chat_sync'' 2 60 61, Get_Call ''s'']"

definition resent_moves :: "redis_move list" where
  "resent_moves = [Send 0 Reply_Lost, Send 2 Not_Reached, Send 0 Replied, Send 1 Replied, Give_Up 2, Pass 60, Send 3 Replied]"

lemma resent_log: "rw_log (redis_run timed_store turn_calls resent_moves (redis_start turn_calls)) =
  [Ran 0 0 Done, Ran 0 0 Done, Ran 1 0 (History [user_msg ''a'', user_msg ''a'']), Ran 3 60 (History [])]"
  by code_simp

theorem redis_linearizable_witness:
  "\<exists>a. replay_leased 60 turn_calls
     [Ran 0 0 Done, Ran 0 0 Done, Ran 1 0 (History [user_msg ''a'', user_msg ''a'']), Ran 3 60 (History [])] no_leases = Some a"
proof -
  have "list_all valid_call turn_calls" by (simp add: turn_calls_def valid_message_def valid_role_def)
  from redis_linearizable [OF timedstore.timed_sessions_axioms this refl, of resent_moves] show ?thesis
    unfolding resent_log by (auto simp: timed_store_def)
qed

text \<open>
  C22: Redis forgets. After any run of the exchanges, once as much time has passed as the longest
  time to live in use, nothing the program wrote is there any more, no history and no count.
\<close>

theorem redis_forgets:
  assumes "timed_sessions rds" "list_all valid_call calls" "rds_ttl_sec rds \<le> m" "list_all (lasts_at_most m) calls"
  shows "live_keys (rw_db (redis_run rds calls (moves @ [Pass (of_int m)]) (redis_start calls))) = Map.empty"
proof -
  let ?w = "redis_run rds calls moves (redis_start calls)"
  let ?db = "rw_db (redis_run rds calls (moves @ [Pass (of_int m)]) (redis_start calls))"
  have m: "0 < m" using assms(3) timed_sessions.ttl [OF assms(1)] by simp
  have "world_inv rds calls ?w" by (rule timed_sessions.run_world [OF assms(1,2) timed_sessions.start_world [OF assms(1)]])
  then obtain a where a: "stands_for rds (rw_db ?w) a" "leases_until (tdb_now (rw_db ?w) + of_int m) a"
    using assms(3,4) by (auto simp: world_inv_def)
  have db: "?db = (rw_db ?w)\<lparr>tdb_now := tdb_now (rw_db ?w) + of_int m\<rparr>"
    using m by (simp add: redis_run_def redis_step_def)
  have later: "stands_for rds ?db a" unfolding db using m by (intro stands_for_later [OF a(1)]) simp
  have "unexpired (tdb_now ?db) (ls_sessions a sid) = None" "unexpired (tdb_now ?db) (ls_counters a k) = None" for sid k
    using leases_untilD [OF a(2)] unfolding db by (auto simp: unexpired_def split: option.split)
  then have none: "session_lease rds ?db sid = None" "counter_lease ?db k = None" for sid k
    using later by (auto simp: stands_for_def)
  have keys: "keys_ok rds (live_keys ?db)" using later by (simp add: stands_for_def)
  have "live_keys ?db (session_key sid) = None" for sid
  proof (rule ccontr)
    assume "live_keys ?db (session_key sid) \<noteq> None"
    with keys obtain xs s where "live_keys ?db (session_key sid) = Some (RList xs, Some s)"
      unfolding keys_ok_def by fastforce
    with none(1) [of sid] show False by (simp add: session_lease_def key_lease_def)
  qed
  moreover have "live_keys ?db (counter_key k) = None" for k
  proof (rule ccontr)
    assume "live_keys ?db (counter_key k) \<noteq> None"
    with keys obtain n s where "live_keys ?db (counter_key k) = Some (RInt n, Some s)"
      unfolding keys_ok_def by fastforce
    with none(2) [of k] show False by (simp add: counter_lease_def key_lease_def)
  qed
  moreover have "live_keys ?db k \<noteq> None \<Longrightarrow> k \<in> range session_key \<union> range counter_key" for k
    using keys by (simp add: keys_ok_def)
  ultimately show ?thesis by fast
qed

theorem redis_forgets_witness:
  "live_keys (rw_db (redis_run timed_store turn_calls (resent_moves @ [Pass (of_int 60)]) (redis_start turn_calls))) = Map.empty"
proof (rule redis_forgets [OF timedstore.timed_sessions_axioms])
  show "list_all valid_call turn_calls" by (simp add: turn_calls_def valid_message_def valid_role_def)
  show "rds_ttl_sec timed_store \<le> 60" by (simp add: timed_store_def)
  show "list_all (lasts_at_most 60) turn_calls" by (simp add: turn_calls_def)
qed

end
