(* ===== verification/Lost_Answers.thy ===== *)
theory Lost_Answers
  imports Running_App
begin

text \<open>
  The use case over a store whose answers may be lost: a COMMIT, or an exchange with Redis,
  takes effect and the adapter raises all the same. \<open>lossy_port\<close> puts such losses on any store;
  the contract it keeps is the locale \<open>lossy_repository\<close>, weaker than \<open>session_repository\<close> in one
  point: an append that raises may have appended.
\<close>

subsection \<open>The weaker contract\<close>

locale lossy_repository =
  fixes port :: "'s session_port"
    and history :: "'s \<Rightarrow> string \<Rightarrow> chat_message list"
    and ready :: "'s \<Rightarrow> string \<Rightarrow> bool"
  assumes get_Inr: "repo_get_history port sid s = (Inr h, s') \<Longrightarrow> h = history s sid"
    and get_keeps: "repo_get_history port sid s = (r, s') \<Longrightarrow> history s' = history s \<and> ready s' = ready s"
    and append_Inr: "repo_append_messages port sid ms (Some n) s = (Inr (), s') \<Longrightarrow> ready s sid \<Longrightarrow>
      history s' = (history s)(sid := appended n (history s sid) ms)"
    and append_Inl: "repo_append_messages port sid ms (Some n) s = (Inl e, s') \<Longrightarrow> ready s sid \<Longrightarrow>
      (history s' = history s \<or> history s' = (history s)(sid := appended n (history s sid) ms)) \<and>
      exn_cls e = SessionStoreError \<and> wf_exn e"
    and append_ready: "repo_append_messages port sid ms (Some n) s = (u, s') \<Longrightarrow> ready s x \<Longrightarrow> ready s' x"

text \<open>A store that keeps the contract keeps the weaker one.\<close>

sublocale session_repository \<subseteq> kept: lossy_repository port history ready
  by unfold_locales (simp_all add: get_Inr get_keeps append_Inr append_ready, simp add: append_Inl)

subsection \<open>Losing answers\<close>

text \<open>A store, and for each of its next operations whether the answer is lost; none left: no more are.\<close>

record 's lossy =
  ly_store :: 's
  ly_lost :: "bool list"

definition lose_answer :: "exn \<Rightarrow> ('s \<Rightarrow> (exn + 'a) \<times> 's) \<Rightarrow> 's lossy \<Rightarrow> (exn + 'a) \<times> 's lossy" where
  "lose_answer e f l = (case f (ly_store l) of (r, s1) \<Rightarrow>
     (if ly_lost l \<noteq> [] \<and> hd (ly_lost l) then Inl e else r, l\<lparr>ly_store := s1, ly_lost := tl (ly_lost l)\<rparr>))"

text \<open>The message of the exception is that of the adapter.\<close>

definition lossy_port :: "string \<Rightarrow> 's session_port \<Rightarrow> 's lossy session_port" where
  "lossy_port message port = (let e = mk_exn SessionStoreError message
     in \<lparr>repo_get_history = (\<lambda>sid. lose_answer e (repo_get_history port sid)),
         repo_append_messages = (\<lambda>sid ms limit. lose_answer e (repo_append_messages port sid ms limit)),
         repo_set_history = (\<lambda>sid ms. lose_answer e (repo_set_history port sid ms)),
         repo_ping = (\<lambda>l. case repo_ping port (ly_store l) of (b, s1) \<Rightarrow>
           (b \<and> \<not> (ly_lost l \<noteq> [] \<and> hd (ly_lost l)), l\<lparr>ly_store := s1, ly_lost := tl (ly_lost l)\<rparr>)),
         repo_close = lose_answer e (repo_close port)\<rparr>)"

lemma lossy_sel [simp]:
  "repo_get_history (lossy_port message port) sid = lose_answer (mk_exn SessionStoreError message) (repo_get_history port sid)"
  "repo_append_messages (lossy_port message port) sid ms limit =
     lose_answer (mk_exn SessionStoreError message) (repo_append_messages port sid ms limit)"
  by (simp_all add: lossy_port_def Let_def)

lemma lose_answer_cases:
  assumes "lose_answer e f l = (r, l')"
  obtains q s1 where "f (ly_store l) = (q, s1)" "ly_store l' = s1" "r = q \<or> r = Inl e"
  using assms by (auto simp: lose_answer_def split: prod.splits if_splits)

sublocale session_repository \<subseteq> lossy: lossy_repository "lossy_port message port" "\<lambda>l. history (ly_store l)" "\<lambda>l. ready (ly_store l)"
  for message
proof
  fix sid l h l'
  assume "repo_get_history (lossy_port message port) sid l = (Inr h, l')"
  then have "lose_answer (mk_exn SessionStoreError message) (repo_get_history port sid) l = (Inr h, l')"
    by simp
  then show "h = history (ly_store l) sid" by (rule lose_answer_cases) (auto dest: get_Inr)
next
  fix sid l r l'
  assume "repo_get_history (lossy_port message port) sid l = (r, l')"
  then have "lose_answer (mk_exn SessionStoreError message) (repo_get_history port sid) l = (r, l')"
    by simp
  then show "history (ly_store l') = history (ly_store l) \<and> ready (ly_store l') = ready (ly_store l)"
    by (rule lose_answer_cases) (auto dest: get_keeps)
next
  fix sid ms n l l'
  assume "repo_append_messages (lossy_port message port) sid ms (Some n) l = (Inr (), l')" and ready: "ready (ly_store l) sid"
  then have "lose_answer (mk_exn SessionStoreError message) (repo_append_messages port sid ms (Some n)) l = (Inr (), l')"
    by simp
  then show "history (ly_store l') = (history (ly_store l))(sid := appended n (history (ly_store l) sid) ms)"
    by (rule lose_answer_cases) (use append_Inr ready in auto)
next
  fix sid ms n l e l'
  assume "repo_append_messages (lossy_port message port) sid ms (Some n) l = (Inl e, l')" and ready: "ready (ly_store l) sid"
  then have "lose_answer (mk_exn SessionStoreError message) (repo_append_messages port sid ms (Some n)) l = (Inl e, l')"
    by simp
  then show "(history (ly_store l') = history (ly_store l) \<or>
      history (ly_store l') = (history (ly_store l))(sid := appended n (history (ly_store l) sid) ms)) \<and>
    exn_cls e = SessionStoreError \<and> wf_exn e"
  proof (rule lose_answer_cases)
    fix q s1
    assume run: "repo_append_messages port sid ms (Some n) (ly_store l) = (q, s1)" "ly_store l' = s1"
      "Inl e = q \<or> Inl e = (Inl (mk_exn SessionStoreError message) :: exn + unit)"
    show ?thesis
    proof (cases q)
      case (Inl e1)
      with run append_Inl [OF run(1) [unfolded Inl]] show ?thesis by auto
    next
      case (Inr u)
      with run append_Inr [OF _ ready, of ms n s1] show ?thesis by auto
    qed
  qed
next
  fix sid ms n l u l' x
  assume "repo_append_messages (lossy_port message port) sid ms (Some n) l = (u, l')" and ready: "ready (ly_store l) x"
  then have "lose_answer (mk_exn SessionStoreError message) (repo_append_messages port sid ms (Some n)) l = (u, l')"
    by simp
  then show "ready (ly_store l') x" by (rule lose_answer_cases) (use append_ready ready in blast)
qed

context session_repository
begin

lemma lossy_contract: "lossy_repository (lossy_port message port) (\<lambda>l. history (ly_store l)) (\<lambda>l. ready (ly_store l))"
  by (rule lossy.lossy_repository_axioms)

end

subsection \<open>What a chat and a stream leave\<close>

definition with_turn :: "('s, 'n) chat_service \<Rightarrow> string \<Rightarrow> string \<Rightarrow> string \<Rightarrow>
    (string \<Rightarrow> chat_message list) \<Rightarrow> string \<Rightarrow> chat_message list" where
  "with_turn svc sid um reply hist =
     hist(sid := keep_recent (history_limit svc) (hist sid @ [user_msg um, assistant_msg reply]))"

context lossy_repository
begin

lemma store_effect:
  assumes "svc_repo svc = port" "store_turn svc sid um reply s = (r, s')" "ready s sid"
  shows "r = Inr () \<Longrightarrow> history s' = with_turn svc sid um reply (history s)"
    "history s' = history s \<or> history s' = with_turn svc sid um reply (history s)"
proof -
  have run: "repo_append_messages port sid [user_msg um, assistant_msg reply] (Some (history_limit svc)) s = (r, s')"
    using assms(1,2) by (simp add: store_turn_def)
  have ok: "history s' = with_turn svc sid um reply (history s)" if "r = Inr ()"
    using append_Inr [OF run [unfolded that] assms(3)] by (simp add: with_turn_def appended_def)
  then show "r = Inr () \<Longrightarrow> history s' = with_turn svc sid um reply (history s)" .
  show "history s' = history s \<or> history s' = with_turn svc sid um reply (history s)"
  proof (cases r)
    case (Inl e)
    from append_Inl [OF run [unfolded Inl] assms(3)] show ?thesis by (simp add: with_turn_def appended_def)
  qed (use ok in simp)
qed

lemma store_ready: "svc_repo svc = port \<Longrightarrow> store_turn svc sid um reply s = (r, s') \<Longrightarrow> ready s x \<Longrightarrow> ready s' x"
  using append_ready by (simp add: store_turn_def)

lemma chat_effect:
  assumes "svc_repo svc = port" "ready (app_repo a) sid" "chat svc sid um audio voice a = (r, a')"
  shows "(\<forall>res. r = Inr res \<longrightarrow> res_text res \<noteq> [] \<and>
      history (app_repo a') = with_turn svc sid um (res_text res) (history (app_repo a))) \<and>
    (history (app_repo a') = history (app_repo a) \<or> py_strip um \<noteq> [] \<and>
      (\<exists>reply. reply \<noteq> [] \<and> history (app_repo a') = with_turn svc sid um reply (history (app_repo a)))) \<and>
    (\<forall>x. ready (app_repo a) x \<longrightarrow> ready (app_repo a') x)"
proof (cases "py_strip um = []")
  case True
  then show ?thesis using assms(3) by (auto simp: chat_def)
next
  case um: False
  obtain r1 s1 where get: "repo_get_history port sid (app_repo a) = (r1, s1)" by fastforce
  note kept = get_keeps [OF get]
  show ?thesis
  proof (cases r1)
    case (Inl e)
    then show ?thesis using assms um get kept by (auto simp: chat_def)
  next
    case h: (Inr h)
    obtain r2 w1 where llm: "llm_generate (svc_llm svc) (build_prompt_history h um (svc_max_history_turns svc)) (app_io a) = (r2, w1)"
      by fastforce
    show ?thesis
    proof (cases "\<exists>reply. r2 = Inr reply \<and> reply \<noteq> []")
      case False
      then show ?thesis using assms um get kept h llm by (cases r2) (auto simp: chat_def)
    next
      case True
      then obtain reply where reply: "r2 = Inr reply" "reply \<noteq> []" by blast
      obtain r3 s2 where st: "store_turn svc sid um reply s1 = (r3, s2)" by fastforce
      have "ready s1 sid" using assms(2) kept by simp
      note effect = store_effect [OF assms(1) st this] and rdy = store_ready [OF assms(1) st]
      show ?thesis
      proof (cases r3)
        case (Inl e)
        then have "r = Inl e" "app_repo a' = s2" using assms(1,3) um get h llm reply st by (auto simp: chat_def)
        then show ?thesis using effect(2) rdy kept um reply(2) by auto
      next
        case (Inr u)
        have "app_repo a' = s2" "\<And>res. r = Inr res \<Longrightarrow> res_text res = reply"
          using assms(1,3) um get h llm reply st Inr by (auto simp: chat_def split: if_splits prod.splits sum.splits)
        then show ?thesis using effect(1) Inr rdy kept um reply(2) by auto
      qed
    qed
  qed
qed

lemma stream_effect:
  assumes "svc_repo svc = port" "ready (app_repo a) sid" "stream_chat svc sid um rid tid a = (evs, a')"
  shows "(history (app_repo a') = history (app_repo a) \<or> py_strip um \<noteq> [] \<and>
      (\<exists>reply. reply \<noteq> [] \<and> history (app_repo a') = with_turn svc sid um reply (history (app_repo a)))) \<and>
    (\<forall>x. ready (app_repo a) x \<longrightarrow> ready (app_repo a') x)"
proof (cases rule: stream_chat_cases [of um svc sid rid tid a])
  case blank
  then show ?thesis using assms(3) by auto
next
  case (read e s1)
  then show ?thesis using assms(1,3) get_keeps [of sid "app_repo a" "Inl e" s1] by auto
next
  case (reply h s1 chunks after_end w1 ev b)
  have kept: "history s1 = history (app_repo a)" "ready s1 = ready (app_repo a)"
    using get_keeps reply(2) assms(1) by fastforce+
  let ?text = "py_strip (concat (nonempty chunks))"
  have a': "a' = b" using reply(5) assms(3) by simp
  show ?thesis
  proof (cases "after_end = None \<and> ?text \<noteq> []")
    case False
    then show ?thesis using reply(4) kept a'
      by (auto simp: stream_close_def stream_finish_def stream_fail_def Let_def split: option.splits)
  next
    case True
    obtain r3 s2 where st: "store_turn svc sid um ?text s1 = (r3, s2)" by fastforce
    have "ready s1 sid" using assms(2) kept by simp
    note effect = store_effect [OF assms(1) st this] and rdy = store_ready [OF assms(1) st]
    have "app_repo b = s2"
      using reply(4) True st by (auto simp: stream_close_def stream_finish_def stream_fail_def Let_def split: sum.splits)
    then show ?thesis using effect(2) rdy kept reply(1) True unfolding a' by (metis (no_types, lifting))
  qed
qed

text \<open>Both leave whole turns.\<close>

lemma turn_ok:
  assumes "hist' = hist \<or> py_strip um \<noteq> [] \<and> (\<exists>reply. reply \<noteq> [] \<and> hist' = with_turn svc sid um reply hist)"
    and "\<And>x. session_ok (svc_max_history_turns svc) (hist x)"
  shows "session_ok (svc_max_history_turns svc) (hist' x)"
  using assms by (auto simp: with_turn_def session_ok_turn)

lemma serve_ok:
  assumes "svc_repo svc = port" "\<And>x. ready (app_repo a) x" "\<And>x. session_ok (svc_max_history_turns svc) (history (app_repo a) x)"
  shows "session_ok (svc_max_history_turns svc) (history (app_repo (serve svc uses a)) x)"
  using assms
proof (induction svc uses a rule: serve.induct)
  case (2 svc sid um audio voice us a)
  obtain r a' where run: "chat svc sid um audio voice a = (r, a')" by fastforce
  note effect = chat_effect [OF 2(2) 2(3) run]
  have "session_ok (svc_max_history_turns svc) (history (app_repo a') x)" for x
    by (rule turn_ok [OF conjunct1 [OF conjunct2 [OF effect]] 2(4)])
  moreover have "ready (app_repo a') x" for x using effect 2(3) by blast
  ultimately show ?case using 2(1) [OF 2(2)] by (simp add: run)
next
  case (3 svc sid um rid tid us a)
  obtain evs a' where run: "stream_chat svc sid um rid tid a = (evs, a')" by fastforce
  note effect = stream_effect [OF 3(2) 3(3) run]
  have "session_ok (svc_max_history_turns svc) (history (app_repo a') x)" for x
    by (rule turn_ok [OF conjunct1 [OF effect] 3(4)])
  moreover have "ready (app_repo a') x" for x using effect 3(3) by blast
  ultimately show ?case using 3(1) [OF 3(2)] by (simp add: run)
qed simp

end

subsection \<open>A client that tries again\<close>

text \<open>The same chat sent until it is answered with success, at most \<open>k\<close> times more.\<close>

fun chat_attempts :: "nat \<Rightarrow> ('s, 'n) chat_service \<Rightarrow> string \<Rightarrow> string \<Rightarrow> bool \<Rightarrow> tts_args \<Rightarrow> ('s, 'n) app \<Rightarrow>
    (exn + chat_result) \<times> ('s, 'n) app" where
  "chat_attempts 0 svc sid um audio voice a = chat svc sid um audio voice a"
| "chat_attempts (Suc k) svc sid um audio voice a = (case chat svc sid um audio voice a of
       (Inr res, a1) \<Rightarrow> (Inr res, a1) | (Inl e, a1) \<Rightarrow> chat_attempts k svc sid um audio voice a1)"

context lossy_repository
begin

lemma attempts_effect:
  assumes "svc_repo svc = port" "ready (app_repo a) sid" "chat_attempts k svc sid um audio voice a = (r, a')"
  shows "\<exists>replies. length replies \<le> Suc k \<and> [] \<notin> set replies \<and>
    history (app_repo a') = fold (with_turn svc sid um) replies (history (app_repo a)) \<and>
    (\<forall>res. r = Inr res \<longrightarrow> replies \<noteq> [] \<and> last replies = res_text res)"
  using assms
proof (induction k svc sid um audio voice a rule: chat_attempts.induct)
  case (1 svc sid um audio voice a)
  have run: "chat svc sid um audio voice a = (r, a')" using 1 by simp
  note effect = chat_effect [OF 1(1,2) run]
  show ?case
  proof (cases r)
    case (Inr res)
    with effect show ?thesis by (intro exI [of _ "[res_text res]"]) auto
  next
    case (Inl e)
    from effect consider "history (app_repo a') = history (app_repo a)"
      | reply where "reply \<noteq> []" "history (app_repo a') = with_turn svc sid um reply (history (app_repo a))" by blast
    then show ?thesis
    proof cases
      case 1
      then show ?thesis using Inl by (intro exI [of _ "[]"]) simp
    next
      case (2 reply)
      then show ?thesis using Inl by (intro exI [of _ "[reply]"]) simp
    qed
  qed
next
  case (2 k svc sid um audio voice a)
  obtain r1 a1 where run: "chat svc sid um audio voice a = (r1, a1)" by fastforce
  note effect = chat_effect [OF 2(2,3) run]
  show ?case
  proof (cases r1)
    case (Inr res)
    then have "r = Inr res" "a' = a1" using 2(4) run by simp_all
    with effect Inr show ?thesis by (intro exI [of _ "[res_text res]"]) auto
  next
    case (Inl e)
    have rest: "chat_attempts k svc sid um audio voice a1 = (r, a')" using 2(4) run Inl by simp
    have "ready (app_repo a1) sid" using effect 2(3) by blast
    with 2(1) [OF run [symmetric] Inl 2(2) this rest] obtain replies where
      replies: "length replies \<le> Suc k" "[] \<notin> set replies"
        "history (app_repo a') = fold (with_turn svc sid um) replies (history (app_repo a1))"
        "\<forall>res. r = Inr res \<longrightarrow> replies \<noteq> [] \<and> last replies = res_text res" by blast
    from effect consider "history (app_repo a1) = history (app_repo a)"
      | reply where "reply \<noteq> []" "history (app_repo a1) = with_turn svc sid um reply (history (app_repo a))" by blast
    then show ?thesis
    proof cases
      case 1
      then show ?thesis using replies by (intro exI [of _ replies]) simp
    next
      case (2 reply)
      then show ?thesis using replies by (intro exI [of _ "reply # replies"]) auto
    qed
  qed
qed

end

subsection \<open>Properties\<close>

text \<open>
  C6: sessions stay well-formed whatever is lost. Over each store the settings can select,
  however its operations fail and its answers are lost, whatever chats and streams are served
  and whatever the model and the synthesis do, every session remains a sequence of whole turns
  (a message that is not blank, a reply that is not empty), no longer than the service keeps.
\<close>

theorem sessions_stay_whole:
  assumes "redis_client lib keys" "svc_repo svc = lossy_port message (repo_of lib backend)"
    and "\<And>x. ready_in keys backend (ly_store (app_repo a)) x"
    and "\<And>x. session_ok (svc_max_history_turns svc) (history_in lib keys backend (ly_store (app_repo a)) x)"
  shows "session_ok (svc_max_history_turns svc)
    (history_in lib keys backend (ly_store (app_repo (serve svc uses a))) sid)"
proof -
  have "session_repository (repo_of lib backend) (history_in lib keys backend) (ready_in keys backend)"
    by (rule redis_client.repo_contract [OF assms(1)])
  from lossy_repository.serve_ok [OF session_repository.lossy_contract [OF this] assms(2-4)] show ?thesis .
qed

text \<open>
  C35: a chat is stored at least once. A client that sends the same chat until it succeeds, over
  any store that keeps the contract, however its operations fail and its answers are lost, finds
  the session with nothing added but turns of this chat, at most one for each attempt; once it
  has succeeded the last of them holds the reply it was given.
\<close>

theorem chat_at_least_once:
  assumes "session_repository port hist ready" "svc_repo svc = lossy_port message port"
    and "ready (ly_store (app_repo a)) sid" "chat_attempts k svc sid um audio voice a = (r, a')"
  shows "\<exists>replies. length replies \<le> Suc k \<and> [] \<notin> set replies \<and>
    hist (ly_store (app_repo a')) = fold (with_turn svc sid um) replies (hist (ly_store (app_repo a))) \<and>
    (case r of Inl _ \<Rightarrow> True | Inr res \<Rightarrow> replies \<noteq> [] \<and> last replies = res_text res)"
  using lossy_repository.attempts_effect [OF session_repository.lossy_contract [OF assms(1)] assms(2-4)]
  by (cases r) auto

text \<open>The in-memory store, the answer of whose first append is lost: the turn is stored twice.\<close>

interpretation lossy_memory: lossy_repository "lossy_port message InMemorySessionRepository"
  "\<lambda>l. mem_bucket (ly_store l)" "\<lambda>l sid. True" for message
  using mem.lossy_contract by simp

definition lossy_service :: "(mem_store lossy, nat) chat_service" where
  "lossy_service = ChatOrchestrationService VLLMStubClient GPTSoVITSStubClient (lossy_port ''lost'' InMemorySessionRepository) 2 16"

definition lossy_app :: "(mem_store lossy, nat) app" where
  "lossy_app = \<lparr>app_repo = \<lparr>ly_store = Map.empty, ly_lost = [False, True]\<rparr>,
     app_io = \<lparr>clock = 0, draws = [], lags = [], net = 0, metrics = [], logs = []\<rparr>\<rparr>"

theorem chat_at_least_once_witness:
  "case chat_attempts 1 lossy_service ''s'' ''hi'' False no_voice lossy_app of (r, a') \<Rightarrow>
     (\<exists>replies. length replies \<le> 2 \<and> (\<exists>res. r = Inr res \<and> last replies = res_text res) \<and>
       mem_bucket (ly_store (app_repo a')) ''s'' = fold (with_turn lossy_service ''s'' ''hi'') replies (\<lambda>_. []) ''s'') \<and>
     length (mem_bucket (ly_store (app_repo a')) ''s'') = 4"
proof -
  have strip: "py_strip ''hi'' = ''hi''" by code_simp
  obtain r a' where run: "chat_attempts (Suc 0) lossy_service ''s'' ''hi'' False no_voice lossy_app = (r, a')" by fastforce
  have res: "\<exists>res. r = Inr res" "length (mem_bucket (ly_store (app_repo a')) ''s'') = 4"
    using run by (auto simp: chat_def strip lossy_service_def ChatOrchestrationService_def lossy_app_def store_turn_def
        lose_answer_def mem_get_history_def mem_append_bucket appended_def history_limit_def keep_recent_def
        VLLMStubClient_def stub_generate_def mem_bucket_def mem_append_messages_def Let_def)
  have "svc_repo lossy_service = lossy_port ''lost'' InMemorySessionRepository"
    by (simp add: lossy_service_def ChatOrchestrationService_def)
  from chat_at_least_once [OF mem.session_repository_axioms this TrueI run] res(1) obtain replies where
    "length replies \<le> Suc (Suc 0)" "\<exists>res. r = Inr res \<and> last replies = res_text res"
    "mem_bucket (ly_store (app_repo a')) = fold (with_turn lossy_service ''s'' ''hi'') replies (mem_bucket (ly_store (app_repo lossy_app)))"
    by (auto split: sum.splits)
  moreover have "mem_bucket (ly_store (app_repo lossy_app)) = (\<lambda>_. [])" by (simp add: lossy_app_def mem_bucket_def fun_eq_iff)
  ultimately show ?thesis unfolding One_nat_def run prod.case using res(2)
    by (intro conjI exI [of _ replies]) simp_all
qed

text \<open>Over Redis, with a call that fails and two answers lost.\<close>

definition lossy_redis :: "(redis_db stores lossy, nat) chat_service" where
  "lossy_redis = ChatOrchestrationService VLLMStubClient GPTSoVITSStubClient
     (lossy_port ''lost'' (repo_of reference_library (RedisSessions ''u'' 60))) 2 16"

definition lossy_redis_app :: "(redis_db stores lossy, nat) app" where
  "lossy_redis_app = \<lparr>app_repo = \<lparr>ly_store = site_repo redis_site, ly_lost = [False, False, False, True]\<rparr>,
     app_io = app_io lossy_app\<rparr>"

theorem sessions_stay_whole_witness:
  "session_ok 2 (history_in reference_library rdb_keys (RedisSessions ''u'' 60)
     (ly_store (app_repo (serve lossy_redis
        [Chat ''s'' ''a'' False no_voice, Chat ''s'' ''b'' True no_voice, Stream ''s'' ''c'' ''r1'' ''t1''] lossy_redis_app))) ''s'')"
proof -
  let ?backend = "RedisSessions ''u'' 60"
  have svc: "svc_repo lossy_redis = lossy_port ''lost'' (repo_of reference_library ?backend)" "svc_max_history_turns lossy_redis = 2"
    by (simp_all add: lossy_redis_def ChatOrchestrationService_def)
  have "ready_in rdb_keys ?backend (ly_store (app_repo lossy_redis_app)) x" for x
    by (simp add: ready_in_def lossy_redis_app_def redis_site_def empty_redis_def list_key_def)
  moreover have "history_in reference_library rdb_keys ?backend (ly_store (app_repo lossy_redis_app)) x = []" for x
    by (simp add: history_in_def lossy_redis_app_def redis_site_def empty_redis_def redis_history_def key_items_def)
  then have "session_ok (svc_max_history_turns lossy_redis)
      (history_in reference_library rdb_keys ?backend (ly_store (app_repo lossy_redis_app)) x)" for x
    by (simp add: session_ok_def)
  ultimately show ?thesis
    using sessions_stay_whole [OF reflib.redis_client_axioms svc(1)] svc(2) by metis
qed

end
