(* ===== verification/Spec2Isabelle.thy ===== *)
theory Spec2Isabelle
  imports Endpoints Tracing Concurrent_Chats Mock_Servers Postgres_Locking Connection_Pool Redis_Exchanges Lost_Answers
begin

text \<open>
  A model of the chat serving service under \<open>src/app\<close>: an HTTP service that authenticates a
  tenant, limits its rate, prompts a language model with the recent turns of a session, stores
  the new turn, and answers with the reply (as one JSON body with, on request, the address of
  its synthesised speech, or as server-sent events).

  \<^bold>\<open>The parts and how they interact.\<close> A request passes the two middlewares and the exception
  handlers (\<open>main.py\<close>), the authentication dependency (\<open>api/deps/auth.py\<close>) with the rate
  limiter, then a route (\<open>api/routes/chat.py\<close>), which calls the use case
  (\<open>application/services/chat_orchestration_service.py\<close>). The use case reaches the session
  repository, the model and the speech synthesis through ports (\<open>ports/outbound\<close>); the
  adapters (\<open>adapters/outbound\<close>) implement them, the HTTP ones on the retry loop
  (\<open>common/utils/retry.py\<close>). \<open>bootstrap.py\<close> selects the adapters by the settings.

  \<^bold>\<open>Theories and sources.\<close>
  \<^item> \<open>Prelude\<close>: the Python string and slice operations used (\<open>py_strip\<close>, \<open>py_split\<close>,
    \<open>py_neg_slice\<close>, \<open>str(int)\<close>), the collections \<open>py_defs\<close>, \<open>py_eval\<close>, \<open>frame_simps\<close>.
  \<^item> \<open>Errors\<close>: the exception classes of \<open>domain/exceptions/errors.py\<close> as values (class, message,
    code, retry signal). \<open>Messages\<close>: messages, request schemas, the prompt history.
    \<open>Settings\<close>: \<open>common/config/settings.py\<close>.
  \<^item> \<open>Observability\<close>: the runtime record \<open>io\<close> (clock, random draws, delays of the event loop, the
    servers' state \<open>net\<close>, metrics, log) that all effects act on, \<open>logger.py\<close> with the configuration
    of the root logger, \<open>metrics.py\<close>.
  \<^item> \<open>Retry\<close>: \<open>run_with_retry\<close> with the taxonomy of retryable errors. \<open>Http_Json\<close>, \<open>LLM_Client\<close>,
    \<open>TTS_Client\<close>: the provider clients and their stubs; the transport is a parameter.
    \<open>Mock_Servers\<close>: \<open>mock_servers\<close> as such transports.
  \<^item> \<open>Session_Store\<close>: the repository port, its contract (locale \<open>session_repository\<close>), the
    in-memory store. \<open>Postgres_Store\<close>: tables, transactions and failing calls, an operation at a
    time. \<open>Postgres_Locking\<close>: the same transactions call by call, interleaved, with the row lock.
    \<open>Connection_Pool\<close>: \<open>_ensure_pool\<close> and \<open>close\<close> between their awaits, with the \<open>asyncio\<close> lock.
    \<open>Redis_Server\<close>, \<open>Redis_Session\<close>: the Redis store over a server as a parameter.
    \<open>Redis_Exchanges\<close>: the exchanges of store and limiter with one server, interleaved, in time,
    with answers lost and exchanges sent again. \<open>Lost_Answers\<close>: the use case over any of the stores
    where a write that took effect is reported as failed (locale \<open>lossy_repository\<close>).
  \<^item> \<open>Rate_Limiter\<close>: the limiter port, its contract (locales \<open>rate_limiter\<close>,
    \<open>reliable_limiter\<close>), the in-memory limiter. \<open>Redis_Limiter\<close>: the Redis one.
  \<^item> \<open>Chat_Service\<close>: \<open>chat\<close>. \<open>Chat_Stream\<close>: \<open>stream_chat\<close> as a machine with one step per
    \<open>yield\<close>. \<open>Concurrent_Chats\<close>: chats cut at their awaits and streams, interleaved.
  \<^item> \<open>Auth\<close>: \<open>api/deps/auth.py\<close>. \<open>Chat_Routes\<close>: \<open>api/routes/chat.py\<close>. \<open>Health\<close>:
    \<open>api/routes/health.py\<close>. \<open>Bootstrap\<close>: \<open>bootstrap.py\<close>. \<open>Application\<close>: \<open>main.py\<close> and the endpoints.
  \<^item> \<open>Running_App\<close>: the application as built: every supported adapter on its part of one state
    (locales \<open>store_part\<close>, \<open>limiter_part\<close>), and the lifespan of \<open>create_app\<close>. \<open>Endpoints\<close>: every
    route behind the middlewares, bodies that do not validate, and \<open>create_app\<close> in a process with
    its settings cache and root logger. \<open>Tracing\<close>: the context variables and the HTTP metrics of
    requests served together. This theory: a streaming request from its head to the stored turn.

  Each definition keeps the name of the function, method or class it models where it can; a
  method of an adapter carries the adapter's prefix (\<open>mem_\<close>, \<open>pg_\<close>, \<open>redis_\<close>, \<open>vllm_\<close>, \<open>gsv_\<close>). State is
  passed explicitly; an operation that may raise returns a value of \<open>exn + 'a\<close>; a port is a
  record of operations.

  \<^bold>\<open>What the lemmas show.\<close> The stores: each implementation keeps the contract, refines the
  in-memory store, and is atomic under failures; the tables of Postgres stay in order; its
  transactions are serializable call by call, and never deadlock; one pool is created and none
  is leaked; the exchanges with Redis are those of a store whose entries expire, each taking
  effect as often as it reached the server, and no key stays for ever. The clients: how often a request is sent, for how long, what is raised,
  what is masked. The use case: what is stored when, over any store that keeps the contract,
  alone, streamed, or interleaved with others, and over a store that loses answers; a stream is start, numbered tokens, one last
  event, and decodes back. Authentication and limits: who gets in, how often, how many guesses.
  The endpoints: which statuses, which bodies, what is counted, which ids the log lines carry, for
  every adapter the settings can select; what a restart keeps, and what a second application in
  the process shares with the first.

  \<^bold>\<open>Bounds and termination.\<close> Every definition is a total function; there is no fuel. The retry
  loop ends by the attempts left, the generator by the pieces of the reply left (\<open>gen_rel\<close>), a
  chat after at most four pieces, a transaction after at most seven calls, a use of the pool after
  three awaits, and requests served together by the multiset of what each has left. Python's
  integers are \<open>int\<close>; no width is at stake but that of Redis counters and Postgres turn indices,
  whose overflow is an error of the model.

  \<^bold>\<open>Limits of the model.\<close> Floats are reals. Characters are those of Latin-1. The order in which
  the framework runs dependencies, handlers and middlewares is taken from its documentation, as
  is the meaning of the SQL statements, of READ COMMITTED with its row locks, of the Redis
  commands, of \<open>asyncio.Lock\<close> and of context variables in tasks. Where an operation of a store is
  taken whole, time stands still inside it, and a COMMIT or a Redis exchange that takes effect
  though its answer is lost is left out; \<open>Postgres_Locking\<close> has both for Postgres, and shows that
  a transaction taken whole stands for every interleaving of its calls, and \<open>Redis_Exchanges\<close> has
  them for Redis. How often the Redis client sends an exchange again is not fixed there.

  \<^bold>\<open>Not modelled.\<close> The text of the metrics, reading settings from the environment and parsing
  request bodies (libraries; their results are arguments), imports and class headers. Tests, scripts, deployment files and documentation.

  \<^bold>\<open>Interleaving.\<close> Requests share the session store, the limiter, the pool and the log. A request
  consumes from the limiter once, in one step (under a lock, or in one script), so the runs of
  requests in \<open>Auth\<close> cover every interleaving there; \<open>Concurrent_Chats\<close> interleaves what the
  use cases do to the store, \<open>Postgres_Locking\<close> and \<open>Redis_Exchanges\<close> what the stores do to
  their servers, \<open>Connection_Pool\<close> the first uses of the pool, \<open>Tracing\<close> what writes to the log and
  the HTTP metrics.

  \<^bold>\<open>What is left.\<close> The metrics of the routes and the providers where requests interleave; chats
  interleaved over a store that loses answers; cancellation of a synchronous chat.
\<close>

subsection \<open>A streaming request\<close>


text \<open>The witness: an application without authentication over Postgres, whose second call fails.\<close>

definition postgres_backend :: session_backend where
  "postgres_backend = PostgresSessions (POSTGRES_DSN open_settings) 1 5 86400 10"

lemma open_settings_backend: "build_session_repo open_settings = Inr postgres_backend"
  by (simp add: open_settings_def default_settings_def build_session_repo_def postgres_backend_def)

lemma open_container_built:
  "build_container refusing_transport (repo_of reference_library) (limiter_of reference_library) open_settings = Inr open_container"
  by (simp add: open_container_def build_container_def open_settings_backend build_rate_limiter_def build_llm_client_def build_tts_client_def)

definition quiet :: "nat \<Rightarrow> unit tick" where
  "quiet = (\<lambda>_. \<lparr>tk_pause = 0, tk_gone = False, tk_cut_net = (), tk_disturb = Undisturbed\<rparr>)"

definition open_site :: "(redis_db stores, redis_db limits, unit) site" where
  "open_site = redis_site\<lparr>site_repo := (site_repo redis_site)\<lparr>st_postgres := empty_pg 0 [False, True]\<rparr>\<rparr>"


end
